(* ===== verification/Sc_Base.thy ===== *)
theory Sc_Base
  imports Main "HOL-Library.Word"
begin

text \<open>
  Shared vocabulary of the development: the error codes the client passes around, C strings and
  buffers, and the generic lemmas on lists and characters that the component theories share.

  A C buffer is a \<open>string\<close> (a list of 8-bit characters) of the buffer's size; a C string is the
  part of a buffer before its first NUL. Sizes (\<open>size_t\<close>) and offsets are \<open>nat\<close>: every sum of
  sizes in the modelled code adds lengths of objects that live in the same 32-bit address space,
  or two non-negative C \<open>int\<close>s, so that it does not wrap around. Counters, bit sets, tick counts
  and the 64-bit values of the protocol, which do wrap around or are shifted, are words.
\<close>

named_theorems bounds_intros \<open>facts that bound a position or a length\<close>
named_theorems code_unfolds \<open>definitions that a closed example unfolds\<close>

type_synonym u8 = "8 word"
type_synonym u32 = "32 word"
type_synonym u64 = "64 word"

subsection \<open>Error codes\<close>

datatype esp_err =
    ESP_OK
  | ESP_FAIL
  | ESP_ERR_NO_MEM
  | ESP_ERR_INVALID_ARG
  | ESP_ERR_INVALID_STATE
  | ESP_ERR_INVALID_SIZE
  | ESP_ERR_NOT_FOUND
  | ESP_ERR_TIMEOUT
  | ESP_ERR_INVALID_RESPONSE
  | ESP_ERR_INVALID_CRC
  | ESP_ERR_NVS_NOT_FOUND
  | ESP_ERR_OTHER int

subsection \<open>Characters, C strings and buffers\<close>

abbreviation NUL :: char where "NUL \<equiv> CHR 0x00"
abbreviation QUOTE :: char where "QUOTE \<equiv> CHR 0x22"
abbreviation BACKSLASH :: char where "BACKSLASH \<equiv> CHR 0x5C"

abbreviation byte :: "char \<Rightarrow> nat" where "byte c \<equiv> of_char c"

definition cstr :: "string \<Rightarrow> string" where
  "cstr s = takeWhile (\<lambda>c. c \<noteq> NUL) s"

definition memcpy :: "string \<Rightarrow> nat \<Rightarrow> string \<Rightarrow> string" where
  "memcpy buf i s = take i buf @ s @ drop (i + length s) buf"

text \<open>What \<open>snprintf(buf, cap, ...)\<close> leaves in its buffer when the formatted text is \<open>s\<close>.\<close>

definition snprintf :: "nat \<Rightarrow> string \<Rightarrow> string" where
  "snprintf cap s = take (cap - 1) s"

definition slice :: "string \<Rightarrow> nat \<Rightarrow> nat \<Rightarrow> string" where
  "slice s a b = take (b - a) (drop a s)"

lemma byte_less [simp]: "byte c < 256"
  by (rule nat_of_char_less_256)

lemma length_memcpy [simp]:
  "i + length s \<le> length buf \<Longrightarrow> length (memcpy buf i s) = length buf"
  by (simp add: memcpy_def)

lemma take_memcpy: "i \<le> length buf \<Longrightarrow> take (i + length s) (memcpy buf i s) = take i buf @ s"
  by (simp add: memcpy_def)

lemma length_slice [simp]: "length (slice s a b) = min (b - a) (length s - a)"
  by (simp add: slice_def)

lemma cstr_no_nul: "NUL \<notin> set s \<Longrightarrow> cstr s = s"
  by (simp add: cstr_def takeWhile_eq_all_conv) blast

lemma cstr_append: "NUL \<notin> set s \<Longrightarrow> cstr (s @ t) = s @ cstr t"
  by (induction s) (auto simp: cstr_def)

lemma cstr_append_nul [simp]: "NUL \<notin> set s \<Longrightarrow> cstr (s @ NUL # t) = s"
  by (induction s) (auto simp: cstr_def)

lemma cstr_append_NUL: "cstr (s @ NUL # t) = cstr s"
  by (induction s) (auto simp: cstr_def)

lemma nul_notin_cstr [simp]: "NUL \<notin> set (cstr s)"
  by (auto simp: cstr_def dest: set_takeWhileD)

lemma cstr_nth: "i < length (cstr s) \<Longrightarrow> s ! i \<noteq> NUL"
  using nth_mem [of i "cstr s"] nul_notin_cstr [of s] takeWhile_nth [of i "\<lambda>c. c \<noteq> NUL" s]
  by (auto simp: cstr_def)

lemma length_cstr_le: "length (cstr s) \<le> length s"
  by (simp add: cstr_def length_takeWhile_le)

lemma drop_nth_Cons: "p < length xs \<Longrightarrow> drop p xs = xs ! p # drop (Suc p) xs"
  by (simp add: Cons_nth_drop_Suc)

lemma drop_eq_ConsD:
  assumes "drop p xs = c # ys"
  shows "p < length xs" and "xs ! p = c" and "drop (Suc p) xs = ys"
proof -
  show *: "p < length xs" using assms by (cases "p < length xs") auto
  show "xs ! p = c" and "drop (Suc p) xs = ys"
    using assms drop_nth_Cons [OF *] by auto
qed

subsection \<open>Simulation\<close>

text \<open>
  The contract between a detailed object and its specification, kept by every operation; then it
  is kept by every sequence of operations.
\<close>

locale simulation =
  fixes step :: "'c \<Rightarrow> 's \<Rightarrow> 's" and spec_step :: "'c \<Rightarrow> 'a \<Rightarrow> 'a" and rel :: "'s \<Rightarrow> 'a \<Rightarrow> bool"
  assumes law_step: "rel s a \<Longrightarrow> rel (step c s) (spec_step c a)"
begin

lemma run_rel: "rel s a \<Longrightarrow> rel (fold step cs s) (fold spec_step cs a)"
  by (induction cs arbitrary: s a) (simp_all add: law_step)

end

end
