(* ===== verification/Jsmn.thy ===== *)
theory Jsmn
  imports Sc_Base
begin

text \<open>
  The vendored tokenizer \<open>external/jsmn/jsmn.h\<close> as \<open>sc_json.cpp\<close> compiles it: \<open>JSMN_STRICT\<close> is
  defined, \<open>JSMN_PARENT_LINKS\<close> is not, and the token array is never NULL.

  The document \<open>js\<close> is exactly the \<open>len\<close> bytes handed to \<open>jsmn_parse\<close>. The list \<open>js_toks\<close> is the
  allocated part \<open>tokens[0..toknext-1]\<close> of the caller's array, so \<open>toknext\<close> is its length and
  \<open>jsmn_alloc_token\<close> appends to it; the rest of the array is never read. An error return leaves
  the parser state behind, which no caller reads, so it is only the error code here.
\<close>

subsection \<open>Tokens and parser state\<close>

datatype jsmntype = JSMN_UNDEFINED | JSMN_OBJECT | JSMN_ARRAY | JSMN_STRING | JSMN_PRIMITIVE

datatype jsmnerr = JSMN_ERROR_NOMEM | JSMN_ERROR_INVAL | JSMN_ERROR_PART

record jsmntok =
  tk_type :: jsmntype
  tk_start :: int
  tk_end :: int
  tk_size :: int

record jsmn_parser =
  js_pos :: nat
  js_super :: int
  js_toks :: "jsmntok list"
  js_count :: nat

definition jsmn_init :: jsmn_parser where
  "jsmn_init = \<lparr>js_pos = 0, js_super = -1, js_toks = [], js_count = 0\<rparr>"

text \<open>A token that has been opened and not closed yet: \<open>start != -1 && end == -1\<close>.\<close>

definition tok_open :: "jsmntok \<Rightarrow> bool" where
  "tok_open t \<longleftrightarrow> tk_start t \<noteq> -1 \<and> tk_end t = -1"

definition is_container :: "jsmntype \<Rightarrow> bool" where
  "is_container t \<longleftrightarrow> t = JSMN_ARRAY \<or> t = JSMN_OBJECT"

definition jsmn_alloc_token ::
    "nat \<Rightarrow> jsmntok \<Rightarrow> jsmntok list \<Rightarrow> jsmntok list option" where
  "jsmn_alloc_token num t toks = (if length toks \<ge> num then None else Some (toks @ [t]))"

definition jsmn_fill_token :: "jsmntype \<Rightarrow> int \<Rightarrow> int \<Rightarrow> jsmntok" where
  "jsmn_fill_token ty start end' =
     \<lparr>tk_type = ty, tk_start = start, tk_end = end', tk_size = 0\<rparr>"

text \<open>\<open>tokens[toksuper].size++\<close>, skipped when \<open>toksuper\<close> is -1.\<close>

definition bump_super :: "int \<Rightarrow> jsmntok list \<Rightarrow> jsmntok list" where
  "bump_super s toks =
     (if s = -1 then toks
      else toks[nat s := (toks ! nat s)\<lparr>tk_size := tk_size (toks ! nat s) + 1\<rparr>])"

subsection \<open>Primitives\<close>

definition prim_delim :: "char \<Rightarrow> bool" where
  "prim_delim c \<longleftrightarrow>
     c \<in> {CHR 0x09, CHR 0x0D, CHR 0x0A, CHR 0x20, CHR '','', CHR '']'', CHR ''}''}"

text \<open>The scanning loop: the position of the delimiter that ends the primitive at \<open>p\<close>.\<close>

function prim_scan :: "string \<Rightarrow> nat \<Rightarrow> jsmnerr + nat" where
  "prim_scan js p =
     (if p < length js \<and> js ! p \<noteq> NUL
      then if prim_delim (js ! p) then Inr p
           else if byte (js ! p) < 32 \<or> byte (js ! p) \<ge> 127 then Inl JSMN_ERROR_INVAL
           else prim_scan js (Suc p)
      else Inl JSMN_ERROR_PART)"
  by pat_completeness auto
termination
  by (relation "measure (\<lambda>(js, p). length js - p)") auto

declare prim_scan.simps [simp del]

definition jsmn_parse_primitive ::
    "string \<Rightarrow> nat \<Rightarrow> jsmn_parser \<Rightarrow> jsmnerr + jsmn_parser" where
  "jsmn_parse_primitive js num st =
     (case prim_scan js (js_pos st) of
        Inl e \<Rightarrow> Inl e
      | Inr p \<Rightarrow>
          (case jsmn_alloc_token num
                  (jsmn_fill_token JSMN_PRIMITIVE (int (js_pos st)) (int p)) (js_toks st) of
             None \<Rightarrow> Inl JSMN_ERROR_NOMEM
           | Some toks \<Rightarrow> Inr (st\<lparr>js_toks := toks, js_pos := p - 1\<rparr>)))"

subsection \<open>Strings\<close>

definition is_hex_char :: "char \<Rightarrow> bool" where
  "is_hex_char c \<longleftrightarrow>
     (48 \<le> byte c \<and> byte c \<le> 57) \<or> (65 \<le> byte c \<and> byte c \<le> 70) \<or> (97 \<le> byte c \<and> byte c \<le> 102)"

text \<open>The loop over at most \<open>n\<close> hex digits after \<open>\u\<close>; None is a character that is not one.\<close>

fun hex_scan :: "string \<Rightarrow> nat \<Rightarrow> nat \<Rightarrow> nat option" where
  "hex_scan js p 0 = Some p"
| "hex_scan js p (Suc n) =
     (if p < length js \<and> js ! p \<noteq> NUL
      then if is_hex_char (js ! p) then hex_scan js (Suc p) n else None
      else Some p)"

definition simple_escape :: "char \<Rightarrow> bool" where
  "simple_escape c \<longleftrightarrow>
     c \<in> {QUOTE, CHR ''/'', BACKSLASH, CHR ''b'', CHR ''f'', CHR ''r'', CHR ''n'', CHR ''t''}"

lemma hex_scan_ge: "hex_scan js p n = Some q \<Longrightarrow> p \<le> q"
  by (induction js p n rule: hex_scan.induct) (auto split: if_splits)

text \<open>
  The scanning loop from just after the opening quote: the position of the closing quote. After
  a \<open>\u\<close> escape the code steps back one position and the loop's increment steps forward again.
\<close>

function str_scan :: "string \<Rightarrow> nat \<Rightarrow> jsmnerr + nat" where
  "str_scan js p =
     (if p < length js \<and> js ! p \<noteq> NUL
      then if js ! p = QUOTE then Inr p
           else if js ! p = BACKSLASH \<and> p + 1 < length js
           then if simple_escape (js ! (p + 1)) then str_scan js (p + 2)
                else if js ! (p + 1) = CHR ''u''
                then (case hex_scan js (p + 2) 4 of
                        None \<Rightarrow> Inl JSMN_ERROR_INVAL
                      | Some q \<Rightarrow> str_scan js q)
                else Inl JSMN_ERROR_INVAL
           else str_scan js (Suc p)
      else Inl JSMN_ERROR_PART)"
  by pat_completeness auto
termination
  by (relation "measure (\<lambda>(js, p). length js - p)") (auto dest!: hex_scan_ge)

declare str_scan.simps [simp del]

definition jsmn_parse_string ::
    "string \<Rightarrow> nat \<Rightarrow> jsmn_parser \<Rightarrow> jsmnerr + jsmn_parser" where
  "jsmn_parse_string js num st =
     (case str_scan js (Suc (js_pos st)) of
        Inl e \<Rightarrow> Inl e
      | Inr p \<Rightarrow>
          (case jsmn_alloc_token num
                  (jsmn_fill_token JSMN_STRING (int (js_pos st) + 1) (int p)) (js_toks st) of
             None \<Rightarrow> Inl JSMN_ERROR_NOMEM
           | Some toks \<Rightarrow> Inr (st\<lparr>js_toks := toks, js_pos := p\<rparr>)))"

subsection \<open>The main loop\<close>

text \<open>\<open>for (i = n - 1; i >= 0; i--)\<close> looking for an open token.\<close>

fun last_open :: "jsmntok list \<Rightarrow> nat \<Rightarrow> nat option" where
  "last_open toks 0 = None"
| "last_open toks (Suc i) = (if tok_open (toks ! i) then Some i else last_open toks i)"

text \<open>The same loop in the comma case, which also asks for a container.\<close>

fun last_open_container :: "jsmntok list \<Rightarrow> nat \<Rightarrow> nat option" where
  "last_open_container toks 0 = None"
| "last_open_container toks (Suc i) =
     (if is_container (tk_type (toks ! i)) \<and> tok_open (toks ! i) then Some i
      else last_open_container toks i)"

definition jsmn_open :: "nat \<Rightarrow> jsmntype \<Rightarrow> jsmn_parser \<Rightarrow> jsmnerr + jsmn_parser" where
  "jsmn_open num ty st =
     (case jsmn_alloc_token num
             \<lparr>tk_type = ty, tk_start = int (js_pos st), tk_end = -1, tk_size = 0\<rparr> (js_toks st) of
        None \<Rightarrow> Inl JSMN_ERROR_NOMEM
      | Some toks \<Rightarrow>
          if js_super st \<noteq> -1 \<and> tk_type (toks ! nat (js_super st)) = JSMN_OBJECT
          then Inl JSMN_ERROR_INVAL
          else Inr (st\<lparr>js_toks := bump_super (js_super st) toks,
                       js_super := int (length toks) - 1,
                       js_count := js_count st + 1\<rparr>))"

definition jsmn_close :: "jsmntype \<Rightarrow> jsmn_parser \<Rightarrow> jsmnerr + jsmn_parser" where
  "jsmn_close ty st =
     (case last_open (js_toks st) (length (js_toks st)) of
        None \<Rightarrow> Inl JSMN_ERROR_INVAL
      | Some i \<Rightarrow>
          if tk_type (js_toks st ! i) \<noteq> ty then Inl JSMN_ERROR_INVAL
          else let toks = (js_toks st)[i := (js_toks st ! i)\<lparr>tk_end := int (js_pos st) + 1\<rparr>]
               in Inr (st\<lparr>js_toks := toks,
                          js_super := (case last_open toks (Suc i) of
                                         None \<Rightarrow> -1 | Some j \<Rightarrow> int j)\<rparr>))"

definition jsmn_comma :: "jsmn_parser \<Rightarrow> jsmn_parser" where
  "jsmn_comma st =
     (if js_super st \<noteq> -1 \<and> \<not> is_container (tk_type (js_toks st ! nat (js_super st)))
      then (case last_open_container (js_toks st) (length (js_toks st)) of
              None \<Rightarrow> st
            | Some i \<Rightarrow> st\<lparr>js_super := int i\<rparr>)
      else st)"

text \<open>\<open>count++\<close> and the size of the enclosing token, after a string or a primitive.\<close>

definition jsmn_leaf :: "jsmnerr + jsmn_parser \<Rightarrow> jsmnerr + jsmn_parser" where
  "jsmn_leaf r =
     (case r of
        Inl e \<Rightarrow> Inl e
      | Inr st \<Rightarrow> Inr (st\<lparr>js_toks := bump_super (js_super st) (js_toks st),
                          js_count := js_count st + 1\<rparr>))"

definition prim_start :: "char \<Rightarrow> bool" where
  "prim_start c \<longleftrightarrow> c = CHR ''-'' \<or> (48 \<le> byte c \<and> byte c \<le> 57) \<or>
     c = CHR ''t'' \<or> c = CHR ''f'' \<or> c = CHR ''n''"

text \<open>A primitive must not be the key of an object, nor a second value of one key.\<close>

definition prim_as_key :: "jsmn_parser \<Rightarrow> bool" where
  "prim_as_key st \<longleftrightarrow> js_super st \<noteq> -1 \<and>
     (let t = js_toks st ! nat (js_super st)
      in tk_type t = JSMN_OBJECT \<or> (tk_type t = JSMN_STRING \<and> tk_size t \<noteq> 0))"

text \<open>The body of the loop for the character at \<open>js_pos\<close>.\<close>

definition jsmn_step :: "string \<Rightarrow> nat \<Rightarrow> jsmn_parser \<Rightarrow> jsmnerr + jsmn_parser" where
  "jsmn_step js num st =
     (let c = js ! js_pos st in
      if c = CHR ''{'' then jsmn_open num JSMN_OBJECT st
      else if c = CHR ''['' then jsmn_open num JSMN_ARRAY st
      else if c = CHR ''}'' then jsmn_close JSMN_OBJECT st
      else if c = CHR '']'' then jsmn_close JSMN_ARRAY st
      else if c = QUOTE then jsmn_leaf (jsmn_parse_string js num st)
      else if c \<in> {CHR 0x09, CHR 0x0D, CHR 0x0A, CHR 0x20} then Inr st
      else if c = CHR '':'' then Inr (st\<lparr>js_super := int (length (js_toks st)) - 1\<rparr>)
      else if c = CHR '','' then Inr (jsmn_comma st)
      else if prim_start c
      then if prim_as_key st then Inl JSMN_ERROR_INVAL
           else jsmn_leaf (jsmn_parse_primitive js num st)
      else Inl JSMN_ERROR_INVAL)"

text \<open>The scanners only move forward, and stop inside the document.\<close>

lemma prim_scan_bounds:
  "prim_scan js p = Inr q \<Longrightarrow> p \<le> q \<and> q < length js \<and> prim_delim (js ! q)"
proof (induction js p rule: prim_scan.induct)
  case (1 js p)
  then show ?case
    by (fastforce simp: prim_scan.simps [of js p] split: if_splits)
qed

lemma str_scan_bounds:
  "str_scan js p = Inr q \<Longrightarrow> p \<le> q \<and> q < length js \<and> js ! q = QUOTE"
proof (induction js p rule: str_scan.induct)
  case (1 js p)
  then show ?case
    by (fastforce simp: str_scan.simps [of js p] split: if_splits option.splits
        dest: hex_scan_ge)
qed

lemma prim_start_not_delim: "prim_start c \<Longrightarrow> \<not> prim_delim c"
  by (auto simp: prim_start_def prim_delim_def)

lemma prim_scan_start: "prim_start (js ! p) \<Longrightarrow> prim_scan js p = Inr q \<Longrightarrow> p < q"
  using prim_scan_bounds [of js p q] prim_start_not_delim [of "js ! p"]
  by (cases "p = q") auto

lemma jsmn_alloc_Some:
  "jsmn_alloc_token num t toks = Some toks' \<longleftrightarrow> length toks < num \<and> toks' = toks @ [t]"
  by (auto simp: jsmn_alloc_token_def)

lemmas jsmn_step_defs =
  jsmn_step_def jsmn_open_def jsmn_close_def jsmn_comma_def jsmn_leaf_def
  jsmn_parse_string_def jsmn_parse_primitive_def Let_def jsmn_alloc_Some

lemma jsmn_step_pos:
  assumes "jsmn_step js num st = Inr st'" and "js_pos st < length js"
  shows "js_pos st \<le> js_pos st' \<and> js_pos st' < length js"
  using assms
  by (auto simp: jsmn_step_defs split: if_splits option.splits sum.splits
      dest!: str_scan_bounds) (auto dest: prim_scan_bounds prim_scan_start)

function jsmn_run :: "string \<Rightarrow> nat \<Rightarrow> jsmn_parser \<Rightarrow> jsmnerr + jsmn_parser" where
  "jsmn_run js num st =
     (if js_pos st < length js \<and> js ! js_pos st \<noteq> NUL
      then (case jsmn_step js num st of
              Inl e \<Rightarrow> Inl e
            | Inr st' \<Rightarrow> jsmn_run js num (st'\<lparr>js_pos := Suc (js_pos st')\<rparr>))
      else Inr st)"
  by pat_completeness auto
termination
  by (relation "measure (\<lambda>(js, num, st). length js - js_pos st)") (auto dest: jsmn_step_pos)

declare jsmn_run.simps [simp del]

text \<open>\<open>jsmn_parse\<close> after \<open>jsmn_init\<close>: the token count and the tokens, or the error.\<close>

definition jsmn_parse :: "string \<Rightarrow> nat \<Rightarrow> jsmnerr + nat \<times> jsmntok list" where
  "jsmn_parse js num =
     (case jsmn_run js num jsmn_init of
        Inl e \<Rightarrow> Inl e
      | Inr st \<Rightarrow>
          if last_open (js_toks st) (length (js_toks st)) \<noteq> None then Inl JSMN_ERROR_PART
          else Inr (js_count st, js_toks st))"

subsection \<open>Well-formed tokens\<close>

text \<open>
  What every token satisfies while the parser stands at position \<open>p\<close> of a document of \<open>n\<close> bytes:
  an open token is a container that starts at or before \<open>p\<close>, a closed one delimits a part of
  the document.
\<close>

definition tok_ok :: "nat \<Rightarrow> nat \<Rightarrow> jsmntok \<Rightarrow> bool" where
  "tok_ok n p t \<longleftrightarrow>
     0 \<le> tk_start t \<and> 0 \<le> tk_size t \<and> tk_type t \<noteq> JSMN_UNDEFINED \<and>
     (if tk_end t = -1 then is_container (tk_type t) \<and> tk_start t \<le> int p
      else tk_start t \<le> tk_end t \<and> tk_end t \<le> int n)"

definition jsmn_inv :: "string \<Rightarrow> nat \<Rightarrow> jsmn_parser \<Rightarrow> bool" where
  "jsmn_inv js num st \<longleftrightarrow>
     length (js_toks st) \<le> num \<and> js_count st = length (js_toks st) \<and>
     -1 \<le> js_super st \<and> js_super st < int (length (js_toks st)) \<and>
     (\<forall>t \<in> set (js_toks st). tok_ok (length js) (js_pos st) t)"

lemma tok_ok_mono: "tok_ok n p t \<Longrightarrow> p \<le> q \<Longrightarrow> tok_ok n q t"
  by (auto simp: tok_ok_def)

lemma tok_ok_bump [simp]: "tok_ok n p t \<Longrightarrow> tok_ok n p (t\<lparr>tk_size := tk_size t + 1\<rparr>)"
  by (auto simp: tok_ok_def)

lemma length_bump_super [simp]: "length (bump_super s toks) = length toks"
  by (simp add: bump_super_def)

lemma tok_ok_bump_super:
  assumes "\<forall>t \<in> set toks. tok_ok n p t" and "-1 \<le> s" and "s < int (length toks)"
  shows "\<forall>t \<in> set (bump_super s toks). tok_ok n p t"
  using assms by (auto simp: bump_super_def dest!: set_update_subset_insert [THEN subsetD])

lemma last_open_Some:
  "last_open toks n = Some i \<Longrightarrow> i < n \<and> tok_open (toks ! i)"
  by (induction toks n rule: last_open.induct) (auto split: if_splits)

lemma last_open_container_Some:
  "last_open_container toks n = Some i \<Longrightarrow>
    i < n \<and> tok_open (toks ! i) \<and> is_container (tk_type (toks ! i))"
  by (induction toks n rule: last_open_container.induct) (auto split: if_splits)

lemma last_open_None: "last_open toks n = None \<longleftrightarrow> (\<forall>i<n. \<not> tok_open (toks ! i))"
  by (induction toks n rule: last_open.induct) (auto simp: less_Suc_eq)

lemma jsmn_inv_init: "jsmn_inv js num jsmn_init"
  by (simp add: jsmn_inv_def jsmn_init_def)

text \<open>Each operation keeps the invariant; the position may already have moved to \<open>q\<close>.\<close>

lemma jsmn_open_inv:
  assumes inv: "jsmn_inv js num st" and "is_container ty"
    and op: "jsmn_open num ty st = Inr st'"
  shows "jsmn_inv js num st'"
proof -
  let ?t = "\<lparr>tk_type = ty, tk_start = int (js_pos st), tk_end = -1, tk_size = 0\<rparr>"
  from op have room: "length (js_toks st) < num"
    and st': "st' = st\<lparr>js_toks := bump_super (js_super st) (js_toks st @ [?t]),
                      js_super := int (length (js_toks st)), js_count := js_count st + 1\<rparr>"
    by (auto simp: jsmn_open_def jsmn_alloc_Some split: option.splits if_splits)
  have "\<forall>t \<in> set (js_toks st @ [?t]). tok_ok (length js) (js_pos st) t"
    using inv assms(2) by (auto simp: jsmn_inv_def tok_ok_def is_container_def)
  then have "\<forall>t \<in> set (bump_super (js_super st) (js_toks st @ [?t])).
      tok_ok (length js) (js_pos st) t"
    by (rule tok_ok_bump_super) (use inv in \<open>auto simp: jsmn_inv_def\<close>)
  with inv room st' show ?thesis by (simp add: jsmn_inv_def)
qed

lemma jsmn_close_inv:
  assumes inv: "jsmn_inv js num st" and pos: "js_pos st < length js"
    and op: "jsmn_close ty st = Inr st'"
  shows "jsmn_inv js num st'"
proof -
  from op obtain i where i: "last_open (js_toks st) (length (js_toks st)) = Some i"
    by (auto simp: jsmn_close_def split: option.splits)
  then have len: "i < length (js_toks st)" and opn: "tok_open (js_toks st ! i)"
    by (auto dest: last_open_Some)
  define t' where "t' = (js_toks st ! i)\<lparr>tk_end := int (js_pos st) + 1\<rparr>"
  have "tok_ok (length js) (js_pos st) (js_toks st ! i)"
    using inv len by (simp add: jsmn_inv_def)
  then have t': "tok_ok (length js) (js_pos st) t'"
    using opn pos by (auto simp: t'_def tok_ok_def tok_open_def)
  from op i obtain st'': "js_toks st' = (js_toks st)[i := t']" "js_count st' = js_count st"
      "js_pos st' = js_pos st"
    and sup: "js_super st' = -1 \<or> (\<exists>j. js_super st' = int j \<and> j \<le> i)"
    by (force simp: jsmn_close_def Let_def t'_def less_Suc_eq_le
        dest: last_open_Some split: option.splits if_splits)
  have "\<forall>t \<in> set ((js_toks st)[i := t']). tok_ok (length js) (js_pos st) t"
    using inv t' by (auto simp: jsmn_inv_def dest!: set_update_subset_insert [THEN subsetD])
  with inv sup len st'' show ?thesis by (auto simp: jsmn_inv_def)
qed

lemma jsmn_comma_inv: "jsmn_inv js num st \<Longrightarrow> jsmn_inv js num (jsmn_comma st)"
  by (auto simp: jsmn_inv_def jsmn_comma_def dest: last_open_container_Some split: option.splits)

lemma jsmn_leaf_inv:
  assumes "jsmn_inv js num st" and "length (js_toks st) < num" and "js_pos st \<le> q"
    and "tok_ok (length js) q t"
  shows "jsmn_leaf (Inr (st\<lparr>js_toks := js_toks st @ [t], js_pos := q\<rparr>)) = Inr st' \<Longrightarrow>
    jsmn_inv js num st'"
proof -
  assume "jsmn_leaf (Inr (st\<lparr>js_toks := js_toks st @ [t], js_pos := q\<rparr>)) = Inr st'"
  then have st': "st' = st\<lparr>js_toks := bump_super (js_super st) (js_toks st @ [t]),
      js_pos := q, js_count := js_count st + 1\<rparr>"
    by (auto simp: jsmn_leaf_def)
  have "\<forall>u \<in> set (js_toks st @ [t]). tok_ok (length js) q u"
    using assms by (auto simp: jsmn_inv_def intro: tok_ok_mono)
  then have "\<forall>u \<in> set (bump_super (js_super st) (js_toks st @ [t])). tok_ok (length js) q u"
    by (rule tok_ok_bump_super) (use assms in \<open>auto simp: jsmn_inv_def\<close>)
  with assms st' show ?thesis by (simp add: jsmn_inv_def)
qed

lemma jsmn_string_inv:
  assumes "jsmn_inv js num st" and "jsmn_leaf (jsmn_parse_string js num st) = Inr st'"
  shows "jsmn_inv js num st'"
proof -
  from assms(2) obtain q where q: "str_scan js (Suc (js_pos st)) = Inr q"
    and room: "length (js_toks st) < num"
    and leaf: "jsmn_leaf (Inr (st\<lparr>js_toks := js_toks st @
        [jsmn_fill_token JSMN_STRING (int (js_pos st) + 1) (int q)], js_pos := q\<rparr>)) = Inr st'"
    by (auto simp: jsmn_leaf_def jsmn_parse_string_def jsmn_alloc_Some
        split: sum.splits option.splits)
  from q have "Suc (js_pos st) \<le> q" "q < length js" by (auto dest: str_scan_bounds)
  then show ?thesis
    by (intro jsmn_leaf_inv [OF assms(1) room _ _ leaf]) (auto simp: tok_ok_def jsmn_fill_token_def)
qed

lemma jsmn_primitive_inv:
  assumes "jsmn_inv js num st" and "prim_start (js ! js_pos st)"
    and "jsmn_leaf (jsmn_parse_primitive js num st) = Inr st'"
  shows "jsmn_inv js num st'"
proof -
  from assms(3) obtain q where q: "prim_scan js (js_pos st) = Inr q"
    and room: "length (js_toks st) < num"
    and leaf: "jsmn_leaf (Inr (st\<lparr>js_toks := js_toks st @
        [jsmn_fill_token JSMN_PRIMITIVE (int (js_pos st)) (int q)], js_pos := q - 1\<rparr>)) = Inr st'"
    by (auto simp: jsmn_leaf_def jsmn_parse_primitive_def jsmn_alloc_Some
        split: sum.splits option.splits)
  from q have "js_pos st < q" "q < length js"
    using assms(2) by (auto dest: prim_scan_bounds prim_scan_start)
  then show ?thesis
    by (intro jsmn_leaf_inv [OF assms(1) room _ _ leaf]) (auto simp: tok_ok_def jsmn_fill_token_def)
qed

text \<open>The branches of one successful step, as a case distinction.\<close>

lemma jsmn_step_branches:
  "jsmn_step js num st = Inr st' \<Longrightarrow>
    (\<exists>ty. is_container ty \<and> jsmn_open num ty st = Inr st') \<or>
    (\<exists>ty. jsmn_close ty st = Inr st') \<or>
    jsmn_leaf (jsmn_parse_string js num st) = Inr st' \<or>
    (prim_start (js ! js_pos st) \<and> jsmn_leaf (jsmn_parse_primitive js num st) = Inr st') \<or>
    st' = st \<or> st' = st\<lparr>js_super := int (length (js_toks st)) - 1\<rparr> \<or> st' = jsmn_comma st"
  unfolding jsmn_step_def Let_def is_container_def
  by (simp only: split: if_split_asm, simp_all only: sum.inject sum.distinct) blast+

lemma jsmn_step_inv:
  assumes inv: "jsmn_inv js num st" and pos: "js_pos st < length js"
    and step: "jsmn_step js num st = Inr st'"
  shows "jsmn_inv js num st'"
proof -
  have "jsmn_inv js num (st\<lparr>js_super := int (length (js_toks st)) - 1\<rparr>)"
    using inv by (simp add: jsmn_inv_def)
  with jsmn_step_branches [OF step] show ?thesis
    by (elim disjE exE conjE)
      (simp_all add: inv jsmn_open_inv [OF inv] jsmn_close_inv [OF inv pos]
        jsmn_string_inv [OF inv] jsmn_primitive_inv [OF inv] jsmn_comma_inv [OF inv])
qed

lemma jsmn_run_inv:
  "jsmn_run js num st = Inr st' \<Longrightarrow> jsmn_inv js num st \<Longrightarrow> jsmn_inv js num st'"
proof (induction js num st rule: jsmn_run.induct)
  case (1 js num st)
  show ?case
  proof (cases "js_pos st < length js \<and> js ! js_pos st \<noteq> NUL")
    case False
    with "1.prems" show ?thesis by (simp add: jsmn_run.simps [of js num st] split: if_splits)
  next
    case True
    with "1.prems"(1) obtain st1 where st1: "jsmn_step js num st = Inr st1"
      and run: "jsmn_run js num (st1\<lparr>js_pos := Suc (js_pos st1)\<rparr>) = Inr st'"
      by (auto simp: jsmn_run.simps [of js num st] split: sum.splits)
    have "jsmn_inv js num st1" using st1 True "1.prems"(2) by (blast intro: jsmn_step_inv)
    then have "jsmn_inv js num (st1\<lparr>js_pos := Suc (js_pos st1)\<rparr>)"
      by (auto simp: jsmn_inv_def intro: tok_ok_mono)
    with "1.IH" [OF True st1 run] show ?thesis by blast
  qed
qed

text \<open>Every token of a parsed document delimits a part of it.\<close>

definition tok_within :: "nat \<Rightarrow> jsmntok \<Rightarrow> bool" where
  "tok_within n t \<longleftrightarrow> 0 \<le> tk_start t \<and> tk_start t \<le> tk_end t \<and> tk_end t \<le> int n \<and>
     0 \<le> tk_size t \<and> tk_type t \<noteq> JSMN_UNDEFINED"

lemma jsmn_parse_tokens:
  assumes "jsmn_parse js num = Inr (count, toks)"
  shows "count = length toks" and "length toks \<le> num"
    and "\<forall>t \<in> set toks. tok_within (length js) t"
proof -
  obtain st where run: "jsmn_run js num jsmn_init = Inr st"
    using assms by (cases "jsmn_run js num jsmn_init") (simp_all add: jsmn_parse_def)
  with assms have closed: "last_open (js_toks st) (length (js_toks st)) = None"
    and eq: "count = js_count st" "toks = js_toks st"
    by (simp_all add: jsmn_parse_def split: if_split_asm)
  from jsmn_run_inv [OF run jsmn_inv_init] have inv: "jsmn_inv js num st" .
  with eq show "count = length toks" and "length toks \<le> num" by (auto simp: jsmn_inv_def)
  show "\<forall>t \<in> set toks. tok_within (length js) t"
  proof
    fix t assume t: "t \<in> set toks"
    with closed eq have "\<not> tok_open t" by (auto simp: last_open_None in_set_conv_nth)
    moreover from inv eq t have "tok_ok (length js) (js_pos st) t" by (simp add: jsmn_inv_def)
    ultimately show "tok_within (length js) t"
      by (auto simp: tok_ok_def tok_open_def tok_within_def split: if_splits)
  qed
qed

subsection \<open>Properties\<close>

text \<open>
  C21: The tokenizer is safe on every input: whatever the bytes of the document and the size of the
  token array, it never stores more tokens than the array holds, it reports exactly the number it
  stored, and every token it reports is closed and delimits a part of the document.
\<close>

theorem tokens_inside:
  assumes "jsmn_parse js num = Inr (count, toks)"
  shows "count = length toks \<and> length toks \<le> num \<and>
    (\<forall>t \<in> set toks. 0 \<le> tk_start t \<and> tk_start t \<le> tk_end t \<and> tk_end t \<le> int (length js) \<and>
      0 \<le> tk_size t)"
  using jsmn_parse_tokens [OF assms] by (simp add: tok_within_def)

theorem tokens_inside_witness:
  "jsmn_parse ''{}'' 4 = Inr (1, [\<lparr>tk_type = JSMN_OBJECT, tk_start = 0, tk_end = 2, tk_size = 0\<rparr>]) \<and>
    length [\<lparr>tk_type = JSMN_OBJECT, tk_start = 0, tk_end = 2, tk_size = 0\<rparr>] \<le> 4"
proof -
  have p: "jsmn_parse ''{}'' 4 = Inr (1, [\<lparr>tk_type = JSMN_OBJECT, tk_start = 0, tk_end = 2, tk_size = 0\<rparr>])"
    by code_simp
  from p tokens_inside [OF p] show ?thesis by blast
qed

end
