(* ===== verification/Json_Reader.thy ===== *)
theory Json_Reader
  imports Jsmn
begin

unbundle bit_operations_syntax

text \<open>
  \<open>sc_json_reader\<close> and \<open>sc_json_doc\<close> of \<open>include/sc_json.hpp\<close> and \<open>src/sc_json.cpp\<close>: the JSON
  reader over the jsmn tokens. Token indices are C \<open>int\<close>s, -1 standing for "missing".

  A getter with an output buffer returns its boolean and the characters it stored at the start
  of that buffer, also when it fails half-way (\<open>write_out\<close> gives the buffer afterwards). A getter
  with a scalar output returns an option: it writes the scalar only when it succeeds.
\<close>

subsection \<open>State and parsing\<close>

record sc_json_reader =
  rd_tokens :: "jsmntok list"
  rd_max_tokens :: nat
  rd_count :: nat
  rd_json :: string

definition sc_json_doc :: "nat \<Rightarrow> sc_json_reader" where
  "sc_json_doc n = \<lparr>rd_tokens = [], rd_max_tokens = n, rd_count = 0, rd_json = []\<rparr>"

text \<open>
  With \<open>count = 0\<close> no accessor reads a token, so the partly filled array an error leaves behind
  is not recorded.
\<close>

definition reader_parse :: "string \<Rightarrow> sc_json_reader \<Rightarrow> esp_err \<times> sc_json_reader" where
  "reader_parse js r =
     (let r0 = r\<lparr>rd_json := js, rd_count := 0\<rparr> in
      case jsmn_parse js (rd_max_tokens r) of
        Inl JSMN_ERROR_NOMEM \<Rightarrow> (ESP_ERR_NO_MEM, r0)
      | Inl _ \<Rightarrow> (ESP_ERR_INVALID_ARG, r0)
      | Inr (ret, toks) \<Rightarrow>
          if ret < 1 \<or> tk_type (toks ! 0) \<noteq> JSMN_OBJECT then (ESP_ERR_INVALID_ARG, r0)
          else (ESP_OK, r0\<lparr>rd_tokens := toks, rd_count := ret\<rparr>))"

subsection \<open>Walking the tokens\<close>

abbreviation tok_at :: "sc_json_reader \<Rightarrow> int \<Rightarrow> jsmntok" where
  "tok_at r i \<equiv> rd_tokens r ! nat i"

definition tok_valid :: "sc_json_reader \<Rightarrow> int \<Rightarrow> bool" where
  "tok_valid r i \<longleftrightarrow> 0 \<le> i \<and> i < int (rd_count r)"

definition tok_text :: "sc_json_reader \<Rightarrow> jsmntok \<Rightarrow> string" where
  "tok_text r t = slice (rd_json r) (nat (tk_start t)) (nat (tk_end t))"

text \<open>The loop of \<open>skip\<close>: walk forward until every child of the subtree has been consumed.\<close>

function skip_loop :: "sc_json_reader \<Rightarrow> int \<Rightarrow> nat \<Rightarrow> nat" where
  "skip_loop r pending idx =
     (if pending > 0 \<and> idx < rd_count r
      then skip_loop r (pending + (tk_size (rd_tokens r ! idx) - 1)) (idx + 1)
      else idx)"
  by pat_completeness auto
termination
  by (relation "measure (\<lambda>(r, pending, idx). rd_count r - idx)") auto

declare skip_loop.simps [simp del]

definition skip :: "sc_json_reader \<Rightarrow> int \<Rightarrow> int" where
  "skip r tok =
     (if \<not> tok_valid r tok then -1
      else let idx = skip_loop r 1 (nat tok) in if idx < rd_count r then int idx else -1)"

definition is_object :: "sc_json_reader \<Rightarrow> int \<Rightarrow> bool" where
  "is_object r tok \<longleftrightarrow> tok_valid r tok \<and> tk_type (tok_at r tok) = JSMN_OBJECT"

definition child_count :: "sc_json_reader \<Rightarrow> int \<Rightarrow> int" where
  "child_count r tok = (if tok_valid r tok then tk_size (tok_at r tok) else 0)"

definition raw :: "sc_json_reader \<Rightarrow> int \<Rightarrow> string option" where
  "raw r tok = (if tok_valid r tok then Some (tok_text r (tok_at r tok)) else None)"

definition key_equals :: "sc_json_reader \<Rightarrow> int \<Rightarrow> string \<Rightarrow> bool" where
  "key_equals r tok key \<longleftrightarrow>
     (let t = tok_at r tok in
      tk_type t = JSMN_STRING \<and> tk_end t - tk_start t = int (length key) \<and> tok_text r t = key)"

text \<open>The loop of \<open>find\<close> over the members of an object of \<open>n\<close> members.\<close>

function find_loop :: "sc_json_reader \<Rightarrow> string \<Rightarrow> int \<Rightarrow> int \<Rightarrow> int \<Rightarrow> int" where
  "find_loop r key n idx member =
     (if idx < n \<and> member \<ge> 0 \<and> member + 1 < int (rd_count r)
      then if tk_size (tok_at r member) \<noteq> 1 then -1
           else if key_equals r member key then member + 1
           else find_loop r key n (idx + 1) (skip r (member + 1))
      else -1)"
  by pat_completeness auto
termination
  by (relation "measure (\<lambda>(r, key, n, idx, member). nat (n - idx))") auto

declare find_loop.simps [simp del]

definition find :: "sc_json_reader \<Rightarrow> int \<Rightarrow> string \<Rightarrow> int" where
  "find r object key =
     (if \<not> is_object r object then -1
      else find_loop r key (tk_size (tok_at r object)) 0 (object + 1))"

subsection \<open>Strings\<close>

definition hex_value :: "char \<Rightarrow> int" where
  "hex_value c =
     (if 48 \<le> byte c \<and> byte c \<le> 57 then of_char c - 48
      else if 97 \<le> byte c \<and> byte c \<le> 102 then of_char c - 97 + 10
      else if 65 \<le> byte c \<and> byte c \<le> 70 then of_char c - 65 + 10
      else -1)"

text \<open>The loop over the hex digits of a \<open>\u\<close> escape; None is a digit with a negative value.\<close>

fun hex_code :: "nat \<Rightarrow> string \<Rightarrow> nat option" where
  "hex_code code [] = Some code"
| "hex_code code (c # cs) =
     (let digit = hex_value c in
      if digit < 0 then None else hex_code (push_bit 4 code OR nat digit) cs)"

text \<open>\<open>emit\<close>, chained with \<open>&&\<close> over the bytes \<open>xs\<close>: room for the final NUL is kept.\<close>

fun emit_all :: "nat \<Rightarrow> string \<Rightarrow> string \<Rightarrow> bool \<times> string" where
  "emit_all cap out [] = (True, out)"
| "emit_all cap out (x # xs) =
     (if length out + 1 \<ge> cap then (False, out) else emit_all cap (out @ [x]) xs)"

definition utf8_bytes :: "nat \<Rightarrow> string" where
  "utf8_bytes code =
     (if code < 0x80 then [char_of code]
      else if code < 0x800
      then [char_of (0xC0 OR drop_bit 6 code), char_of (0x80 OR (code AND 0x3F))]
      else [char_of (0xE0 OR drop_bit 12 code),
            char_of (0x80 OR (drop_bit 6 code AND 0x3F)), char_of (0x80 OR (code AND 0x3F))])"

definition surrogate_to_question :: "nat \<Rightarrow> nat" where
  "surrogate_to_question code =
     (if 0xD800 \<le> code \<and> code \<le> 0xDFFF then of_char CHR ''?'' else code)"

definition simple_unescape :: "char \<Rightarrow> char" where
  "simple_unescape e =
     (if e = CHR ''b'' then CHR 0x08
      else if e = CHR ''f'' then CHR 0x0C
      else if e = CHR ''n'' then CHR 0x0A
      else if e = CHR ''r'' then CHR 0x0D
      else if e = CHR ''t'' then CHR 0x09
      else e)"

text \<open>The loop of \<open>str_at\<close>: its result and what it has emitted.\<close>

function str_loop :: "nat \<Rightarrow> string \<Rightarrow> string \<Rightarrow> bool \<times> string" where
  "str_loop cap out [] = (True, out)"
| "str_loop cap out (c # cs) =
     (if c \<noteq> BACKSLASH
      then case emit_all cap out [c] of
             (False, out') \<Rightarrow> (False, out')
           | (True, out') \<Rightarrow> str_loop cap out' cs
      else case cs of
        [] \<Rightarrow> (False, out)
      | esc # cs' \<Rightarrow>
          if esc = CHR ''u''
          then if length cs' < 4 then (False, out)
               else (case hex_code 0 (take 4 cs') of
                       None \<Rightarrow> (False, out)
                     | Some code \<Rightarrow>
                         (case emit_all cap out (utf8_bytes (surrogate_to_question code)) of
                            (False, out') \<Rightarrow> (False, out')
                          | (True, out') \<Rightarrow> str_loop cap out' (drop 4 cs')))
          else (case emit_all cap out [simple_unescape esc] of
                  (False, out') \<Rightarrow> (False, out')
                | (True, out') \<Rightarrow> str_loop cap out' cs'))"
  by pat_completeness auto
termination
  by (relation "measure (\<lambda>(cap, out, inp). length inp)") auto

definition str_at :: "sc_json_reader \<Rightarrow> int \<Rightarrow> nat \<Rightarrow> bool \<times> string" where
  "str_at r tok cap =
     (if \<not> tok_valid r tok \<or> tk_type (tok_at r tok) \<noteq> JSMN_STRING \<or> cap < 1 then (False, [])
      else str_loop cap [] (tok_text r (tok_at r tok)))"

text \<open>The caller's buffer after \<open>str_at\<close>: the final NUL is stored on success only.\<close>

definition write_out :: "string \<Rightarrow> bool \<times> string \<Rightarrow> string" where
  "write_out buf res = memcpy buf 0 (if fst res then snd res @ [NUL] else snd res)"

definition get_str :: "sc_json_reader \<Rightarrow> int \<Rightarrow> string \<Rightarrow> nat \<Rightarrow> bool \<times> string" where
  "get_str r object key cap = str_at r (find r object key) cap"

subsection \<open>Integers and booleans\<close>

text \<open>
  C's \<open>strtoll(s, &end, 10)\<close> on the C string \<open>s\<close>: the value, the number of characters up to
  \<open>end\<close> and whether \<open>errno\<close> becomes \<open>ERANGE\<close>.
\<close>

definition is_digit :: "char \<Rightarrow> bool" where
  "is_digit c \<longleftrightarrow> 48 \<le> byte c \<and> byte c \<le> 57"

definition is_space :: "char \<Rightarrow> bool" where
  "is_space c \<longleftrightarrow> c = CHR 0x20 \<or> (9 \<le> byte c \<and> byte c \<le> 13)"

definition dec_val :: "string \<Rightarrow> int" where
  "dec_val ds = foldl (\<lambda>v d. v * 10 + (of_char d - 48)) 0 ds"

abbreviation LLONG_MIN :: int where "LLONG_MIN \<equiv> - (2 ^ 63)"
abbreviation LLONG_MAX :: int where "LLONG_MAX \<equiv> 2 ^ 63 - 1"

definition strtoll10 :: "string \<Rightarrow> int \<times> nat \<times> bool" where
  "strtoll10 s =
     (let ws = takeWhile is_space s;
          s1 = drop (length ws) s;
          sign = (if s1 \<noteq> [] \<and> (hd s1 = CHR ''-'' \<or> hd s1 = CHR ''+'') then 1 else 0);
          ds = takeWhile is_digit (drop sign s1);
          v = (if s1 \<noteq> [] \<and> hd s1 = CHR ''-'' then - dec_val ds else dec_val ds)
      in if ds = [] then (0, 0, False)
         else (max LLONG_MIN (min LLONG_MAX v), length ws + sign + length ds,
               v < LLONG_MIN \<or> v > LLONG_MAX))"

definition int_at :: "sc_json_reader \<Rightarrow> int \<Rightarrow> int option" where
  "int_at r tok =
     (case raw r tok of
        None \<Rightarrow> None
      | Some text \<Rightarrow>
          if tk_type (tok_at r tok) \<noteq> JSMN_PRIMITIVE \<or> length text = 0 \<or> length text > 20
          then None
          else let number = memcpy (replicate 24 NUL) 0 text;
                   (v, end', erange) = strtoll10 (cstr number)
               in if end' = 0 \<or> number ! end' \<noteq> NUL \<or> erange then None else Some v)"

definition get_int :: "sc_json_reader \<Rightarrow> int \<Rightarrow> string \<Rightarrow> int option" where
  "get_int r object key = int_at r (find r object key)"

definition get_bool :: "sc_json_reader \<Rightarrow> int \<Rightarrow> string \<Rightarrow> bool option" where
  "get_bool r object key =
     (let tok = find r object key in
      case raw r tok of
        None \<Rightarrow> None
      | Some text \<Rightarrow>
          if tk_type (tok_at r tok) \<noteq> JSMN_PRIMITIVE then None
          else if text = ''true'' then Some True
          else if text = ''false'' then Some False
          else None)"

subsection \<open>Every access stays inside the document\<close>

text \<open>What holds of a reader after a successful \<open>parse\<close>.\<close>

definition reader_ok :: "sc_json_reader \<Rightarrow> bool" where
  "reader_ok r \<longleftrightarrow>
     rd_count r = length (rd_tokens r) \<and> rd_count r \<le> rd_max_tokens r \<and> is_object r 0 \<and>
     (\<forall>t \<in> set (rd_tokens r). tok_within (length (rd_json r)) t)"

lemma reader_parse_ok:
  assumes "reader_parse js r = (ESP_OK, r')"
  shows "reader_ok r' \<and> rd_json r' = js \<and> rd_max_tokens r' = rd_max_tokens r"
proof (cases "jsmn_parse js (rd_max_tokens r)")
  case (Inl e)
  with assms show ?thesis by (cases e) (simp_all add: reader_parse_def Let_def)
next
  case (Inr res)
  then obtain ret toks where parse: "jsmn_parse js (rd_max_tokens r) = Inr (ret, toks)"
    by (cases res) simp
  with assms have "\<not> ret < 1" "tk_type (toks ! 0) = JSMN_OBJECT"
    and "r' = r\<lparr>rd_json := js, rd_tokens := toks, rd_count := ret\<rparr>"
    by (simp_all add: reader_parse_def Let_def split: if_split_asm)
  with jsmn_parse_tokens [OF parse] show ?thesis
    by (simp add: reader_ok_def is_object_def tok_valid_def)
qed

lemma reader_parse_error:
  "reader_parse js r = (e, r') \<Longrightarrow> e \<noteq> ESP_OK \<Longrightarrow>
    e \<in> {ESP_ERR_NO_MEM, ESP_ERR_INVALID_ARG} \<and> rd_count r' = 0"
  by (auto simp: reader_parse_def Let_def split: sum.splits jsmnerr.splits if_split_asm)

lemma skip_loop_ge: "idx \<le> skip_loop r pending idx"
proof (induction r pending idx rule: skip_loop.induct)
  case (1 r pending idx)
  then show ?case by (auto simp: skip_loop.simps [of r pending idx])
qed

lemma skip_bounds [bounds_intros]: "skip r tok = -1 \<or> (tok < skip r tok \<and> tok_valid r (skip r tok))"
proof (cases "tok_valid r tok")
  case False
  then show ?thesis by (simp add: skip_def)
next
  case True
  then have "nat tok < rd_count r" by (auto simp: tok_valid_def)
  then have "skip_loop r 1 (nat tok) = skip_loop r (tk_size (rd_tokens r ! nat tok)) (Suc (nat tok))"
    by (simp add: skip_loop.simps [of r 1])
  then have "nat tok < skip_loop r 1 (nat tok)"
    using skip_loop_ge [of "Suc (nat tok)" r] by (simp add: Suc_le_eq)
  with True show ?thesis by (auto simp: skip_def tok_valid_def Let_def)
qed

lemma find_loop_missing [simp]: "find_loop r key n idx (-1) = -1"
  by (simp add: find_loop.simps [of r key n idx])

lemma find_loop_Some:
  "find_loop r key n idx member = i \<Longrightarrow> i \<noteq> -1 \<Longrightarrow>
    member < i \<and> tok_valid r i \<and> key_equals r (i - 1) key \<and> tk_size (tok_at r (i - 1)) = 1"
proof (induction r key n idx member rule: find_loop.induct)
  case (1 r key n idx member)
  have guard: "idx < n \<and> member \<ge> 0 \<and> member + 1 < int (rd_count r)"
    and size: "tk_size (tok_at r member) = 1"
    using "1.prems" by (auto simp: find_loop.simps [of r key n idx member] split: if_split_asm)
  show ?case
  proof (cases "key_equals r member key")
    case True
    with guard size "1.prems"(1) have "i = member + 1"
      by (simp add: find_loop.simps [of r key n idx member])
    with guard size True show ?thesis by (simp add: tok_valid_def)
  next
    case False
    with guard size "1.prems"(1) have rest: "find_loop r key n (idx + 1) (skip r (member + 1)) = i"
      by (simp add: find_loop.simps [of r key n idx member])
    with "1.prems"(2) have "skip r (member + 1) \<noteq> -1" by auto
    then have "member < skip r (member + 1)" using skip_bounds [of r "member + 1"] by auto
    with "1.IH" [OF guard _ False rest "1.prems"(2)] size show ?thesis by auto
  qed
qed

lemma find_Some:
  assumes "find r obj key = i" and "i \<noteq> -1"
  shows "is_object r obj \<and> obj + 1 < i \<and> tok_valid r i \<and> key_equals r (i - 1) key \<and>
    tk_size (tok_at r (i - 1)) = 1"
proof -
  from assms have "is_object r obj"
    and loop: "find_loop r key (tk_size (tok_at r obj)) 0 (obj + 1) = i"
    by (auto simp: find_def split: if_split_asm)
  with find_loop_Some [OF loop assms(2)] show ?thesis by blast
qed

lemma find_range [bounds_intros]: "find r obj key = -1 \<or> tok_valid r (find r obj key)"
  using find_Some [of r obj key] by blast

lemma raw_within:
  assumes "reader_ok r" and "raw r tok = Some t"
  shows "\<exists>a b. a \<le> b \<and> b \<le> length (rd_json r) \<and> t = slice (rd_json r) a b"
proof -
  from assms have v: "tok_valid r tok" and t: "t = tok_text r (tok_at r tok)"
    by (auto simp: raw_def split: if_split_asm)
  then have "tok_at r tok \<in> set (rd_tokens r)"
    using assms(1) by (auto simp: reader_ok_def tok_valid_def intro!: nth_mem)
  with assms(1) have "tok_within (length (rd_json r)) (tok_at r tok)"
    by (simp add: reader_ok_def)
  with t show ?thesis
    by (intro exI [of _ "nat (tk_start (tok_at r tok))"] exI [of _ "nat (tk_end (tok_at r tok))"])
      (auto simp: tok_text_def tok_within_def)
qed

subsection \<open>Output buffers are never overrun\<close>

lemma emit_all_bound:
  "emit_all cap out xs = (ok, out') \<Longrightarrow> length out < cap \<Longrightarrow> length out' < cap"
  by (induction cap out xs rule: emit_all.induct) (auto split: if_split_asm)

lemma emit_all_prefix:
  "emit_all cap out xs = (ok, out') \<Longrightarrow> (ok \<longrightarrow> out' = out @ xs) \<and> (\<exists>ys. out' = out @ ys)"
  by (induction cap out xs rule: emit_all.induct) (auto split: if_split_asm)

lemma emit_all_fits:
  "length out + length xs < cap \<Longrightarrow> emit_all cap out xs = (True, out @ xs)"
  by (induction cap out xs rule: emit_all.induct) auto

lemma emit_all_overflow:
  "length out < cap \<Longrightarrow> length out + length xs \<ge> cap \<Longrightarrow> fst (emit_all cap out xs) = False"
  by (induction cap out xs rule: emit_all.induct) auto

lemma str_loop_bound:
  "str_loop cap out inp = (ok, out') \<Longrightarrow> length out < cap \<Longrightarrow> length out' < cap"
proof (induction cap out inp rule: str_loop.induct)
  case (2 cap out c cs)
  show ?case
  proof (cases "c = BACKSLASH")
    case False
    then show ?thesis using "2.prems" "2.IH"(1) [OF False]
      by (auto split: if_split_asm)
  next
    case True
    show ?thesis
    proof (cases cs)
      case Nil
      with True "2.prems" show ?thesis by simp
    next
      case (Cons esc cs')
      with True "2.prems" "2.IH"(2,3) [OF _ Cons] show ?thesis
        by (fastforce split: if_split_asm option.splits prod.splits bool.splits
            dest: emit_all_bound)
    qed
  qed
qed simp

lemma str_at_bound: "str_at r tok cap = (ok, s) \<Longrightarrow> 0 < cap \<Longrightarrow> length s < cap"
  by (auto simp: str_at_def dest: str_loop_bound split: if_split_asm)

lemma get_str_length: "length (snd (get_str r obj key cap)) \<le> cap - 1"
proof (cases "cap = 0")
  case False
  then show ?thesis
    using str_at_bound [of r "find r obj key" cap "fst (get_str r obj key cap)" "snd (get_str r obj key cap)"]
    by (simp add: get_str_def)
qed (simp add: get_str_def str_at_def)

lemma str_at_fail_cap: "str_at r tok 0 = (False, [])"
  by (simp add: str_at_def)

subsection \<open>Integers\<close>

lemma strtoll10_range: "strtoll10 s = (v, e, False) \<Longrightarrow> LLONG_MIN \<le> v \<and> v \<le> LLONG_MAX"
  by (auto simp: strtoll10_def Let_def split: if_split_asm)

lemma strtoll10_end: "strtoll10 s = (v, e, er) \<Longrightarrow> e \<le> length s"
proof -
  assume a: "strtoll10 s = (v, e, er)"
  define s1 where "s1 = drop (length (takeWhile is_space s)) s"
  define sg :: nat where "sg = (if s1 \<noteq> [] \<and> (hd s1 = CHR ''-'' \<or> hd s1 = CHR ''+'') then 1 else 0)"
  have "length (takeWhile is_digit (drop sg s1)) \<le> length s1 - sg"
    using length_takeWhile_le [of is_digit "drop sg s1"] by simp
  moreover have "sg \<le> length s1" by (cases s1) (simp_all add: sg_def)
  moreover have "length (takeWhile is_space s) + length s1 = length s"
    by (simp add: s1_def length_takeWhile_le)
  ultimately show ?thesis
    using a by (auto simp: strtoll10_def Let_def simp flip: s1_def sg_def split: if_split_asm)
qed

subsection \<open>Properties\<close>

text \<open>
  C36: The reader is safe on every document it accepted, at every token index a caller may pass:
  \<open>find\<close> answers -1 or the index of a value inside the token array whose key is the wanted one,
  \<open>skip\<close> only moves forward, \<open>raw\<close> stays inside the document, and no string getter emits more than
  the caller's buffer can hold with its NUL.
\<close>

theorem reader_in_bounds:
  assumes "reader_parse js r = (ESP_OK, r')"
  shows "(find r' obj key = -1 \<or>
      (obj < find r' obj key \<and> tok_valid r' (find r' obj key) \<and> key_equals r' (find r' obj key - 1) key)) \<and>
    (skip r' tok = -1 \<or> (tok < skip r' tok \<and> tok_valid r' (skip r' tok))) \<and>
    (raw r' tok = Some t \<longrightarrow> (\<exists>a b. a \<le> b \<and> b \<le> length js \<and> t = slice js a b)) \<and>
    length (snd (get_str r' obj key cap)) \<le> cap - 1 \<and> rd_count r' \<le> rd_max_tokens r"
proof -
  from reader_parse_ok [OF assms] have ok: "reader_ok r'" and js: "rd_json r' = js"
    and mx: "rd_max_tokens r' = rd_max_tokens r" by simp_all
  have "rd_count r' \<le> rd_max_tokens r" using ok mx by (simp add: reader_ok_def)
  with find_Some [of r' obj key "find r' obj key"] skip_bounds [of r' tok] raw_within [OF ok, of tok t]
    get_str_length [of r' obj key cap] js
  show ?thesis by auto
qed

theorem reader_in_bounds_witness:
  "\<exists>r'. reader_parse ''{ }'' (sc_json_doc 4) = (ESP_OK, r') \<and> rd_count r' \<le> 4 \<and>
    length (snd (get_str r' 0 ''a'' 8)) \<le> 7"
proof -
  have p: "reader_parse ''{ }'' (sc_json_doc 4) = (ESP_OK,
      \<lparr>rd_tokens = [\<lparr>tk_type = JSMN_OBJECT, tk_start = 0, tk_end = 3, tk_size = 0\<rparr>], rd_max_tokens = 4,
       rd_count = 1, rd_json = ''{ }''\<rparr>)"
    by code_simp
  from p reader_in_bounds [OF p, of 0 "''a''" 0 "[]" 8] show ?thesis by (auto simp: sc_json_doc_def)
qed

text \<open>
  \<open>int_at\<close> takes a token as a number only as a whole: what it returns is a 64-bit value, the
  token is a primitive of at most 20 characters, and the decimal conversion consumed all of it up
  to the terminating NUL.
\<close>

lemma int_at_whole:
  assumes "int_at r tok = Some v"
  shows "\<exists>x. raw r tok = Some x \<and> tk_type (tok_at r tok) = JSMN_PRIMITIVE \<and> 0 < length x \<and> length x \<le> 20 \<and>
    strtoll10 (cstr x) = (v, length (cstr x), False) \<and> LLONG_MIN \<le> v \<and> v \<le> LLONG_MAX"
proof -
  from assms obtain x where raw: "raw r tok = Some x" by (cases "raw r tok") (simp_all add: int_at_def)
  let ?number = "memcpy (replicate 24 NUL) 0 x"
  from assms raw have ty: "tk_type (tok_at r tok) = JSMN_PRIMITIVE" and len: "0 < length x" "length x \<le> 20"
    by (auto simp: int_at_def split: if_split_asm)
  obtain w e er where st: "strtoll10 (cstr ?number) = (w, e, er)" by (metis prod_cases3)
  with assms raw ty len have "w = v" "\<not> er" "e \<noteq> 0" and nul: "?number ! e = NUL"
    by (auto simp: int_at_def split: if_split_asm)
  have num: "?number = x @ replicate (24 - length x) NUL" by (simp add: memcpy_def)
  have c: "cstr ?number = cstr x"
  proof (cases "NUL \<in> set x")
    case True
    then show ?thesis unfolding num cstr_def by (intro takeWhile_append1) auto
  next
    case False
    have "24 - length x = Suc (23 - length x)" using len by linarith
    with False show ?thesis unfolding num by (simp add: cstr_no_nul)
  qed
  have "e \<le> length (cstr ?number)" using strtoll10_end [OF st] .
  moreover have "\<not> e < length (cstr ?number)" using cstr_nth [of e ?number] nul by blast
  ultimately have "e = length (cstr x)" using c by simp
  with st c \<open>w = v\<close> \<open>\<not> er\<close> have st': "strtoll10 (cstr x) = (v, length (cstr x), False)" by simp
  show ?thesis
    by (intro exI [of _ x] conjI) (fact raw ty len st' strtoll10_range [OF st', THEN conjunct1]
      strtoll10_range [OF st', THEN conjunct2])+
qed

lemma int_at_sample:
  "\<exists>r x. int_at r 2 = Some (-42) \<and> raw r 2 = Some x \<and> length x \<le> 20"
proof -
  let ?r = "snd (reader_parse [CHR ''{'', QUOTE, CHR ''n'', QUOTE, CHR '':'', CHR ''-'', CHR ''4'', CHR ''2'', CHR ''}''] (sc_json_doc 4))"
  have i: "int_at ?r 2 = Some (-42)" by code_simp
  from i int_at_whole [OF i] show ?thesis by blast
qed

end
