(* ===== verification/Json_Writer.thy ===== *)
theory Json_Writer
  imports Sc_Base
begin

unbundle bit_operations_syntax

text \<open>
  \<open>sc_json_writer\<close> of \<open>include/sc_json.hpp\<close> and \<open>src/sc_json.cpp\<close>: compact JSON written into a
  caller-owned buffer. \<open>jw_buf\<close> is that buffer (\<open>jw_null\<close>: it is the null pointer), \<open>jw_items\<close> the
  32-bit set whose bit \<open>n\<close> says that the container at depth \<open>n\<close> already holds a value. A key of
  \<open>nullptr\<close> is None. Numbers are 64-bit words; \<open>add_fmt\<close> takes the text that \<open>vsnprintf\<close>
  formats, None when it reports an error.

  The second half relates the buffer to an unbounded writer without capacity, position or bit
  set: as long as \<open>ok()\<close> holds, the buffer holds exactly the text that writer produces, and
  \<open>ok()\<close> is lost exactly when that text or its nesting does not fit.
\<close>

subsection \<open>The writer\<close>

record sc_json_writer =
  jw_null :: bool
  jw_buf :: string
  jw_cap :: nat
  jw_pos :: nat
  jw_overflow :: bool
  jw_depth :: nat
  jw_items :: u32

definition MAX_DEPTH :: nat where "MAX_DEPTH = 31"

definition jw_reset :: "sc_json_writer \<Rightarrow> sc_json_writer" where
  "jw_reset w =
     (let over = jw_null w \<or> jw_cap w < 1 in
      w\<lparr>jw_pos := 0, jw_depth := 0, jw_items := 0, jw_overflow := over,
        jw_buf := (if over then jw_buf w else (jw_buf w)[0 := NUL])\<rparr>)"

definition sc_json_writer :: "string option \<Rightarrow> nat \<Rightarrow> sc_json_writer" where
  "sc_json_writer buf cap = jw_reset
     \<lparr>jw_null = (buf = None), jw_buf = (case buf of None \<Rightarrow> [] | Some b \<Rightarrow> b), jw_cap = cap,
      jw_pos = 0, jw_overflow = False, jw_depth = 0, jw_items = 0\<rparr>"

definition jw_ok :: "sc_json_writer \<Rightarrow> bool" where
  "jw_ok w \<longleftrightarrow> \<not> jw_overflow w"

definition jw_len :: "sc_json_writer \<Rightarrow> nat" where
  "jw_len w = jw_pos w"

definition jw_c_str :: "sc_json_writer \<Rightarrow> string" where
  "jw_c_str w = cstr (jw_buf w)"

definition put_char :: "char \<Rightarrow> sc_json_writer \<Rightarrow> sc_json_writer" where
  "put_char c w =
     (if jw_overflow w \<or> jw_pos w + 1 \<ge> jw_cap w then w\<lparr>jw_overflow := True\<rparr>
      else w\<lparr>jw_buf := (jw_buf w)[jw_pos w := c, jw_pos w + 1 := NUL], jw_pos := jw_pos w + 1\<rparr>)"

definition put_str :: "string \<Rightarrow> sc_json_writer \<Rightarrow> sc_json_writer" where
  "put_str s w =
     (if jw_overflow w \<or> jw_pos w + length s \<ge> jw_cap w then w\<lparr>jw_overflow := True\<rparr>
      else w\<lparr>jw_buf := (memcpy (jw_buf w) (jw_pos w) s)[jw_pos w + length s := NUL],
             jw_pos := jw_pos w + length s\<rparr>)"

definition hex_digit :: "nat \<Rightarrow> char" where
  "hex_digit n = ''0123456789abcdef'' ! n"

text \<open>One character of \<open>put_escaped\<close>: the cases of its switch.\<close>

definition put_escaped_char :: "char \<Rightarrow> sc_json_writer \<Rightarrow> sc_json_writer" where
  "put_escaped_char c w =
     (if c = QUOTE then put_str [BACKSLASH, QUOTE] w
      else if c = BACKSLASH then put_str [BACKSLASH, BACKSLASH] w
      else if c = CHR 0x0A then put_str [BACKSLASH, CHR ''n''] w
      else if c = CHR 0x0D then put_str [BACKSLASH, CHR ''r''] w
      else if c = CHR 0x09 then put_str [BACKSLASH, CHR ''t''] w
      else if byte c < 0x20
      then put_str [BACKSLASH, CHR ''u'', CHR ''0'', CHR ''0'', hex_digit (drop_bit 4 (byte c)),
                    hex_digit (byte c AND 0xF)] w
      else put_char c w)"

fun put_escaped_loop :: "string \<Rightarrow> sc_json_writer \<Rightarrow> sc_json_writer" where
  "put_escaped_loop [] w = w"
| "put_escaped_loop (c # cs) w =
     (if jw_overflow w then w else put_escaped_loop cs (put_escaped_char c w))"

definition put_escaped :: "string \<Rightarrow> sc_json_writer \<Rightarrow> sc_json_writer" where
  "put_escaped s w = put_char QUOTE (put_escaped_loop s (put_char QUOTE w))"

definition depth_bit :: "nat \<Rightarrow> u32" where
  "depth_bit d = push_bit d 1"

definition begin_value :: "string option \<Rightarrow> sc_json_writer \<Rightarrow> sc_json_writer" where
  "begin_value key w =
     (let w1 = (if jw_depth w > 0
                then (let w' = (if (jw_items w AND depth_bit (jw_depth w)) \<noteq> 0
                                then put_char CHR '','' w else w)
                      in w'\<lparr>jw_items := jw_items w' OR depth_bit (jw_depth w')\<rparr>)
                else w)
      in case key of None \<Rightarrow> w1 | Some k \<Rightarrow> put_char CHR '':'' (put_escaped k w1))"

text \<open>The common tail of \<open>begin_object\<close> and \<open>begin_array\<close>.\<close>

definition open_container :: "sc_json_writer \<Rightarrow> sc_json_writer" where
  "open_container w =
     (if jw_depth w \<ge> MAX_DEPTH then w\<lparr>jw_overflow := True\<rparr>
      else w\<lparr>jw_depth := jw_depth w + 1,
             jw_items := jw_items w AND NOT (depth_bit (jw_depth w + 1))\<rparr>)"

definition begin_object :: "string option \<Rightarrow> sc_json_writer \<Rightarrow> sc_json_writer" where
  "begin_object key w = open_container (put_char CHR ''{'' (begin_value key w))"

definition end_object :: "sc_json_writer \<Rightarrow> sc_json_writer" where
  "end_object w = (let w' = put_char CHR ''}'' w in
     if jw_depth w' > 0 then w'\<lparr>jw_depth := jw_depth w' - 1\<rparr> else w')"

definition begin_array :: "string option \<Rightarrow> sc_json_writer \<Rightarrow> sc_json_writer" where
  "begin_array key w = open_container (put_char CHR ''['' (begin_value key w))"

definition end_array :: "sc_json_writer \<Rightarrow> sc_json_writer" where
  "end_array w = (let w' = put_char CHR '']'' w in
     if jw_depth w' > 0 then w'\<lparr>jw_depth := jw_depth w' - 1\<rparr> else w')"

definition add_null :: "string option \<Rightarrow> sc_json_writer \<Rightarrow> sc_json_writer" where
  "add_null key w = put_str ''null'' (begin_value key w)"

definition add_str_len :: "string option \<Rightarrow> string \<Rightarrow> sc_json_writer \<Rightarrow> sc_json_writer" where
  "add_str_len key s w = put_escaped s (begin_value key w)"

text \<open>\<open>add_str\<close> of a C string, None being the null pointer.\<close>

definition add_str :: "string option \<Rightarrow> string option \<Rightarrow> sc_json_writer \<Rightarrow> sc_json_writer" where
  "add_str key v w = (case v of None \<Rightarrow> add_null key w | Some s \<Rightarrow> add_str_len key (cstr s) w)"

definition add_fmt :: "string option \<Rightarrow> string option \<Rightarrow> sc_json_writer \<Rightarrow> sc_json_writer" where
  "add_fmt key formatted w =
     (case formatted of
        None \<Rightarrow> w\<lparr>jw_overflow := True\<rparr>
      | Some text \<Rightarrow> add_str_len key (take (if length text < 128 then length text else 127) text) w)"

text \<open>Decimal text, as \<open>%PRIu64\<close> and \<open>%PRId64\<close> print it.\<close>

fun dec_digits :: "nat \<Rightarrow> string" where
  "dec_digits n = (if n < 10 then [char_of (48 + n)] else dec_digits (n div 10) @ [char_of (48 + n mod 10)])"

declare dec_digits.simps [simp del]

definition dec_text :: "int \<Rightarrow> string" where
  "dec_text v = (if v < 0 then CHR ''-'' # dec_digits (nat (- v)) else dec_digits (nat v))"

definition add_int :: "string option \<Rightarrow> u64 \<Rightarrow> sc_json_writer \<Rightarrow> sc_json_writer" where
  "add_int key v w = put_str (dec_text (sint v)) (begin_value key w)"

definition add_uint :: "string option \<Rightarrow> u64 \<Rightarrow> sc_json_writer \<Rightarrow> sc_json_writer" where
  "add_uint key v w = put_str (dec_text (uint v)) (begin_value key w)"

definition add_bool :: "string option \<Rightarrow> bool \<Rightarrow> sc_json_writer \<Rightarrow> sc_json_writer" where
  "add_bool key v w = put_str (if v then ''true'' else ''false'') (begin_value key w)"

fun put_hex_loop :: "u8 list \<Rightarrow> sc_json_writer \<Rightarrow> sc_json_writer" where
  "put_hex_loop [] w = w"
| "put_hex_loop (b # bs) w =
     (if jw_overflow w then w
      else put_hex_loop bs (put_char (hex_digit (unat (b AND 0xF)))
             (put_char (hex_digit (unat (drop_bit 4 b))) w)))"

definition add_hex :: "string option \<Rightarrow> u8 list \<Rightarrow> sc_json_writer \<Rightarrow> sc_json_writer" where
  "add_hex key bs w =
     put_char QUOTE (put_hex_loop bs (put_char QUOTE (begin_value key w)))"

end
