(* ===== verification/Json_Text.thy ===== *)
theory Json_Text
  imports Json_Writer
begin

text \<open>
  What the writer promises. \<open>json\<close> values and their compact text \<open>render\<close>; an unbounded writer
  \<open>text_writer\<close> with a stack of containers in place of \<open>sc_json_writer\<close>'s buffer, position, depth
  counter and bit set; and the simulation \<open>writes\<close> between the two, kept by every operation.
\<close>

subsection \<open>JSON values and their text\<close>

datatype json =
    JNull
  | JBool bool
  | JInt int
  | JStr string
  | JArr "json list"
  | JObj "(string \<times> json) list"

definition escape_char :: "char \<Rightarrow> string" where
  "escape_char c =
     (if c = QUOTE then [BACKSLASH, QUOTE]
      else if c = BACKSLASH then [BACKSLASH, BACKSLASH]
      else if c = CHR 0x0A then [BACKSLASH, CHR ''n'']
      else if c = CHR 0x0D then [BACKSLASH, CHR ''r'']
      else if c = CHR 0x09 then [BACKSLASH, CHR ''t'']
      else if byte c < 0x20
      then [BACKSLASH, CHR ''u'', CHR ''0'', CHR ''0'', hex_digit (drop_bit 4 (byte c)),
            hex_digit (byte c AND 0xF)]
      else [c])"

definition escape :: "string \<Rightarrow> string" where
  "escape s = concat (map escape_char s)"

definition quoted :: "string \<Rightarrow> string" where
  "quoted s = QUOTE # escape s @ [QUOTE]"

fun commas :: "string list \<Rightarrow> string" where
  "commas [] = []"
| "commas [x] = x"
| "commas (x # y # xs) = x @ CHR '','' # commas (y # xs)"

fun render :: "json \<Rightarrow> string" where
  "render JNull = ''null''"
| "render (JBool b) = (if b then ''true'' else ''false'')"
| "render (JInt i) = dec_text i"
| "render (JStr s) = quoted s"
| "render (JArr vs) = CHR ''['' # commas (map render vs) @ '']''"
| "render (JObj ms) = CHR ''{'' # commas (map (\<lambda>(k, v). quoted k @ CHR '':'' # render v) ms) @ ''}''"

text \<open>How many containers are nested in a value.\<close>

fun nesting :: "json \<Rightarrow> nat" where
  "nesting (JArr vs) = Suc (foldr max (map nesting vs) 0)"
| "nesting (JObj ms) = Suc (foldr max (map (\<lambda>(k, v). nesting v) ms) 0)"
| "nesting _ = 0"

definition hex_text :: "u8 list \<Rightarrow> string" where
  "hex_text bs = concat (map (\<lambda>b. [hex_digit (unat (drop_bit 4 b)), hex_digit (unat (b AND 0xF))]) bs)"

lemma escape_Nil [simp]: "escape [] = []"
  and escape_Cons [simp]: "escape (c # cs) = escape_char c @ escape cs"
  by (simp_all add: escape_def)

lemma escape_append [simp]: "escape (s @ t) = escape s @ escape t"
  by (simp add: escape_def)

subsection \<open>The unbounded writer\<close>

text \<open>
  \<open>tw_stack\<close> has one entry per open container, innermost first: whether it already holds a value.
  \<open>tw_bad\<close> says that a container was opened below the deepest level, or a format failed.
\<close>

record text_writer =
  tw_text :: string
  tw_stack :: "bool list"
  tw_bad :: bool

definition tw_init :: text_writer where
  "tw_init = \<lparr>tw_text = [], tw_stack = [], tw_bad = False\<rparr>"

definition tw_put :: "string \<Rightarrow> text_writer \<Rightarrow> text_writer" where
  "tw_put s a = a\<lparr>tw_text := tw_text a @ s\<rparr>"

definition key_text :: "string option \<Rightarrow> string" where
  "key_text key = (case key of None \<Rightarrow> [] | Some k \<Rightarrow> quoted k @ '':'')"

definition tw_value :: "string option \<Rightarrow> text_writer \<Rightarrow> text_writer" where
  "tw_value key a =
     (case tw_stack a of
        [] \<Rightarrow> tw_put (key_text key) a
      | b # bs \<Rightarrow> tw_put ((if b then '','' else []) @ key_text key) (a\<lparr>tw_stack := True # bs\<rparr>))"

definition tw_open :: "string option \<Rightarrow> string \<Rightarrow> text_writer \<Rightarrow> text_writer" where
  "tw_open key br a =
     (let a' = tw_put br (tw_value key a) in
      if length (tw_stack a') \<ge> MAX_DEPTH then a'\<lparr>tw_bad := True\<rparr>
      else a'\<lparr>tw_stack := False # tw_stack a'\<rparr>)"

definition tw_close :: "string \<Rightarrow> text_writer \<Rightarrow> text_writer" where
  "tw_close br a = (let a' = tw_put br a in a'\<lparr>tw_stack := tl (tw_stack a')\<rparr>)"

definition tw_leaf :: "string option \<Rightarrow> string \<Rightarrow> text_writer \<Rightarrow> text_writer" where
  "tw_leaf key s a = tw_put s (tw_value key a)"

subsection \<open>The buffer's invariant and the simulation\<close>

text \<open>The text is NUL-terminated inside the buffer, whatever happened before.\<close>

definition jw_wf :: "sc_json_writer \<Rightarrow> bool" where
  "jw_wf w \<longleftrightarrow>
     \<not> jw_null w \<and> length (jw_buf w) = jw_cap w \<and> jw_pos w < jw_cap w \<and>
     jw_buf w ! jw_pos w = NUL \<and> jw_depth w \<le> MAX_DEPTH"

definition writes :: "sc_json_writer \<Rightarrow> text_writer \<Rightarrow> bool" where
  "writes w a \<longleftrightarrow>
     jw_wf w \<and> jw_depth w = length (tw_stack a) \<and>
     (\<forall>i < length (tw_stack a). bit (jw_items w) (length (tw_stack a) - i) = tw_stack a ! i) \<and>
     (jw_ok w \<longleftrightarrow> \<not> tw_bad a \<and> length (tw_text a) < jw_cap w) \<and>
     (jw_ok w \<longrightarrow> jw_pos w = length (tw_text a) \<and> take (jw_pos w) (jw_buf w) = tw_text a)"

lemma writes_init:
  assumes "length buf = cap" and "0 < cap"
  shows "writes (sc_json_writer (Some buf) cap) tw_init"
  using assms
  by (auto simp: writes_def jw_wf_def sc_json_writer_def jw_reset_def tw_init_def jw_ok_def Let_def)

lemma writes_reset:
  assumes "writes w a" shows "writes (jw_reset w) tw_init"
  using assms
  by (auto simp: writes_def jw_wf_def jw_reset_def tw_init_def jw_ok_def Let_def)

lemma writes_put_str:
  assumes "writes w a" shows "writes (put_str s w) (tw_put s a)"
proof (cases "jw_overflow w \<or> jw_pos w + length s \<ge> jw_cap w")
  case True
  with assms show ?thesis
    by (auto simp: writes_def jw_wf_def put_str_def tw_put_def jw_ok_def)
next
  case False
  with assms have len: "jw_pos w + length s \<le> length (jw_buf w)" and pos: "jw_pos w \<le> length (jw_buf w)"
    by (auto simp: writes_def jw_wf_def)
  then have "take (jw_pos w + length s) ((memcpy (jw_buf w) (jw_pos w) s)[jw_pos w + length s := NUL])
      = take (jw_pos w) (jw_buf w) @ s"
    by (simp add: take_memcpy)
  with False assms len show ?thesis
    by (auto simp: writes_def jw_wf_def put_str_def tw_put_def jw_ok_def)
qed

lemma put_char_put_str: "writes w a \<Longrightarrow> put_char c w = put_str [c] w"
proof (cases "jw_overflow w \<or> jw_pos w + 1 \<ge> jw_cap w")
  case False
  assume "writes w a"
  with False have "jw_pos w + 1 < length (jw_buf w)" by (auto simp: writes_def jw_wf_def)
  then have "memcpy (jw_buf w) (jw_pos w) [c] = (jw_buf w)[jw_pos w := c]"
    by (simp add: memcpy_def upd_conv_take_nth_drop)
  with False show ?thesis by (simp add: put_char_def put_str_def)
qed (simp add: put_char_def put_str_def)

lemma writes_put_char: "writes w a \<Longrightarrow> writes (put_char c w) (tw_put [c] a)"
  by (simp add: put_char_put_str writes_put_str)

lemma tw_put_put [simp]: "tw_put t (tw_put s a) = tw_put (s @ t) a"
  by (simp add: tw_put_def)

lemma tw_put_Nil [simp]: "tw_put [] a = a"
  by (simp add: tw_put_def)

lemma writes_escaped_char: "writes w a \<Longrightarrow> writes (put_escaped_char c w) (tw_put (escape_char c) a)"
  by (simp add: put_escaped_char_def escape_char_def writes_put_str writes_put_char)

text \<open>Once the writer has overflowed, more text changes nothing.\<close>

lemma writes_overflow_put: "writes w a \<Longrightarrow> jw_overflow w \<Longrightarrow> writes w (tw_put s a)"
  by (auto simp: writes_def tw_put_def jw_ok_def)

lemma writes_escaped_loop: "writes w a \<Longrightarrow> writes (put_escaped_loop s w) (tw_put (escape s) a)"
proof (induction s arbitrary: w a)
  case (Cons c s)
  show ?case
  proof (cases "jw_overflow w")
    case True
    with Cons.prems writes_overflow_put show ?thesis by simp
  next
    case False
    from Cons.IH [OF writes_escaped_char [OF Cons.prems]] False show ?thesis by simp
  qed
qed simp

lemma writes_escaped: "writes w a \<Longrightarrow> writes (put_escaped s w) (tw_put (quoted s) a)"
  using writes_put_char [OF writes_escaped_loop [OF writes_put_char]]
  by (fastforce simp: put_escaped_def quoted_def)

subsection \<open>The bit set of containers\<close>

lemma bit_depth_bit: "d < 32 \<Longrightarrow> bit (depth_bit d) n \<longleftrightarrow> n = d"
  by (auto simp: depth_bit_def bit_simps)

lemma items_bit_set: "d < 32 \<Longrightarrow> (items AND depth_bit d) \<noteq> 0 \<longleftrightarrow> bit items d"
  by (auto simp: bit_eq_iff [of "items AND depth_bit d" 0] bit_and_iff bit_depth_bit)

text \<open>What the stack and the bit set have to agree on.\<close>

definition items_match :: "u32 \<Rightarrow> bool list \<Rightarrow> bool" where
  "items_match items st \<longleftrightarrow>
     length st \<le> MAX_DEPTH \<and> (\<forall>i < length st. bit items (length st - i) = st ! i)"

lemma items_match_top: "items_match items (b # bs) \<Longrightarrow> bit items (length (b # bs)) = b"
  by (fastforce simp: items_match_def)

lemma items_match_mark:
  assumes "items_match items (b # bs)"
  shows "items_match (items OR depth_bit (length (b # bs))) (True # bs)"
proof -
  have "bit (items OR depth_bit (length (b # bs))) (length (True # bs) - i) = (True # bs) ! i"
    if "i < length (True # bs)" for i
  proof (cases i)
    case 0
    with assms show ?thesis by (simp add: bit_or_iff bit_depth_bit items_match_def MAX_DEPTH_def)
  next
    case (Suc j)
    with that have "bit items (length (b # bs) - i) = (b # bs) ! i"
      using assms by (auto simp: items_match_def)
    with Suc that assms show ?thesis
      by (auto simp: bit_or_iff bit_depth_bit items_match_def MAX_DEPTH_def)
  qed
  with assms show ?thesis by (auto simp: items_match_def)
qed

lemma items_match_open:
  assumes "items_match items st" and "length st < MAX_DEPTH"
  shows "items_match (items AND NOT (depth_bit (Suc (length st)))) (False # st)"
proof -
  have d: "Suc (length st) < 32" using assms(2) by (simp add: MAX_DEPTH_def)
  have "bit (items AND NOT (depth_bit (Suc (length st)))) (length (False # st) - i) = (False # st) ! i"
    if "i < length (False # st)" for i
  proof (cases i)
    case 0
    with d show ?thesis by (simp add: bit_and_iff bit_not_iff bit_depth_bit)
  next
    case (Suc j)
    with that assms(1) have "bit items (length st - j) = st ! j" by (auto simp: items_match_def)
    with Suc that d show ?thesis by (auto simp: bit_and_iff bit_not_iff bit_depth_bit)
  qed
  with assms(2) show ?thesis by (simp add: items_match_def)
qed

lemma items_match_close: "items_match items st \<Longrightarrow> items_match items (tl st)"
proof (cases st)
  case (Cons b bs)
  assume m: "items_match items st"
  have "bit items (length bs - i) = bs ! i" if "i < length bs" for i
    using m that Cons unfolding items_match_def by (metis Suc_less_eq diff_Suc_Suc length_Cons nth_Cons_Suc)
  with m Cons show ?thesis by (simp add: items_match_def)
qed simp

lemma writes_items: "writes w a \<Longrightarrow> items_match (jw_items w) (tw_stack a)"
  by (auto simp: writes_def items_match_def jw_wf_def)

text \<open>Changing only the stack, the depth and the bit set keeps the simulation.\<close>

lemma writes_restack:
  assumes "writes w a" and "items_match items st" and "d = length st"
  shows "writes (w\<lparr>jw_depth := d, jw_items := items\<rparr>) (a\<lparr>tw_stack := st\<rparr>)"
  using assms by (auto simp: writes_def items_match_def jw_wf_def jw_ok_def)

subsection \<open>Every operation is simulated\<close>

lemma put_str_frame [simp]:
  "jw_depth (put_str s w) = jw_depth w" "jw_items (put_str s w) = jw_items w"
  "jw_cap (put_str s w) = jw_cap w"
  by (simp_all add: put_str_def)

lemma put_char_frame [simp]:
  "jw_depth (put_char c w) = jw_depth w" "jw_items (put_char c w) = jw_items w"
  "jw_cap (put_char c w) = jw_cap w"
  by (simp_all add: put_char_def)

lemma writes_value:
  assumes "writes w a" shows "writes (begin_value key w) (tw_value key a)"
proof -
  define w1 where "w1 = (if jw_depth w > 0
      then (let w' = (if (jw_items w AND depth_bit (jw_depth w)) \<noteq> 0 then put_char CHR '','' w else w)
            in w'\<lparr>jw_items := jw_items w' OR depth_bit (jw_depth w')\<rparr>) else w)"
  define a1 where "a1 = (case tw_stack a of [] \<Rightarrow> a
      | b # bs \<Rightarrow> tw_put (if b then '','' else []) (a\<lparr>tw_stack := True # bs\<rparr>))"
  have key: "begin_value key w = (case key of None \<Rightarrow> w1 | Some k \<Rightarrow> put_char CHR '':'' (put_escaped k w1))"
    by (simp only: begin_value_def w1_def Let_def)
  have val: "tw_value key a = tw_put (key_text key) a1"
    by (simp add: tw_value_def a1_def split: list.splits)
  have "writes w1 a1"
  proof (cases "tw_stack a")
    case Nil
    with assms have "jw_depth w = 0" by (simp add: writes_def)
    with assms Nil show ?thesis by (simp add: w1_def a1_def)
  next
    case (Cons b bs)
    with assms have d: "jw_depth w = length (b # bs)" "jw_depth w < 32"
      by (auto simp: writes_def jw_wf_def MAX_DEPTH_def)
    have m: "items_match (jw_items w) (b # bs)" using writes_items [OF assms] Cons by simp
    have b: "(jw_items w AND depth_bit (jw_depth w)) \<noteq> 0 \<longleftrightarrow> b"
      using items_match_top [OF m] items_bit_set d by simp
    define w' where "w' = (if b then put_char CHR '','' w else w)"
    have w': "writes w' (tw_put (if b then '','' else []) a)" "jw_depth w' = jw_depth w"
      "jw_items w' = jw_items w"
      using assms by (auto simp: w'_def writes_put_char)
    have "w1 = w'\<lparr>jw_depth := length (True # bs), jw_items := jw_items w OR depth_bit (length (b # bs))\<rparr>"
      using d b w' by (simp add: w1_def w'_def Let_def)
    moreover have "a1 = (tw_put (if b then '','' else []) a)\<lparr>tw_stack := True # bs\<rparr>"
      using Cons by (simp add: a1_def tw_put_def)
    ultimately show ?thesis
      using writes_restack [OF w'(1) items_match_mark [OF m]] by simp
  qed
  then have "writes (put_char CHR '':'' (put_escaped k w1)) (tw_put (quoted k @ '':'') a1)" for k
    using writes_put_char [OF writes_escaped] by fastforce
  with \<open>writes w1 a1\<close> key val show ?thesis by (simp add: key_text_def split: option.splits)
qed

lemma writes_open:
  assumes "writes w a"
  shows "writes (open_container (put_char c (begin_value key w))) (tw_open key [c] a)"
proof -
  define w' where "w' = put_char c (begin_value key w)"
  define a' where "a' = tw_put [c] (tw_value key a)"
  have wa: "writes w' a'" using assms by (simp add: w'_def a'_def writes_put_char writes_value)
  then have d: "jw_depth w' = length (tw_stack a')" by (simp add: writes_def)
  show ?thesis
  proof (cases "length (tw_stack a') \<ge> MAX_DEPTH")
    case True
    with wa d show ?thesis
      by (auto simp: open_container_def tw_open_def Let_def writes_def jw_wf_def jw_ok_def
          simp flip: w'_def a'_def)
  next
    case False
    with writes_restack [OF wa items_match_open [OF writes_items [OF wa]]] d show ?thesis
      by (simp add: open_container_def tw_open_def Let_def flip: w'_def a'_def)
  qed
qed

lemma writes_close:
  assumes "writes w a"
  shows "writes (let w' = put_char c w in
    if jw_depth w' > 0 then w'\<lparr>jw_depth := jw_depth w' - 1\<rparr> else w') (tw_close [c] a)"
proof -
  let ?w = "let w' = put_char c w in if jw_depth w' > 0 then w'\<lparr>jw_depth := jw_depth w' - 1\<rparr> else w'"
  have wa: "writes (put_char c w) (tw_put [c] a)" using assms by (rule writes_put_char)
  have st: "jw_depth w - 1 = length (tl (tw_stack (tw_put [c] a)))"
    using assms by (simp add: writes_def tw_put_def)
  have eq: "?w = (put_char c w)\<lparr>jw_depth := jw_depth w - 1, jw_items := jw_items w\<rparr>"
    by (cases "jw_depth w") (simp_all add: Let_def put_char_def)
  have "items_match (jw_items w) (tl (tw_stack (tw_put [c] a)))"
    using items_match_close [OF writes_items [OF wa]] by simp
  from writes_restack [OF wa this st] have "writes ?w (tw_close [c] a)"
    unfolding eq by (simp only: tw_close_def Let_def)
  then show ?thesis .
qed

lemma writes_leaf: "writes w a \<Longrightarrow> writes (put_str s (begin_value key w)) (tw_leaf key s a)"
  by (simp add: tw_leaf_def writes_put_str writes_value)

lemma writes_str_len: "writes w a \<Longrightarrow> writes (add_str_len key s w) (tw_leaf key (quoted s) a)"
  by (simp add: add_str_len_def tw_leaf_def writes_escaped writes_value)

lemma writes_hex_loop: "writes w a \<Longrightarrow> writes (put_hex_loop bs w) (tw_put (hex_text bs) a)"
proof (induction bs arbitrary: w a)
  case Nil
  then show ?case by (simp add: hex_text_def)
next
  case (Cons b bs)
  show ?case
  proof (cases "jw_overflow w")
    case True
    with Cons.prems writes_overflow_put show ?thesis by simp
  next
    case False
    from Cons.IH [OF writes_put_char [OF writes_put_char [OF Cons.prems]]] False show ?thesis
      by (simp add: hex_text_def)
  qed
qed

lemma hex_digit_plain:
  assumes "n < 16" shows "escape_char (hex_digit n) = [hex_digit n]"
proof -
  have "\<forall>n \<in> set [0..<16]. escape_char (hex_digit n) = [hex_digit n]" by code_simp
  with assms show ?thesis by simp
qed

lemma high_nibble_less: "unat (drop_bit 4 (b :: u8)) < 16"
proof -
  have "unat (drop_bit 4 b) = drop_bit 4 (unat b)" by (rule unat_drop_bit_eq)
  also have "\<dots> = unat b div 16" by (simp add: drop_bit_eq_div)
  finally show ?thesis using unsigned_less [of b, where 'a = nat] by simp
qed

lemma low_nibble_less: "unat (b AND 15 :: u8) < 16"
proof -
  have "unat (b AND 15) \<le> unat (15 :: u8)"
    by (rule word_and_le1 [THEN word_le_nat_alt [THEN iffD1]])
  then show ?thesis by simp
qed

lemma escape_hex_text: "escape (hex_text bs) = hex_text bs"
  by (induction bs) (simp_all add: hex_text_def hex_digit_plain high_nibble_less low_nibble_less)

lemma writes_hex: "writes w a \<Longrightarrow> writes (add_hex key bs w) (tw_leaf key (quoted (hex_text bs)) a)"
  using writes_put_char [OF writes_hex_loop [OF writes_put_char [OF writes_value]]]
  by (fastforce simp: add_hex_def tw_leaf_def quoted_def escape_hex_text)

subsection \<open>Sequences of calls\<close>

text \<open>The writer's interface as data, to speak of every sequence of calls an application makes.\<close>

datatype jw_call =
    BeginObject "string option"
  | EndObject
  | BeginArray "string option"
  | EndArray
  | AddStr "string option" "string option"
  | AddStrLen "string option" string
  | AddFmt "string option" "string option"
  | AddInt "string option" u64
  | AddUint "string option" u64
  | AddBool "string option" bool
  | AddNull "string option"
  | AddHex "string option" "u8 list"

fun jw_do :: "jw_call \<Rightarrow> sc_json_writer \<Rightarrow> sc_json_writer" where
  "jw_do (BeginObject k) w = begin_object k w"
| "jw_do EndObject w = end_object w"
| "jw_do (BeginArray k) w = begin_array k w"
| "jw_do EndArray w = end_array w"
| "jw_do (AddStr k v) w = add_str k v w"
| "jw_do (AddStrLen k s) w = add_str_len k s w"
| "jw_do (AddFmt k t) w = add_fmt k t w"
| "jw_do (AddInt k v) w = add_int k v w"
| "jw_do (AddUint k v) w = add_uint k v w"
| "jw_do (AddBool k v) w = add_bool k v w"
| "jw_do (AddNull k) w = add_null k w"
| "jw_do (AddHex k bs) w = add_hex k bs w"

fun tw_do :: "jw_call \<Rightarrow> text_writer \<Rightarrow> text_writer" where
  "tw_do (BeginObject k) a = tw_open k ''{'' a"
| "tw_do EndObject a = tw_close ''}'' a"
| "tw_do (BeginArray k) a = tw_open k ''['' a"
| "tw_do EndArray a = tw_close '']'' a"
| "tw_do (AddStr k v) a = tw_leaf k (case v of None \<Rightarrow> ''null'' | Some s \<Rightarrow> quoted (cstr s)) a"
| "tw_do (AddStrLen k s) a = tw_leaf k (quoted s) a"
| "tw_do (AddFmt k t) a =
     (case t of None \<Rightarrow> a\<lparr>tw_bad := True\<rparr> | Some text \<Rightarrow> tw_leaf k (quoted (take 127 text)) a)"
| "tw_do (AddInt k v) a = tw_leaf k (dec_text (sint v)) a"
| "tw_do (AddUint k v) a = tw_leaf k (dec_text (uint v)) a"
| "tw_do (AddBool k v) a = tw_leaf k (if v then ''true'' else ''false'') a"
| "tw_do (AddNull k) a = tw_leaf k ''null'' a"
| "tw_do (AddHex k bs) a = tw_leaf k (quoted (hex_text bs)) a"

definition jw_run :: "jw_call list \<Rightarrow> sc_json_writer \<Rightarrow> sc_json_writer" where
  "jw_run cs w = fold jw_do cs w"

definition tw_run :: "jw_call list \<Rightarrow> text_writer \<Rightarrow> text_writer" where
  "tw_run cs a = fold tw_do cs a"

lemma add_fmt_text: "take (if length t < 128 then length t else 127) t = take 127 t"
  by simp

lemma writes_bad: "writes w a \<Longrightarrow> writes (w\<lparr>jw_overflow := True\<rparr>) (a\<lparr>tw_bad := True\<rparr>)"
  by (auto simp: writes_def jw_wf_def jw_ok_def)

lemma writes_begin_object: "writes w a \<Longrightarrow> writes (begin_object k w) (tw_open k ''{'' a)"
  unfolding begin_object_def by (rule writes_open)

lemma writes_begin_array: "writes w a \<Longrightarrow> writes (begin_array k w) (tw_open k ''['' a)"
  unfolding begin_array_def by (rule writes_open)

lemma writes_end_object: "writes w a \<Longrightarrow> writes (end_object w) (tw_close ''}'' a)"
  unfolding end_object_def by (rule writes_close)

lemma writes_end_array: "writes w a \<Longrightarrow> writes (end_array w) (tw_close '']'' a)"
  unfolding end_array_def by (rule writes_close)

lemmas writes_ops = writes_begin_object writes_begin_array writes_end_object writes_end_array
  writes_leaf writes_str_len writes_hex writes_bad

lemma writes_do: "writes w a \<Longrightarrow> writes (jw_do c w) (tw_do c a)"
proof (cases c)
  case (AddStr k v)
  assume "writes w a"
  with AddStr show ?thesis by (cases v) (simp_all add: add_str_def add_null_def writes_ops)
next
  case (AddFmt k t)
  assume "writes w a"
  with AddFmt show ?thesis
    by (cases t) (simp_all only: jw_do.simps tw_do.simps option.case add_fmt_def add_fmt_text writes_ops)
qed (simp_all add: add_int_def add_uint_def add_bool_def add_null_def writes_ops)

interpretation writer: simulation jw_do tw_do writes
  by unfold_locales (rule writes_do)

lemma writes_run: "writes w a \<Longrightarrow> writes (jw_run cs w) (tw_run cs a)"
  unfolding jw_run_def tw_run_def by (rule writer.run_rel)

subsection \<open>Writing a JSON value\<close>

text \<open>The calls that write a value, and the values they can write: 64-bit integers.\<close>

fun json_calls :: "string option \<Rightarrow> json \<Rightarrow> jw_call list" where
  "json_calls k JNull = [AddNull k]"
| "json_calls k (JBool b) = [AddBool k b]"
| "json_calls k (JInt i) = [AddInt k (word_of_int i)]"
| "json_calls k (JStr s) = [AddStrLen k s]"
| "json_calls k (JArr vs) = BeginArray k # concat (map (json_calls None) vs) @ [EndArray]"
| "json_calls k (JObj ms) =
     BeginObject k # concat (map (\<lambda>(n, v). json_calls (Some n) v) ms) @ [EndObject]"

fun ints_fit :: "json \<Rightarrow> bool" where
  "ints_fit (JInt i) = (- (2 ^ 63) \<le> i \<and> i < 2 ^ 63)"
| "ints_fit (JArr vs) = list_all ints_fit vs"
| "ints_fit (JObj ms) = list_all (\<lambda>(k, v). ints_fit v) ms"
| "ints_fit _ = True"

lemma sint_word64: "- (2 ^ 63) \<le> i \<Longrightarrow> i < 2 ^ 63 \<Longrightarrow> sint (word_of_int i :: u64) = i"
  by (simp add: sint_sbintrunc' signed_take_bit_int_eq_self)

lemma tw_run_simps [simp]:
  "tw_run [] a = a" "tw_run (c # cs) a = tw_run cs (tw_do c a)"
  "tw_run (cs @ ds) a = tw_run ds (tw_run cs a)"
  by (simp_all add: tw_run_def)

lemma tw_do_bad: "tw_bad a \<Longrightarrow> tw_bad (tw_do c a)"
  by (cases c) (auto simp: tw_open_def tw_close_def tw_leaf_def tw_put_def tw_value_def Let_def
      split: option.splits list.splits)

lemma tw_run_bad: "tw_bad a \<Longrightarrow> tw_bad (tw_run cs a)"
  by (induction cs arbitrary: a) (simp_all add: tw_do_bad)

text \<open>The text of a list of values in a container that already holds a value or not.\<close>

fun items_text :: "bool \<Rightarrow> string list \<Rightarrow> string" where
  "items_text b [] = []"
| "items_text b (x # xs) = (if b then '','' else []) @ x @ items_text True xs"

lemma items_text_commas: "items_text False xs = commas xs"
  by (induction xs rule: commas.induct) simp_all

text \<open>
  In a container nested so that the value still fits, the calls for a value append its text and
  restore the stack; below the deepest level they leave the mark \<open>tw_bad\<close>.
\<close>

definition value_written :: "json \<Rightarrow> bool" where
  "value_written v \<longleftrightarrow>
     (\<forall>k a. \<not> tw_bad a \<longrightarrow> length (tw_stack a) \<le> MAX_DEPTH \<longrightarrow>
        (length (tw_stack a) + nesting v \<le> MAX_DEPTH \<longrightarrow>
           tw_run (json_calls k v) a = tw_leaf k (render v) a) \<and>
        (length (tw_stack a) + nesting v > MAX_DEPTH \<longrightarrow>
           tw_bad (tw_run (json_calls k v) a)))"

lemma tw_leaf_in [simp]:
  "tw_stack a = b # bs \<Longrightarrow>
    tw_leaf k s a = a\<lparr>tw_text := tw_text a @ (if b then '','' else []) @ key_text k @ s, tw_stack := True # bs\<rparr>"
  by (simp add: tw_leaf_def tw_value_def tw_put_def)

lemma items_written:
  assumes "\<forall>v \<in> snd ` set kvs. value_written v" and "\<not> tw_bad a" and "tw_stack a = b # bs"
    and "Suc (length bs) + foldr max (map (\<lambda>(k, v). nesting v) kvs) 0 \<le> MAX_DEPTH"
  shows "tw_run (concat (map (\<lambda>(k, v). json_calls k v) kvs)) a =
    a\<lparr>tw_text := tw_text a @ items_text b (map (\<lambda>(k, v). key_text k @ render v) kvs),
      tw_stack := (b \<or> kvs \<noteq> []) # bs\<rparr>"
  using assms
proof (induction kvs arbitrary: a b)
  case (Cons kv kvs)
  obtain k v where kv: "kv = (k, v)" by (cases kv)
  let ?a = "a\<lparr>tw_text := tw_text a @ (if b then '','' else []) @ key_text k @ render v, tw_stack := True # bs\<rparr>"
  have "tw_run (json_calls k v) a = ?a"
    using Cons.prems kv by (simp add: value_written_def)
  moreover have "tw_run (concat (map (\<lambda>(k, v). json_calls k v) kvs)) ?a =
      ?a\<lparr>tw_text := tw_text ?a @ items_text True (map (\<lambda>(k, v). key_text k @ render v) kvs),
        tw_stack := True # bs\<rparr>"
    using Cons.IH [of ?a True] Cons.prems kv by simp
  ultimately show ?case by (simp add: kv)
qed simp

lemma items_too_deep:
  assumes "\<forall>v \<in> snd ` set kvs. value_written v" and "tw_stack a = b # bs"
    and "Suc (length bs) + foldr max (map (\<lambda>(k, v). nesting v) kvs) 0 > MAX_DEPTH"
    and "Suc (length bs) \<le> MAX_DEPTH"
  shows "tw_bad (tw_run (concat (map (\<lambda>(k, v). json_calls k v) kvs)) a)"
  using assms
proof (induction kvs arbitrary: a b)
  case (Cons kv kvs)
  obtain k v where kv: "kv = (k, v)" by (cases kv)
  show ?case
  proof (cases "tw_bad (tw_run (json_calls k v) a)")
    case True
    then show ?thesis by (simp add: kv tw_run_bad)
  next
    case False
    then have nb: "\<not> tw_bad a" using tw_run_bad by blast
    have "value_written v" using Cons.prems(1) kv by simp
    with False nb Cons.prems(2,4) have "length (tw_stack a) + nesting v \<le> MAX_DEPTH"
      unfolding value_written_def by (metis length_Cons not_le)
    with \<open>value_written v\<close> nb Cons.prems(2,4) have fits: "Suc (length bs) + nesting v \<le> MAX_DEPTH"
      and "tw_stack (tw_run (json_calls k v) a) = True # bs"
      by (simp_all add: value_written_def)
    from Cons.IH [OF _ this(2)] Cons.prems fits kv show ?thesis by (simp add: max_def split: if_split_asm)
  qed
qed simp

lemma container_written:
  assumes "\<forall>v \<in> snd ` set kvs. value_written v" and "\<not> tw_bad a"
    and n: "n = foldr max (map (\<lambda>(k, v). nesting v) kvs) 0"
  shows "(length (tw_stack a) + Suc n \<le> MAX_DEPTH \<longrightarrow>
      tw_close cl (tw_run (concat (map (\<lambda>(k, v). json_calls k v) kvs)) (tw_open k op a)) =
        tw_leaf k (op @ commas (map (\<lambda>(k, v). key_text k @ render v) kvs) @ cl) a) \<and>
    (length (tw_stack a) + Suc n > MAX_DEPTH \<longrightarrow>
      tw_bad (tw_close cl (tw_run (concat (map (\<lambda>(k, v). json_calls k v) kvs)) (tw_open k op a))))"
proof -
  let ?a = "tw_put op (tw_value k a)"
  have len: "length (tw_stack ?a) = length (tw_stack a)" and nb: "\<not> tw_bad ?a"
    using assms(2) by (auto simp: tw_put_def tw_value_def split: list.splits)
  show ?thesis
  proof (cases "length (tw_stack a) \<ge> MAX_DEPTH")
    case True
    then have "tw_bad (tw_open k op a)" using len by (simp add: tw_open_def Let_def)
    with True show ?thesis by (simp add: tw_close_def tw_put_def tw_run_bad)
  next
    case False
    then have opn: "tw_open k op a = ?a\<lparr>tw_stack := False # tw_stack ?a\<rparr>"
      using len by (simp add: tw_open_def Let_def)
    show ?thesis
    proof (cases "length (tw_stack a) + Suc n \<le> MAX_DEPTH")
      case True
      then show ?thesis
        using items_written [OF assms(1), of "tw_open k op a" False "tw_stack ?a"] opn nb len n
        by (simp add: tw_close_def tw_put_def tw_leaf_def items_text_commas)
    next
      case deep: False
      then show ?thesis
        using items_too_deep [OF assms(1), of "tw_open k op a" False "tw_stack ?a"] opn len n False
        by (simp add: tw_close_def tw_put_def)
    qed
  qed
qed

lemma json_written: "ints_fit v \<Longrightarrow> value_written v"
proof (induction v)
  case (JArr vs)
  have "\<forall>v \<in> snd ` set (map (Pair None) vs). value_written v"
    using JArr by (auto simp: list_all_iff)
  from container_written [OF this _ refl, of _ "'']''" _ "''[''"] show ?case
    by (simp add: value_written_def comp_def key_text_def case_prod_unfold)
next
  case (JObj ms)
  let ?kvs = "map (\<lambda>(n, v). (Some n, v)) ms"
  have "\<forall>v \<in> snd ` set ?kvs. value_written v"
    using JObj by (fastforce simp: list_all_iff snds.simps)
  from container_written [OF this _ refl, of _ "''}''" _ "''{''"] show ?case
    by (simp add: value_written_def comp_def key_text_def case_prod_unfold)
qed (auto simp: value_written_def sint_word64 )

subsection \<open>The text holds no NUL, and numbers fit their formatting buffer\<close>

lemma nul_free_escape_char: "NUL \<notin> set (escape_char c)"
proof (cases "byte c < 0x20")
  case True
  have plain: "NUL \<noteq> hex_digit n" if "n < 16" for n
  proof -
    have "\<forall>n \<in> set [0..<16]. NUL \<noteq> hex_digit n" by code_simp
    with that show ?thesis by simp
  qed
  have hi: "drop_bit 4 (byte c) < 16" using True by (simp add: drop_bit_eq_div)
  have lo: "byte c AND 15 < (16 :: nat)"
    using and_less_eq [of 15 "int (byte c)"] by (simp add: and_nat_def nat_less_iff and.commute)
  show ?thesis using plain [OF hi] plain [OF lo] by (auto simp: escape_char_def)
qed (auto simp: escape_char_def)

lemma nul_free_quoted: "NUL \<notin> set (quoted s)"
  using nul_free_escape_char by (auto simp: quoted_def escape_def)

lemma digit_char_not_nul:
  fixes n :: nat
  assumes "n < 10" shows "char_of (48 + n) \<noteq> NUL"
proof
  assume "char_of (48 + n) = NUL"
  then have "of_char (char_of (48 + n) :: char) = (0 :: nat)" by simp
  with assms show False by (simp add: of_char_of)
qed

lemma nul_free_digits: "NUL \<notin> set (dec_digits n)"
proof (induction n rule: dec_digits.induct)
  case (1 n)
  then show ?case using digit_char_not_nul [of n] digit_char_not_nul [of "n mod 10"]
    by (auto simp: dec_digits.simps [of n])
qed

lemma nul_free_dec_text: "NUL \<notin> set (dec_text v)"
  by (simp add: dec_text_def nul_free_digits)

lemma nul_free_hex_text: "NUL \<notin> set (hex_text bs)"
  using nul_free_quoted [of "hex_text bs"] by (simp add: quoted_def escape_hex_text)

lemma nul_free_key: "NUL \<notin> set (key_text k)"
  using nul_free_quoted by (auto simp: key_text_def split: option.splits)

lemma tw_do_nul_free: "NUL \<notin> set (tw_text a) \<Longrightarrow> NUL \<notin> set (tw_text (tw_do c a))"
  by (cases c) (auto simp: tw_open_def tw_close_def tw_leaf_def tw_put_def tw_value_def Let_def
      nul_free_key nul_free_quoted nul_free_dec_text nul_free_hex_text
      split: option.splits list.splits)

lemma tw_run_nul_free: "NUL \<notin> set (tw_text a) \<Longrightarrow> NUL \<notin> set (tw_text (tw_run cs a))"
  by (induction cs arbitrary: a) (simp_all add: tw_do_nul_free)

lemma length_dec_digits: "n < 10 ^ k \<Longrightarrow> 0 < k \<Longrightarrow> length (dec_digits n) \<le> k"
proof (induction n arbitrary: k rule: dec_digits.induct)
  case (1 n)
  show ?case
  proof (cases "n < 10")
    case True
    with "1.prems" show ?thesis by (simp add: dec_digits.simps [of n])
  next
    case False
    with "1.prems" obtain j where "k = Suc j" "0 < j" by (cases k; cases "k - 1") auto
    with "1.IH" [OF False, of j] "1.prems" False show ?thesis
      by (simp add: dec_digits.simps [of n] less_mult_imp_div_less mult.commute)
  qed
qed

lemma length_dec_text_sint: "length (dec_text (sint (v :: u64))) \<le> 20"
proof -
  have "- (2 ^ 63) \<le> sint v" "sint v < 2 ^ 63"
    using sint_ge [of v] sint_lt [of v] by simp_all
  then have "nat (- sint v) < 10 ^ 19" "nat (sint v) < 10 ^ 19" by simp_all
  then show ?thesis
    using length_dec_digits [of "nat (- sint v)" 19] length_dec_digits [of "nat (sint v)" 19]
    by (simp add: dec_text_def)
qed

lemma length_dec_text_uint: "length (dec_text (uint (v :: u64))) \<le> 20"
proof -
  have "nat (uint v) < 10 ^ 20" using unsigned_less [of v, where 'a = nat] by simp
  then show ?thesis using length_dec_digits [of "nat (uint v)" 20] by (simp add: dec_text_def)
qed

subsection \<open>What a caller reads from the buffer\<close>

lemma put_escaped_cap [simp]: "jw_cap (put_escaped s w) = jw_cap w"
proof -
  have "jw_cap (put_escaped_loop s w) = jw_cap w" for w
    by (induction s w rule: put_escaped_loop.induct) (simp_all add: put_escaped_char_def)
  then show ?thesis by (simp add: put_escaped_def)
qed

lemma begin_value_cap [simp]: "jw_cap (begin_value k w) = jw_cap w"
  by (simp add: begin_value_def Let_def split: option.splits)

lemma put_hex_loop_cap [simp]: "jw_cap (put_hex_loop bs w) = jw_cap w"
  by (induction bs w rule: put_hex_loop.induct) simp_all

lemma jw_do_cap [simp]: "jw_cap (jw_do c w) = jw_cap w"
  by (cases c) (simp_all add: begin_object_def end_object_def begin_array_def end_array_def
      open_container_def add_str_def add_str_len_def add_null_def add_fmt_def add_int_def
      add_uint_def add_bool_def add_hex_def Let_def split: option.splits)

lemma jw_run_cap [simp]: "jw_cap (jw_run cs w) = jw_cap w"
  by (induction cs arbitrary: w) (simp_all add: jw_run_def)

lemma writes_c_str:
  assumes "writes w a" and "jw_ok w" and "NUL \<notin> set (tw_text a)"
  shows "jw_c_str w = tw_text a"
proof -
  have "jw_buf w = take (jw_pos w) (jw_buf w) @ NUL # drop (Suc (jw_pos w)) (jw_buf w)"
    using assms(1) id_take_nth_drop [of "jw_pos w" "jw_buf w"] by (simp add: writes_def jw_wf_def)
  with assms show ?thesis unfolding jw_c_str_def by (metis cstr_append_nul writes_def)
qed

lemma writes_json:
  assumes "ints_fit v" and "\<not> tw_bad a" and "length (tw_stack a) + nesting v \<le> MAX_DEPTH"
  shows "tw_run (json_calls k v) a = tw_leaf k (render v) a"
  using json_written [OF assms(1)] assms(2,3) by (simp add: value_written_def)

subsection \<open>Properties\<close>

text \<open>
  C8: The JSON writer refines the unbounded writer, for every sequence of calls an application can
  make, in any order and any number, on a buffer of any size: the buffer keeps its size and stays
  NUL-terminated, \<open>ok()\<close> is true exactly when the whole text fits with its NUL and no container
  was nested deeper than 31 levels, and then \<open>c_str()\<close> is exactly that text and \<open>len()\<close> its length.
\<close>

theorem writer_refines_text:
  assumes "length buf = cap" and "0 < cap"
  shows "let w = jw_run cs (sc_json_writer (Some buf) cap); a = tw_run cs tw_init in
    length (jw_buf w) = cap \<and> NUL \<in> set (jw_buf w) \<and>
    (jw_ok w \<longleftrightarrow> \<not> tw_bad a \<and> length (tw_text a) < cap) \<and>
    (jw_ok w \<longrightarrow> jw_c_str w = tw_text a \<and> jw_len w = length (tw_text a))"
proof -
  let ?w = "jw_run cs (sc_json_writer (Some buf) cap)"
  let ?a = "tw_run cs tw_init"
  have w: "writes ?w ?a" by (rule writes_run [OF writes_init [OF assms]])
  have cap: "jw_cap ?w = cap" by (simp add: sc_json_writer_def jw_reset_def Let_def)
  have nul: "NUL \<notin> set (tw_text ?a)" by (rule tw_run_nul_free) (simp add: tw_init_def)
  have "jw_buf ?w ! jw_pos ?w = NUL" "jw_pos ?w < length (jw_buf ?w)" "length (jw_buf ?w) = cap"
    using w cap by (auto simp: writes_def jw_wf_def)
  then have "NUL \<in> set (jw_buf ?w)" by (metis nth_mem)
  with w cap \<open>length (jw_buf ?w) = cap\<close> writes_c_str [OF w _ nul] show ?thesis
    by (auto simp: Let_def writes_def jw_len_def)
qed

theorem writer_refines_text_witness:
  "let w = jw_run [BeginObject None, AddInt (Some ''n'') 5, EndObject] (sc_json_writer (Some ''xxxxxxxxxx'') 10) in
    jw_ok w \<and> jw_len w = 7 \<and> length (jw_buf w) = 10"
proof -
  have "tw_run [BeginObject None, AddInt (Some ''n'') 5, EndObject] tw_init =
      \<lparr>tw_text = [CHR ''{'', QUOTE, CHR ''n'', QUOTE, CHR '':'', CHR ''5'', CHR ''}''], tw_stack = [], tw_bad = False\<rparr>"
    by code_simp
  then show ?thesis
    using writer_refines_text [of "''xxxxxxxxxx''" 10 "[BeginObject None, AddInt (Some ''n'') 5, EndObject]"]
    by (simp add: Let_def)
qed

text \<open>
  Writing a JSON value through the writer's calls produces exactly its compact text, and \<open>ok()\<close>
  says whether it fits: at any nesting and for every value whose integers are 64-bit.
\<close>

theorem writer_writes_value:
  assumes "length buf = cap" and "0 < cap" and "ints_fit v" and "nesting v \<le> MAX_DEPTH"
  shows "let w = jw_run (json_calls None v) (sc_json_writer (Some buf) cap) in
    (jw_ok w \<longleftrightarrow> length (render v) < cap) \<and> (jw_ok w \<longrightarrow> jw_c_str w = render v)"
proof -
  let ?w = "jw_run (json_calls None v) (sc_json_writer (Some buf) cap)"
  have a: "tw_run (json_calls None v) tw_init = tw_leaf None (render v) tw_init"
    by (rule writes_json [OF assms(3)]) (use assms(4) in \<open>simp_all add: tw_init_def\<close>)
  have leaf: "tw_leaf None (render v) tw_init = \<lparr>tw_text = render v, tw_stack = [], tw_bad = False\<rparr>"
    by (simp add: tw_leaf_def tw_value_def tw_put_def tw_init_def key_text_def)
  have w: "writes ?w \<lparr>tw_text = render v, tw_stack = [], tw_bad = False\<rparr>"
    using writes_run [OF writes_init [OF assms(1,2)], of "json_calls None v"] a leaf by simp
  have "NUL \<notin> set (tw_text (tw_run (json_calls None v) tw_init))"
    by (rule tw_run_nul_free) (simp add: tw_init_def)
  then have nul: "NUL \<notin> set (render v)" by (simp add: a leaf)
  have cap: "jw_cap ?w = cap" by (simp add: sc_json_writer_def jw_reset_def Let_def)
  from w cap writes_c_str [OF w] nul show ?thesis by (auto simp: Let_def writes_def)
qed

theorem writer_writes_value_witness:
  "jw_c_str (jw_run (json_calls None (JArr [JInt (-1), JNull])) (sc_json_writer (Some ''aaaaaaaaaaaa'') 12)) =
    ''[-1,null]''"
proof -
  have "render (JArr [JInt (-1), JNull]) = ''[-1,null]''" by code_simp
  then show ?thesis
    using writer_writes_value [of "''aaaaaaaaaaaa''" 12 "JArr [JInt (-1), JNull]"]
    by (simp add: Let_def MAX_DEPTH_def)
qed

end
