(* ===== verification/Json_Roundtrip.thy ===== *)
theory Json_Roundtrip
  imports Json_Reader Json_Text
begin

text \<open>
  The reader undoes the writer. First the tokenizer: \<open>jsmn_parse\<close> of the text of a JSON object
  yields exactly the tokens \<open>json_toks\<close> that describe the value, in document order. Then the
  reader: on such tokens \<open>find\<close>, \<open>get_str\<close>, \<open>get_int\<close> and \<open>get_bool\<close> return the members of the
  value, at every nesting depth.
\<close>

subsection \<open>The tokens of a value\<close>

text \<open>Items laid out one after the other, one character (the comma) apart.\<close>

fun place :: "nat \<Rightarrow> (nat \<times> (nat \<Rightarrow> 'a list)) list \<Rightarrow> 'a list" where
  "place p [] = []"
| "place p ((n, f) # xs) = f p @ place (p + n + 1) xs"

definition prim_tok :: "nat \<Rightarrow> string \<Rightarrow> jsmntok" where
  "prim_tok p s = \<lparr>tk_type = JSMN_PRIMITIVE, tk_start = int p, tk_end = int (p + length s), tk_size = 0\<rparr>"

definition str_tok :: "nat \<Rightarrow> string \<Rightarrow> int \<Rightarrow> jsmntok" where
  "str_tok p s n =
     \<lparr>tk_type = JSMN_STRING, tk_start = int p + 1, tk_end = int (p + 1 + length (escape s)), tk_size = n\<rparr>"

definition container_tok :: "jsmntype \<Rightarrow> nat \<Rightarrow> nat \<Rightarrow> nat \<Rightarrow> jsmntok" where
  "container_tok ty p len n =
     \<lparr>tk_type = ty, tk_start = int p, tk_end = int (p + len), tk_size = int n\<rparr>"

definition member_toks :: "string \<Rightarrow> (nat \<Rightarrow> jsmntok list) \<Rightarrow> nat \<Rightarrow> jsmntok list" where
  "member_toks k f p = str_tok p k 1 # f (p + length (quoted k) + 1)"

fun json_toks :: "json \<Rightarrow> nat \<Rightarrow> jsmntok list" where
  "json_toks JNull p = [prim_tok p ''null'']"
| "json_toks (JBool b) p = [prim_tok p (if b then ''true'' else ''false'')]"
| "json_toks (JInt i) p = [prim_tok p (dec_text i)]"
| "json_toks (JStr s) p = [str_tok p s 0]"
| "json_toks (JArr vs) p =
     container_tok JSMN_ARRAY p (length (render (JArr vs))) (length vs) #
     place (p + 1) (map (\<lambda>v. (length (render v), json_toks v)) vs)"
| "json_toks (JObj ms) p =
     container_tok JSMN_OBJECT p (length (render (JObj ms))) (length ms) #
     place (p + 1) (map (\<lambda>(k, v). (length (quoted k) + 1 + length (render v),
                                    member_toks k (json_toks v))) ms)"

lemma place_closed:
  "(\<forall>f \<in> snd ` set xs. \<forall>q. \<forall>t \<in> set (f q). \<not> tok_open t) \<Longrightarrow>
    t \<in> set (place p xs) \<Longrightarrow> \<not> tok_open t"
  by (induction p xs rule: place.induct) fastforce+

lemma json_toks_closed: "t \<in> set (json_toks v p) \<Longrightarrow> \<not> tok_open t"
proof (induction v arbitrary: p t)
  case (JArr vs)
  define xs where "xs = map (\<lambda>v. (length (render v), json_toks v)) vs"
  have "\<not> tok_open t" if "(n, f) \<in> set xs" and "t \<in> set (f q)" for n f q t
    using that JArr.IH by (auto simp: xs_def)
  then have "\<forall>f \<in> snd ` set xs. \<forall>q. \<forall>t \<in> set (f q). \<not> tok_open t" by force
  note inner = place_closed [OF this]
  have "\<not> tok_open (container_tok JSMN_ARRAY p len n)" for len n
    by (simp add: container_tok_def tok_open_def)
  moreover have "t \<in> {container_tok JSMN_ARRAY p (length (render (JArr vs))) (length vs)}
      \<union> set (place (p + 1) xs)"
    using JArr.prems by (simp only: json_toks.simps xs_def list.set Un_insert_left Un_empty_left)
  ultimately show ?case using inner by blast
next
  case (JObj ms)
  define xs where "xs = map (\<lambda>(k, v). (length (quoted k) + 1 + length (render v),
      member_toks k (json_toks v))) ms"
  have "\<not> tok_open t" if "(n, f) \<in> set xs" and t: "t \<in> set (f q)" for n f q t
  proof -
    from that(1) obtain k v where kv: "(k, v) \<in> set ms" and f: "f = member_toks k (json_toks v)"
      by (auto simp: xs_def)
    from kv have "v \<in> Basic_BNFs.snds (k, v)" by (simp add: snds.simps)
    with JObj.IH kv have "\<And>t q. t \<in> set (json_toks v q) \<Longrightarrow> \<not> tok_open t" by blast
    with t show ?thesis by (auto simp: f member_toks_def str_tok_def tok_open_def)
  qed
  then have "\<forall>f \<in> snd ` set xs. \<forall>q. \<forall>t \<in> set (f q). \<not> tok_open t" by force
  note inner = place_closed [OF this]
  have "\<not> tok_open (container_tok JSMN_OBJECT p len n)" for len n
    by (simp add: container_tok_def tok_open_def)
  moreover have "t \<in> {container_tok JSMN_OBJECT p (length (render (JObj ms))) (length ms)}
      \<union> set (place (p + 1) xs)"
    using JObj.prems by (simp only: json_toks.simps xs_def list.set Un_insert_left Un_empty_left)
  ultimately show ?case using inner by blast
qed (auto simp: prim_tok_def str_tok_def tok_open_def)

subsection \<open>Scanning what the writer wrote\<close>

lemma hex_scan_4:
  assumes "drop p js = a # b # c # d # rest" and "\<forall>x \<in> {a, b, c, d}. is_hex_char x"
  shows "hex_scan js p 4 = Some (p + 4)"
proof -
  have nz: "x \<noteq> NUL" if "is_hex_char x" for x
    using that by (auto simp: is_hex_char_def)
  note D = drop_eq_ConsD
  from D [OF assms(1)] have 1: "p < length js" "js ! p = a" "drop (Suc p) js = b # c # d # rest" by auto
  from D [OF 1(3)] have 2: "Suc p < length js" "js ! Suc p = b" "drop (Suc (Suc p)) js = c # d # rest"
    by auto
  from D [OF 2(3)] have 3: "Suc (Suc p) < length js" "js ! Suc (Suc p) = c"
    "drop (Suc (Suc (Suc p))) js = d # rest" by auto
  from D [OF 3(3)] have 4: "Suc (Suc (Suc p)) < length js" "js ! Suc (Suc (Suc p)) = d" by auto
  show ?thesis using 1 2 3 4 assms(2) nz by (simp add: numeral_eq_Suc)
qed

lemma hex_digit_is_hex:
  assumes "n < 16" shows "is_hex_char (hex_digit n)"
proof -
  have "\<forall>n \<in> set [0..<16]. is_hex_char (hex_digit n)" by code_simp
  with assms show ?thesis by simp
qed

lemma byte_nibbles:
  assumes "byte c < 0x20"
  shows "drop_bit 4 (byte c) < 16" and "byte c AND 0xF < 16"
proof -
  show "drop_bit 4 (byte c) < 16" using assms by (simp add: drop_bit_eq_div)
  have "byte c AND 15 = byte c mod 16"
    using take_bit_eq_mask [of 4 "byte c"] by (simp add: mask_eq_exp_minus_1 take_bit_eq_mod)
  then show "byte c AND 0xF < 16" by simp
qed

lemma escape_char_forms:
  "(\<exists>e. escape_char c = [BACKSLASH, e] \<and> simple_escape e) \<or>
    (escape_char c = [BACKSLASH, CHR ''u'', CHR ''0'', CHR ''0'', hex_digit (drop_bit 4 (byte c)),
       hex_digit (byte c AND 0xF)] \<and> byte c < 0x20) \<or>
    (escape_char c = [c] \<and> c \<noteq> QUOTE \<and> c \<noteq> BACKSLASH \<and> \<not> byte c < 0x20)"
  by (simp add: escape_char_def simple_escape_def)

lemma str_scan_escape_char:
  assumes "drop p js = escape_char c @ rest" and "rest \<noteq> []"
  shows "str_scan js p = str_scan js (p + length (escape_char c))"
proof -
  consider (simple) e where "escape_char c = [BACKSLASH, e]" "simple_escape e"
    | (hex) "escape_char c = [BACKSLASH, CHR ''u'', CHR ''0'', CHR ''0'',
        hex_digit (drop_bit 4 (byte c)), hex_digit (byte c AND 0xF)]" "byte c < 0x20"
    | (plain) "escape_char c = [c]" "c \<noteq> QUOTE" "c \<noteq> BACKSLASH" "\<not> byte c < 0x20"
    using escape_char_forms by blast
  then show ?thesis
  proof cases
    case simple
    with assms have d: "drop p js = BACKSLASH # e # rest" by simp
    note p = drop_eq_ConsD [OF d] and q = drop_eq_ConsD [OF drop_eq_ConsD(3) [OF d]]
    from p q simple show ?thesis by (simp add: str_scan.simps [of js p])
  next
    case hex
    with assms(1) have d: "drop p js = BACKSLASH # CHR ''u'' # CHR ''0'' # CHR ''0'' #
        hex_digit (drop_bit 4 (byte c)) # hex_digit (byte c AND 0xF) # rest" by simp
    note p = drop_eq_ConsD [OF d] and q = drop_eq_ConsD [OF drop_eq_ConsD(3) [OF d]]
    have "hex_scan js (p + 2) 4 = Some (p + 6)"
      using hex_scan_4 [OF q(3)] hex_digit_is_hex byte_nibbles [OF hex(2)]
      by (simp add: is_hex_char_def)
    with p q hex show ?thesis by (simp add: str_scan.simps [of js p] simple_escape_def eval_nat_numeral)
  next
    case plain
    with assms have d: "drop p js = c # rest" by simp
    from plain have "c \<noteq> NUL" by auto
    with drop_eq_ConsD [OF d] plain show ?thesis by (simp add: str_scan.simps [of js p])
  qed
qed

lemma str_scan_escape:
  "drop p js = escape s @ QUOTE # rest \<Longrightarrow> str_scan js p = Inr (p + length (escape s))"
proof (induction s arbitrary: p)
  case Nil
  with drop_eq_ConsD [of p js QUOTE rest] show ?case by (simp add: str_scan.simps [of js p])
next
  case (Cons c s)
  then have d: "drop p js = escape_char c @ escape s @ QUOTE # rest" by simp
  then have "drop (p + length (escape_char c)) js = escape s @ QUOTE # rest"
    by (metis add.commute append_eq_conv_conj drop_drop)
  with Cons.IH str_scan_escape_char [OF d] show ?case by (simp add: add.assoc)
qed

lemma prim_scan_text:
  assumes "\<forall>c \<in> set s. \<not> prim_delim c \<and> 32 \<le> byte c \<and> byte c < 127"
    and "drop p js = s @ d # rest" and "prim_delim d" and "d \<noteq> NUL"
  shows "prim_scan js p = Inr (p + length s)"
  using assms
proof (induction s arbitrary: p)
  case Nil
  with drop_eq_ConsD [of p js d rest] show ?case by (simp add: prim_scan.simps [of js p])
next
  case (Cons c s)
  then have "drop p js = c # s @ d # rest" by simp
  note p = drop_eq_ConsD [OF this]
  have "c \<noteq> NUL" using Cons.prems(1) by auto
  with Cons.IH [OF _ p(3)] Cons.prems p show ?case
    by (simp add: prim_scan.simps [of js p] not_less)
qed

subsection \<open>Open tokens\<close>

definition opens :: "jsmntok list \<Rightarrow> nat option" where
  "opens A = last_open A (length A)"

definition super_of :: "jsmntok list \<Rightarrow> int" where
  "super_of A = (case opens A of None \<Rightarrow> -1 | Some i \<Rightarrow> int i)"

lemma last_open_append: "n \<le> length A \<Longrightarrow> last_open (A @ B) n = last_open A n"
  by (induction n) (simp_all add: nth_append)

lemma last_open_closed_tail:
  "\<forall>i. m \<le> i \<and> i < m + k \<longrightarrow> \<not> tok_open (A ! i) \<Longrightarrow> last_open A (m + k) = last_open A m"
  by (induction k) simp_all

lemma opens_append_closed:
  assumes "\<forall>t \<in> set B. \<not> tok_open t" shows "opens (A @ B) = opens A"
proof -
  have "\<not> tok_open ((A @ B) ! i)" if "length A \<le> i" "i < length A + length B" for i
    using that assms by (simp add: nth_append)
  with last_open_closed_tail [of "length A" "length B" "A @ B"] show ?thesis
    by (simp add: opens_def last_open_append)
qed

lemma opens_snoc_open: "tok_open t \<Longrightarrow> opens (A @ [t]) = Some (length A)"
  by (simp add: opens_def)

lemma opens_same:
  "length A = length B \<Longrightarrow> (\<And>i. i < length A \<Longrightarrow> tok_open (A ! i) = tok_open (B ! i)) \<Longrightarrow> opens A = opens B"
proof -
  assume len: "length A = length B" and same: "\<And>i. i < length A \<Longrightarrow> tok_open (A ! i) = tok_open (B ! i)"
  have "last_open A n = last_open B n" if "n \<le> length A" for n
    using that same by (induction n) simp_all
  with len show ?thesis by (simp add: opens_def)
qed

lemma nth_bump_super:
  "i < length A \<Longrightarrow> 0 \<le> s \<Longrightarrow> bump_super s A ! i =
    (if int i = s then (A ! i)\<lparr>tk_size := tk_size (A ! i) + 1\<rparr> else A ! i)"
  by (auto simp: bump_super_def nth_list_update)

lemma bump_super_none [simp]: "bump_super (-1) A = A"
  by (simp add: bump_super_def)

lemma opens_bump_super [simp]:
  assumes "-1 \<le> s" shows "opens (bump_super s A) = opens A"
proof (cases "s = -1")
  case False
  with assms show ?thesis
    by (intro opens_same) (simp_all add: nth_bump_super tok_open_def)
qed simp

lemma bump_super_append:
  assumes "-1 \<le> s" and "s < int (length A)"
  shows "bump_super s (A @ B) = bump_super s A @ B"
  using assms by (auto simp: bump_super_def list_update_append nth_append)

lemma last_open_container_last_open:
  "last_open A n = Some i \<Longrightarrow> is_container (tk_type (A ! i)) \<Longrightarrow> last_open_container A n = Some i"
  by (induction n) (simp_all split: if_split_asm)

lemma opens_Some: "opens A = Some i \<Longrightarrow> i < length A \<and> tok_open (A ! i)"
  unfolding opens_def by (rule last_open_Some)

subsection \<open>Runs of the tokenizer over one piece of text\<close>

definition mk :: "nat \<Rightarrow> int \<Rightarrow> jsmntok list \<Rightarrow> jsmn_parser" where
  "mk p s A = \<lparr>js_pos = p, js_super = s, js_toks = A, js_count = length A\<rparr>"

lemma mk_sel [simp]:
  "js_pos (mk p s A) = p" "js_super (mk p s A) = s" "js_toks (mk p s A) = A"
  "js_count (mk p s A) = length A"
  by (simp_all add: mk_def)

lemma mk_upd [simp]:
  "(mk p s A)\<lparr>js_pos := q\<rparr> = mk q s A" "(mk p s A)\<lparr>js_super := r\<rparr> = mk p r A"
  by (simp_all add: mk_def)

lemma jsmn_run_step:
  assumes "drop p js = c # rest" and "c \<noteq> NUL" and "jsmn_step js num (mk p s A) = Inr (mk q r B)"
  shows "jsmn_run js num (mk p s A) = jsmn_run js num (mk (Suc q) r B)"
  using assms drop_eq_ConsD [OF assms(1)] by (simp add: jsmn_run.simps [of js num "mk p s A"])

lemma run_string:
  assumes d: "drop p js = quoted k @ rest" and room: "length A < num"
    and s: "-1 \<le> s" "s < int (length A)"
  shows "jsmn_run js num (mk p s A) =
    jsmn_run js num (mk (p + length (quoted k)) s (bump_super s A @ [str_tok p k 0]))"
proof -
  from d have d1: "drop p js = QUOTE # escape k @ QUOTE # rest" by (simp add: quoted_def)
  note p = drop_eq_ConsD [OF d1]
  have "str_scan js (Suc p) = Inr (Suc p + length (escape k))"
    by (rule str_scan_escape [OF p(3)])
  with p(2) room s have "jsmn_step js num (mk p s A) =
      Inr (mk (Suc p + length (escape k)) s (bump_super s A @ [str_tok p k 0]))"
    by (simp add: jsmn_step_def jsmn_leaf_def jsmn_parse_string_def jsmn_alloc_token_def mk_def
        jsmn_fill_token_def str_tok_def bump_super_append Let_def)
  from jsmn_run_step [OF d1 _ this] show ?thesis by (simp add: quoted_def)
qed

text \<open>The text of a primitive: what the scanner accepts and the first character allows.\<close>

definition prim_text :: "string \<Rightarrow> bool" where
  "prim_text x \<longleftrightarrow> x \<noteq> [] \<and> prim_start (hd x) \<and>
     (\<forall>c \<in> set x. \<not> prim_delim c \<and> 32 \<le> byte c \<and> byte c < 127)"

definition value_end :: "char \<Rightarrow> bool" where
  "value_end c \<longleftrightarrow> c = CHR '','' \<or> c = CHR '']'' \<or> c = CHR ''}''"

lemma value_end_delim: "value_end c \<Longrightarrow> prim_delim c \<and> c \<noteq> NUL"
  by (auto simp: value_end_def prim_delim_def)

lemma prim_start_step:
  assumes "prim_start (js ! p)" and "\<not> prim_as_key (mk p s A)"
  shows "jsmn_step js num (mk p s A) = jsmn_leaf (jsmn_parse_primitive js num (mk p s A))"
proof -
  have "js ! p \<notin> {CHR ''{'', CHR ''['', CHR ''}'', CHR '']'', QUOTE, CHR 0x09, CHR 0x0D, CHR 0x0A,
      CHR 0x20, CHR '':'', CHR '',''}"
    using assms(1) by (auto simp: prim_start_def)
  with assms show ?thesis by (simp add: jsmn_step_def Let_def)
qed

lemma run_prim:
  assumes d: "drop p js = x @ c # rest" and x: "prim_text x" and c: "value_end c"
    and room: "length A < num" and s: "-1 \<le> s" "s < int (length A)"
    and key: "\<not> prim_as_key (mk p s A)"
  shows "jsmn_run js num (mk p s A) =
    jsmn_run js num (mk (p + length x) s (bump_super s A @ [prim_tok p x]))"
proof -
  from x obtain y ys where xy: "x = y # ys" by (cases x) (auto simp: prim_text_def)
  with d have d1: "drop p js = y # ys @ c # rest" by simp
  note p = drop_eq_ConsD [OF d1]
  have start: "prim_start (js ! p)" using p(2) x xy by (simp add: prim_text_def)
  have scan: "prim_scan js p = Inr (p + length x)"
    using prim_scan_text [OF _ d] x value_end_delim [OF c] by (simp add: prim_text_def)
  have "jsmn_step js num (mk p s A) =
      Inr (mk (p + length x - 1) s (bump_super s A @ [prim_tok p x]))"
    unfolding prim_start_step [OF start key] using scan room s
    by (simp add: jsmn_leaf_def jsmn_parse_primitive_def jsmn_alloc_token_def mk_def
        jsmn_fill_token_def prim_tok_def bump_super_append)
  moreover have "y \<noteq> NUL" using start p(2) by (auto simp: prim_start_def)
  ultimately show ?thesis using jsmn_run_step [OF d1] xy by simp
qed

lemma run_colon:
  assumes "drop p js = CHR '':'' # rest"
  shows "jsmn_run js num (mk p s A) = jsmn_run js num (mk (Suc p) (int (length A) - 1) A)"
proof -
  have "jsmn_step js num (mk p s A) = Inr (mk p (int (length A) - 1) A)"
    using drop_eq_ConsD [OF assms] by (simp add: jsmn_step_def)
  from jsmn_run_step [OF assms _ this] show ?thesis by simp
qed

text \<open>A comma makes the innermost open container the enclosing token again.\<close>

lemma run_comma:
  assumes d: "drop p js = CHR '','' # rest" and opn: "opens A = Some i"
    and ty: "is_container (tk_type (A ! i))"
    and s: "s = int i \<or> (0 \<le> s \<and> \<not> is_container (tk_type (A ! nat s)))"
  shows "jsmn_run js num (mk p s A) = jsmn_run js num (mk (Suc p) (int i) A)"
proof -
  have "last_open_container A (length A) = Some i"
    using opn ty last_open_container_last_open by (simp add: opens_def)
  then have "jsmn_step js num (mk p s A) = Inr (mk p (int i) A)"
    using drop_eq_ConsD [OF d] s ty by (auto simp: jsmn_step_def jsmn_comma_def)
  from jsmn_run_step [OF d _ this] show ?thesis by simp
qed

lemma run_open:
  assumes d: "drop p js = c # rest" and c: "(c, ty) \<in> {(CHR ''{'', JSMN_OBJECT), (CHR ''['', JSMN_ARRAY)}"
    and room: "length A < num" and s: "-1 \<le> s" "s < int (length A)"
    and sty: "s = -1 \<or> tk_type (A ! nat s) \<noteq> JSMN_OBJECT"
  shows "jsmn_run js num (mk p s A) = jsmn_run js num (mk (Suc p) (int (length A))
    (bump_super s A @ [\<lparr>tk_type = ty, tk_start = int p, tk_end = -1, tk_size = 0\<rparr>]))"
proof -
  have "s \<noteq> -1 \<Longrightarrow> nat s < length A" using s by auto
  then have "jsmn_open num ty (mk p s A) = Inr (mk p (int (length A))
      (bump_super s A @ [\<lparr>tk_type = ty, tk_start = int p, tk_end = -1, tk_size = 0\<rparr>]))"
    using room s sty
    by (auto simp: jsmn_open_def jsmn_alloc_token_def bump_super_append mk_def nth_append)
  moreover have "jsmn_step js num (mk p s A) = jsmn_open num ty (mk p s A)" and "c \<noteq> NUL"
    using drop_eq_ConsD [OF d] c by (auto simp: jsmn_step_def)
  ultimately show ?thesis using jsmn_run_step [OF d] by simp
qed

lemma run_close:
  assumes d: "drop p js = c # rest" and c: "(c, tk_type t) \<in> {(CHR ''}'', JSMN_OBJECT), (CHR '']'', JSMN_ARRAY)}"
    and t: "tok_open t" and B: "\<forall>b \<in> set B. \<not> tok_open b"
  shows "jsmn_run js num (mk p s (A @ t # B)) =
    jsmn_run js num (mk (Suc p) (super_of A) (A @ t\<lparr>tk_end := int p + 1\<rparr> # B))"
proof -
  let ?u = "t\<lparr>tk_end := int p + 1\<rparr>"
  have "opens ((A @ [t]) @ B) = Some (length A)"
    using opens_append_closed [OF B, of "A @ [t]"] opens_snoc_open [OF t] by simp
  then have last: "last_open (A @ t # B) (length (A @ t # B)) = Some (length A)"
    by (simp add: opens_def)
  have "\<not> tok_open ?u" by (simp add: tok_open_def)
  then have "last_open (A @ ?u # B) (Suc (length A)) = opens A"
    by (simp add: opens_def last_open_append)
  with last have "jsmn_close (tk_type t) (mk p s (A @ t # B)) = Inr (mk p (super_of A) (A @ ?u # B))"
    by (simp add: jsmn_close_def Let_def super_of_def mk_def del: last_open.simps)
  moreover have "jsmn_step js num (mk p s (A @ t # B)) = jsmn_close (tk_type t) (mk p s (A @ t # B))"
    and "c \<noteq> NUL"
    using drop_eq_ConsD [OF d] c by (auto simp: jsmn_step_def)
  ultimately show ?thesis using jsmn_run_step [OF d] by simp
qed

subsection \<open>Elements, members, containers\<close>

text \<open>
  An item of a container: its text, and its tokens when the text starts at a given position. In
  an open container of type \<open>ty\<close> the tokenizer consumes the item, adds its tokens and counts it.
\<close>

lemma drop_append_shift: "drop p js = t @ u \<Longrightarrow> drop (p + length t) js = u"
  by (metis add.commute append_eq_conv_conj drop_drop)

type_synonym item = "string \<times> (nat \<Rightarrow> jsmntok list)"

definition back_to :: "nat \<Rightarrow> int \<Rightarrow> jsmntok list \<Rightarrow> bool" where
  "back_to i s A \<longleftrightarrow> s = int i \<or> (0 \<le> s \<and> \<not> is_container (tk_type (A ! nat s)))"

definition item_runs :: "jsmntype \<Rightarrow> item \<Rightarrow> bool" where
  "item_runs ty x \<longleftrightarrow>
     (\<forall>p. \<forall>t \<in> set (snd x p). \<not> tok_open t) \<and>
     (\<forall>js num p A i c rest.
        drop p js = fst x @ c # rest \<longrightarrow> value_end c \<longrightarrow> opens A = Some i \<longrightarrow>
        tk_type (A ! i) = ty \<longrightarrow> length A + length (snd x p) \<le> num \<longrightarrow>
        (\<exists>s. back_to i s (bump_super (int i) A @ snd x p) \<and>
           jsmn_run js num (mk p (int i) A) =
           jsmn_run js num (mk (p + length (fst x)) s (bump_super (int i) A @ snd x p))))"

lemma item_runsD:
  assumes "item_runs ty (t, f)"
  shows "\<forall>u \<in> set (f p). \<not> tok_open u"
    and "drop p js = t @ c # rest \<Longrightarrow> value_end c \<Longrightarrow> opens A = Some i \<Longrightarrow> tk_type (A ! i) = ty \<Longrightarrow>
      length A + length (f p) \<le> num \<Longrightarrow>
      \<exists>s. back_to i s (bump_super (int i) A @ f p) \<and>
        jsmn_run js num (mk p (int i) A) =
        jsmn_run js num (mk (p + length t) s (bump_super (int i) A @ f p))"
  using assms unfolding item_runs_def fst_conv snd_conv by blast+

definition placed :: "nat \<Rightarrow> item list \<Rightarrow> jsmntok list" where
  "placed p xs = place p (map (\<lambda>(t, f). (length t, f)) xs)"

lemma placed_simps [simp]:
  "placed p [] = []"
  "placed p ((t, f) # xs) = f p @ placed (p + length t + 1) xs"
  by (simp_all add: placed_def)

lemma placed_closed:
  "\<forall>x \<in> set xs. item_runs ty x \<Longrightarrow> \<forall>t \<in> set (placed p xs). \<not> tok_open t"
  by (induction xs arbitrary: p) (auto simp: item_runs_def)

definition bump_n :: "nat \<Rightarrow> int \<Rightarrow> jsmntok list \<Rightarrow> jsmntok list" where
  "bump_n n s A = A[nat s := (A ! nat s)\<lparr>tk_size := tk_size (A ! nat s) + int n\<rparr>]"

lemma length_bump_n [simp]: "length (bump_n n s A) = length A"
  by (simp add: bump_n_def)

lemma bump_n_0 [simp]: "bump_n 0 s A = A"
  by (simp add: bump_n_def)

lemma bump_n_Suc:
  assumes "0 \<le> s" and "s < int (length A)"
  shows "bump_n n s (bump_super s A @ B) = bump_n (Suc n) s A @ B"
proof -
  from assms have "nat s < length A" by simp
  with assms show ?thesis
    by (simp add: bump_n_def bump_super_def list_update_append nth_append ac_simps)
qed

lemma commas_Cons: "commas (x # xs) = x @ (if xs = [] then [] else CHR '','' # commas xs)"
  by (cases xs) simp_all

lemma run_items:
  assumes "xs \<noteq> []" and "\<forall>x \<in> set xs. item_runs ty x"
    and "drop p js = commas (map fst xs) @ c # rest" and "value_end c" and "c \<noteq> CHR '',''"
    and "opens A = Some i" and "tk_type (A ! i) = ty" and "is_container ty"
    and "length A + length (placed p xs) \<le> num"
  shows "\<exists>s. jsmn_run js num (mk p (int i) A) =
    jsmn_run js num (mk (p + length (commas (map fst xs))) s
      (bump_n (length xs) (int i) A @ placed p xs))"
  using assms
proof (induction xs arbitrary: p A)
  case (Cons x xs)
  obtain t f where x: "x = (t, f)" by (cases x)
  let ?B = "bump_super (int i) A @ f p"
  have i: "i < length A" using opens_Some [OF Cons.prems(6)] by simp
  have runs: "item_runs ty (t, f)" using Cons.prems(2) x by simp
  have d: "drop p js = t @ (if xs = [] then c # rest else CHR '','' # commas (map fst xs) @ c # rest)"
    using Cons.prems(3) by (simp add: x commas_Cons)
  define c' where "c' = (if xs = [] then c else CHR '','')"
  define rest' where "rest' = (if xs = [] then rest else commas (map fst xs) @ c # rest)"
  have d': "drop p js = t @ c' # rest'" using d by (simp add: c'_def rest'_def)
  have "value_end c'" using Cons.prems(4) by (simp add: c'_def value_end_def)
  moreover have "length A + length (f p) \<le> num" using Cons.prems(9) x by simp
  ultimately obtain s where s: "back_to i s ?B"
    and run: "jsmn_run js num (mk p (int i) A) = jsmn_run js num (mk (p + length t) s ?B)"
    using item_runsD(2) [OF runs d' _ Cons.prems(6,7)] by blast
  have len: "length ?B = length A + length (f p)" by simp
  have bn: "bump_n (length xs) (int i) ?B = bump_n (length (x # xs)) (int i) A @ f p"
    using i by (simp add: bump_n_Suc)
  show ?case
  proof (cases "xs = []")
    case True
    then show ?thesis using run i bn by (auto simp: x)
  next
    case False
    have "opens ?B = Some i"
      using opens_append_closed [OF item_runsD(1) [OF runs]] Cons.prems(6) by simp
    moreover have "tk_type (?B ! i) = ty" using i Cons.prems(7) by (simp add: nth_append nth_bump_super)
    moreover have dd: "drop (p + length t) js = CHR '','' # commas (map fst xs) @ c # rest"
      using drop_append_shift [OF d] False by simp
    ultimately have comma: "jsmn_run js num (mk (p + length t) s ?B) =
        jsmn_run js num (mk (Suc (p + length t)) (int i) ?B)"
      using run_comma [OF dd] s Cons.prems(8) by (simp add: back_to_def)
    from Cons.IH [OF False _ drop_eq_ConsD(3) [OF dd] Cons.prems(4,5) \<open>opens ?B = Some i\<close>
        \<open>tk_type (?B ! i) = ty\<close> Cons.prems(8)] Cons.prems(2,9)
    obtain s' where "jsmn_run js num (mk (Suc (p + length t)) (int i) ?B) =
        jsmn_run js num (mk (Suc (p + length t) + length (commas (map fst xs))) s'
          (bump_n (length xs) (int i) ?B @ placed (Suc (p + length t)) xs))"
      by (auto simp: x)
    with run comma bn False show ?thesis by (auto simp: x commas_Cons add.assoc)
  qed
qed simp

lemma run_container:
  assumes d: "drop p js = op # commas (map fst xs) @ cl # rest"
    and br: "(op, cl, ty) \<in> {(CHR ''{'', CHR ''}'', JSMN_OBJECT), (CHR ''['', CHR '']'', JSMN_ARRAY)}"
    and xs: "\<forall>x \<in> set xs. item_runs ty x"
    and room: "length A + 1 + length (placed (Suc p) xs) \<le> num"
    and s: "-1 \<le> s" "s < int (length A)" "s = -1 \<or> tk_type (A ! nat s) \<noteq> JSMN_OBJECT"
  shows "jsmn_run js num (mk p s A) =
    jsmn_run js num (mk (p + 2 + length (commas (map fst xs))) (super_of A)
      (bump_super s A @ container_tok ty p (2 + length (commas (map fst xs))) (length xs) #
        placed (Suc p) xs))"
proof -
  let ?o = "\<lparr>tk_type = ty, tk_start = int p, tk_end = -1, tk_size = 0\<rparr>"
  let ?A = "bump_super s A @ [?o]"
  let ?q = "Suc p + length (commas (map fst xs))"
  note d1 = drop_eq_ConsD(3) [OF d]
  have ty: "is_container ty" using br by (auto simp: is_container_def)
  have opn: "jsmn_run js num (mk p s A) = jsmn_run js num (mk (Suc p) (int (length A)) ?A)"
    using run_open [OF d _ _ s, of ty num] br room by auto
  have o: "opens ?A = Some (length A)" using opens_snoc_open [of ?o] by (simp add: tok_open_def)
  have "\<exists>r. jsmn_run js num (mk (Suc p) (int (length A)) ?A) =
      jsmn_run js num (mk ?q r (bump_n (length xs) (int (length A)) ?A @ placed (Suc p) xs))"
  proof (cases "xs = []")
    case False
    have "value_end cl" "cl \<noteq> CHR '',''" using br by (auto simp: value_end_def)
    moreover have "tk_type (?A ! length A) = ty" by (simp add: nth_append)
    ultimately show ?thesis using run_items [OF False xs d1 _ _ o _ ty, of num] room by simp
  qed auto
  then obtain r where inner: "jsmn_run js num (mk (Suc p) (int (length A)) ?A) =
      jsmn_run js num (mk ?q r (bump_n (length xs) (int (length A)) ?A @ placed (Suc p) xs))" ..
  let ?t = "?o\<lparr>tk_size := int (length xs)\<rparr>"
  have bn: "bump_n (length xs) (int (length A)) ?A @ placed (Suc p) xs =
      bump_super s A @ ?t # placed (Suc p) xs"
    by (simp add: bump_n_def list_update_append nth_append)
  have d2: "drop ?q js = cl # rest"
    by (rule drop_append_shift [OF d1])
  have "tok_open ?t" by (simp add: tok_open_def)
  with run_close [OF d2 _ _ placed_closed [OF xs], of ?t] br
  have "jsmn_run js num (mk ?q r (bump_super s A @ ?t # placed (Suc p) xs)) =
      jsmn_run js num (mk (Suc ?q) (super_of (bump_super s A))
        (bump_super s A @ ?t\<lparr>tk_end := int ?q + 1\<rparr> # placed (Suc p) xs))"
    by auto
  moreover have "?t\<lparr>tk_end := int ?q + 1\<rparr> =
      container_tok ty p (2 + length (commas (map fst xs))) (length xs)"
    by (simp add: container_tok_def)
  ultimately show ?thesis using opn inner bn s(1) by (simp add: super_of_def)
qed

subsection \<open>Every value is tokenized\<close>

definition value_runs :: "json \<Rightarrow> bool" where
  "value_runs v \<longleftrightarrow>
     (\<forall>js num p A i s c rest.
        drop p js = render v @ c # rest \<longrightarrow> value_end c \<longrightarrow>
        opens A = Some i \<longrightarrow> 0 \<le> s \<longrightarrow> s < int (length A) \<longrightarrow>
        tk_type (A ! nat s) = JSMN_ARRAY \<or>
          (tk_type (A ! nat s) = JSMN_STRING \<and> tk_size (A ! nat s) = 0) \<longrightarrow>
        length A + length (json_toks v p) \<le> num \<longrightarrow>
        (\<exists>r \<in> {s, int i}. jsmn_run js num (mk p s A) =
           jsmn_run js num (mk (p + length (render v)) r (bump_super s A @ json_toks v p))))"

lemma value_runsD:
  assumes "value_runs v" and "drop p js = render v @ c # rest" and "value_end c"
    and "opens A = Some i" and "0 \<le> s" and "s < int (length A)"
    and "tk_type (A ! nat s) = JSMN_ARRAY \<or>
      (tk_type (A ! nat s) = JSMN_STRING \<and> tk_size (A ! nat s) = 0)"
    and "length A + length (json_toks v p) \<le> num"
  shows "\<exists>r \<in> {s, int i}. jsmn_run js num (mk p s A) =
    jsmn_run js num (mk (p + length (render v)) r (bump_super s A @ json_toks v p))"
  using assms unfolding value_runs_def by blast

lemma element_runs:
  assumes "value_runs v" shows "item_runs JSMN_ARRAY (render v, json_toks v)"
  unfolding item_runs_def fst_conv snd_conv
proof (intro conjI allI ballI impI)
  fix p t assume "t \<in> set (json_toks v p)" then show "\<not> tok_open t" by (rule json_toks_closed)
next
  fix js num p A i c rest
  assume *: "drop p js = render v @ c # rest" "value_end c" "opens A = Some i"
    "tk_type (A ! i) = JSMN_ARRAY" "length A + length (json_toks v p) \<le> num"
  have "i < length A" using opens_Some [OF *(3)] by simp
  with value_runsD [OF assms *(1-3), of "int i" num] *(4,5)
  show "\<exists>s. back_to i s (bump_super (int i) A @ json_toks v p) \<and>
      jsmn_run js num (mk p (int i) A) =
      jsmn_run js num (mk (p + length (render v)) s (bump_super (int i) A @ json_toks v p))"
    by (auto simp: back_to_def)
qed

lemma member_runs:
  assumes "value_runs v"
  shows "item_runs JSMN_OBJECT (quoted k @ CHR '':'' # render v, member_toks k (json_toks v))"
  unfolding item_runs_def fst_conv snd_conv
proof (intro conjI allI ballI impI)
  fix p t assume "t \<in> set (member_toks k (json_toks v) p)"
  then show "\<not> tok_open t"
    using json_toks_closed by (auto simp: member_toks_def str_tok_def tok_open_def)
next
  fix js num p A i c rest
  assume d: "drop p js = (quoted k @ CHR '':'' # render v) @ c # rest"
    and c: "value_end c" and o: "opens A = Some i"
    and ty: "tk_type (A ! i) = JSMN_OBJECT"
    and room: "length A + length (member_toks k (json_toks v) p) \<le> num"
  let ?q = "p + length (quoted k)"
  let ?B = "bump_super (int i) A @ [str_tok p k 0]"
  let ?C = "bump_super (int i) A @ member_toks k (json_toks v) p"
  have i: "i < length A" using opens_Some [OF o] by simp
  from d have d1: "drop p js = quoted k @ CHR '':'' # render v @ c # rest" by simp
  have d2: "drop ?q js = CHR '':'' # render v @ c # rest" by (rule drop_append_shift [OF d1])
  have d3: "drop (Suc ?q) js = render v @ c # rest" by (rule drop_eq_ConsD(3) [OF d2])
  have key: "jsmn_run js num (mk p (int i) A) = jsmn_run js num (mk ?q (int i) ?B)"
    using run_string [OF d1, of A num "int i"] room i by (simp add: member_toks_def)
  have colon: "jsmn_run js num (mk ?q (int i) ?B) = jsmn_run js num (mk (Suc ?q) (int (length A)) ?B)"
    using run_colon [OF d2, of num "int i" ?B] by simp
  have ob: "opens ?B = Some i"
    using opens_append_closed [of "[str_tok p k 0]" "bump_super (int i) A"] o
    by (simp add: str_tok_def tok_open_def)
  have nB: "?B ! length A = str_tok p k 0" by (simp add: nth_append)
  have "\<exists>r \<in> {int (length A), int i}. jsmn_run js num (mk (Suc ?q) (int (length A)) ?B) =
      jsmn_run js num (mk (Suc ?q + length (render v)) r
        (bump_super (int (length A)) ?B @ json_toks v (Suc ?q)))"
    by (rule value_runsD [OF assms d3 c ob])
      (use room nB in \<open>simp_all add: str_tok_def member_toks_def\<close>)
  moreover have "bump_super (int (length A)) ?B @ json_toks v (Suc ?q) = ?C"
    by (simp add: bump_super_def member_toks_def str_tok_def nth_append list_update_append)
  moreover have "back_to i r ?C" if "r \<in> {int (length A), int i}" for r
    using that by (auto simp: back_to_def member_toks_def nth_append str_tok_def is_container_def)
  ultimately show "\<exists>s. back_to i s ?C \<and> jsmn_run js num (mk p (int i) A) =
      jsmn_run js num (mk (p + length (quoted k @ CHR '':'' # render v)) s ?C)"
    using key colon by (auto simp: add.assoc)
qed

lemma string_runs: "value_runs (JStr x)"
  unfolding value_runs_def
proof (intro allI impI)
  fix js :: string and num p :: nat and A :: "jsmntok list" and i s c rest
  assume d: "drop p js = render (JStr x) @ c # rest" and s: "0 \<le> s" "s < int (length A)"
    and room: "length A + length (json_toks (JStr x) p) \<le> num"
  have "drop p js = quoted x @ c # rest" using d by simp
  from run_string [OF this, of A num s] s room
  show "\<exists>r \<in> {s, int i}. jsmn_run js num (mk p s A) = jsmn_run js num
      (mk (p + length (render (JStr x))) r (bump_super s A @ json_toks (JStr x) p))" by auto
qed

lemma prim_runs:
  assumes "prim_text (render v)" and "\<And>p. json_toks v p = [prim_tok p (render v)]"
  shows "value_runs v"
  unfolding value_runs_def
proof (intro allI impI)
  fix js :: string and num p :: nat and A :: "jsmntok list" and i s c rest
  assume d: "drop p js = render v @ c # rest" and c: "value_end c" and s: "0 \<le> s" "s < int (length A)"
    and ty: "tk_type (A ! nat s) = JSMN_ARRAY \<or>
      (tk_type (A ! nat s) = JSMN_STRING \<and> tk_size (A ! nat s) = 0)"
    and room: "length A + length (json_toks v p) \<le> num"
  have "\<not> prim_as_key (mk p s A)" using ty by (auto simp: prim_as_key_def Let_def)
  from run_prim [OF d assms(1) c, of A num s, OF _ _ _ this] s room assms(2)
  show "\<exists>r \<in> {s, int i}. jsmn_run js num (mk p s A) = jsmn_run js num
      (mk (p + length (render v)) r (bump_super s A @ json_toks v p))" by auto
qed

lemma container_runs:
  assumes br: "(op, cl, ty) \<in> {(CHR ''{'', CHR ''}'', JSMN_OBJECT), (CHR ''['', CHR '']'', JSMN_ARRAY)}"
    and xs: "\<forall>x \<in> set xs. item_runs ty x"
    and rend: "render v = op # commas (map fst xs) @ [cl]"
    and toks: "\<And>p. json_toks v p =
      container_tok ty p (2 + length (commas (map fst xs))) (length xs) # placed (Suc p) xs"
  shows "value_runs v"
  unfolding value_runs_def
proof (intro allI impI)
  fix js :: string and num p :: nat and A :: "jsmntok list" and i s c rest
  assume d: "drop p js = render v @ c # rest" and o: "opens A = Some i"
    and s: "0 \<le> s" "s < int (length A)"
    and ty: "tk_type (A ! nat s) = JSMN_ARRAY \<or>
      (tk_type (A ! nat s) = JSMN_STRING \<and> tk_size (A ! nat s) = 0)"
    and room: "length A + length (json_toks v p) \<le> num"
  have d': "drop p js = op # commas (map fst xs) @ cl # c # rest" using d rend by simp
  have "super_of A = int i" using o by (simp add: super_of_def)
  with run_container [OF d' br xs, of A num s] room s ty toks rend
  show "\<exists>r \<in> {s, int i}. jsmn_run js num (mk p s A) = jsmn_run js num
      (mk (p + length (render v)) r (bump_super s A @ json_toks v p))" by auto
qed

lemma byte_char_of: "n < 256 \<Longrightarrow> byte (char_of n) = n"
  by (simp add: of_char_of)

lemma digits_shape: "dec_digits n \<noteq> [] \<and> (\<forall>c \<in> set (dec_digits n). is_digit c)"
proof (induction n rule: dec_digits.induct)
  case (1 n)
  have "is_digit (char_of (48 + n mod 10))" "n < 10 \<Longrightarrow> is_digit (char_of (48 + n))"
    by (simp_all add: is_digit_def byte_char_of)
  with 1 show ?case by (auto simp: dec_digits.simps [of n])
qed

lemma digit_prim:
  "is_digit c \<Longrightarrow> prim_start c \<and> \<not> prim_delim c \<and> 32 \<le> byte c \<and> byte c < 127"
  by (auto simp: is_digit_def prim_start_def prim_delim_def)

lemma prim_text_dec: "prim_text (dec_text i)"
proof -
  have "prim_text (dec_digits n)" for n
  proof -
    have "hd (dec_digits n) \<in> set (dec_digits n)" using digits_shape [of n] by simp
    with digits_shape [of n] digit_prim show ?thesis unfolding prim_text_def by blast
  qed
  moreover have "prim_text (CHR ''-'' # dec_digits n)" for n
    using digits_shape [of n] digit_prim by (auto simp: prim_text_def prim_start_def prim_delim_def)
  ultimately show ?thesis by (simp add: dec_text_def)
qed

definition arr_items :: "json list \<Rightarrow> item list" where
  "arr_items vs = map (\<lambda>v. (render v, json_toks v)) vs"

definition obj_items :: "(string \<times> json) list \<Rightarrow> item list" where
  "obj_items ms = map (\<lambda>(k, v). (quoted k @ CHR '':'' # render v, member_toks k (json_toks v))) ms"

lemma arr_items_text: "map fst (arr_items vs) = map render vs"
  by (simp add: arr_items_def)

lemma obj_items_text: "map fst (obj_items ms) = map (\<lambda>(k, v). quoted k @ CHR '':'' # render v) ms"
  by (auto simp: obj_items_def)

lemma arr_toks:
  "json_toks (JArr vs) p = container_tok JSMN_ARRAY p (2 + length (commas (map fst (arr_items vs))))
     (length (arr_items vs)) # placed (Suc p) (arr_items vs)"
  by (simp add: arr_items_text placed_def) (simp add: arr_items_def comp_def)

lemma obj_toks:
  "json_toks (JObj ms) p = container_tok JSMN_OBJECT p (2 + length (commas (map fst (obj_items ms))))
     (length (obj_items ms)) # placed (Suc p) (obj_items ms)"
  by (simp add: obj_items_text placed_def) (simp add: obj_items_def comp_def case_prod_unfold)

lemma all_value_runs: "value_runs v"
proof (induction v)
  case (JArr vs)
  then have "\<forall>x \<in> set (arr_items vs). item_runs JSMN_ARRAY x"
    using element_runs by (auto simp: arr_items_def)
  then show ?case
    by (rule container_runs [rotated, OF _ _ arr_toks]) (auto simp: arr_items_text)
next
  case (JObj ms)
  then have "\<forall>x \<in> set (obj_items ms). item_runs JSMN_OBJECT x"
    using member_runs by (fastforce simp: obj_items_def snds.simps)
  then show ?case
    by (rule container_runs [rotated, OF _ _ obj_toks]) (auto simp: obj_items_text)
next
  case JNull
  show ?case by (rule prim_runs) (simp_all add: prim_text_def prim_start_def prim_delim_def)
next
  case (JBool b)
  show ?case by (rule prim_runs) (simp_all add: prim_text_def prim_start_def prim_delim_def)
next
  case (JInt i)
  show ?case by (rule prim_runs) (simp_all add: prim_text_dec)
qed (rule string_runs)

lemma run_end: "length js \<le> p \<Longrightarrow> jsmn_run js num (mk p s A) = Inr (mk p s A)"
  by (simp add: jsmn_run.simps [of js num "mk p s A"])

lemma jsmn_parse_render:
  assumes "length (json_toks (JObj ms) 0) \<le> num"
  shows "jsmn_parse (render (JObj ms)) num =
    Inr (length (json_toks (JObj ms) 0), json_toks (JObj ms) 0)"
proof -
  let ?js = "render (JObj ms)"
  let ?toks = "json_toks (JObj ms) 0"
  have "\<forall>x \<in> set (obj_items ms). item_runs JSMN_OBJECT x"
    using member_runs all_value_runs by (auto simp: obj_items_def)
  moreover have "drop 0 ?js = CHR ''{'' # commas (map fst (obj_items ms)) @ CHR ''}'' # []"
    by (simp add: obj_items_text)
  ultimately have "jsmn_run ?js num (mk 0 (-1) []) =
      jsmn_run ?js num (mk (length ?js) (super_of []) ?toks)"
    using run_container [of 0 ?js "CHR ''{''" "obj_items ms" "CHR ''}''" "[]" JSMN_OBJECT "[]" num "-1"] assms
    by (simp only: obj_toks) (simp add: obj_items_text)
  also have "\<dots> = Inr (mk (length ?js) (super_of []) ?toks)"
    by (rule run_end) simp
  finally have "jsmn_run ?js num jsmn_init = Inr (mk (length ?js) (super_of []) ?toks)"
    by (simp only: mk_def jsmn_init_def list.size)
  moreover have "last_open ?toks (length ?toks) = None"
    unfolding last_open_None using json_toks_closed nth_mem by blast
  ultimately show ?thesis by (simp add: jsmn_parse_def del: json_toks.simps render.simps)
qed

subsection \<open>Properties\<close>

text \<open>
  C22: The tokenizer is complete on the writer's texts: the text of every JSON object is tokenized
  into exactly the tokens of the object and its members, in document order with their positions
  and member counts, as soon as the token array is large enough.
\<close>

theorem tokens_of_text:
  assumes "length (json_toks (JObj ms) 0) \<le> num"
  shows "jsmn_parse (render (JObj ms)) num =
    Inr (length (json_toks (JObj ms) 0), json_toks (JObj ms) 0)"
  by (rule jsmn_parse_render [OF assms])

theorem tokens_of_text_witness:
  "jsmn_parse (render (JObj [(''a'', JArr [JInt 1, JNull])])) 5 =
    Inr (5, json_toks (JObj [(''a'', JArr [JInt 1, JNull])]) 0)"
proof -
  have "length (json_toks (JObj [(''a'', JArr [JInt 1, JNull])]) 0) = 5" by code_simp
  with tokens_of_text [of "[(''a'', JArr [JInt 1, JNull])]" 5] show ?thesis by simp
qed

end
