(* ===== verification/Json_Lookup.thy ===== *)
theory Json_Lookup
  imports Json_Roundtrip
begin

text \<open>
  What the reader answers on a document that the writer could have written. A token index is a
  \<open>node\<close> for a JSON value when the tokens from there on are the value's and its text stands in the
  document; \<open>parse\<close> makes token 0 a node for the root object, \<open>find\<close> leads from a node to the
  node of a member, and \<open>str_at\<close>, \<open>int_at\<close>, \<open>get_bool\<close> and \<open>child_count\<close> return what is there.
\<close>

subsection \<open>Sublists at a position\<close>

definition sits :: "'a list \<Rightarrow> nat \<Rightarrow> 'a list \<Rightarrow> bool" where
  "sits xs n ys \<longleftrightarrow> take (length ys) (drop n xs) = ys"

lemma sits_Nil [simp]: "sits xs n []"
  by (simp add: sits_def)

lemma sits_Cons: "sits xs n (y # ys) \<longleftrightarrow> n < length xs \<and> xs ! n = y \<and> sits xs (Suc n) ys"
proof (cases "n < length xs")
  case True
  then show ?thesis by (simp add: sits_def drop_nth_Cons)
qed (simp add: sits_def)

lemma sits_append: "sits xs n (ys @ zs) \<longleftrightarrow> sits xs n ys \<and> sits xs (n + length ys) zs"
  by (induction ys arbitrary: n) (auto simp: sits_Cons)

lemma sits_slice: "sits xs n ys \<Longrightarrow> slice xs n (n + length ys) = ys"
  by (simp add: sits_def slice_def)

lemma sits_less: "sits xs n ys \<Longrightarrow> ys \<noteq> [] \<Longrightarrow> n < length xs"
  by (cases ys) (simp_all add: sits_Cons)

lemma sits_self [simp]: "sits xs 0 xs"
  by (simp add: sits_def)

subsection \<open>Nodes\<close>

definition node_at :: "sc_json_reader \<Rightarrow> nat \<Rightarrow> nat \<Rightarrow> json \<Rightarrow> bool" where
  "node_at r n p v \<longleftrightarrow>
     rd_count r = length (rd_tokens r) \<and> sits (rd_tokens r) n (json_toks v p) \<and>
     sits (rd_json r) p (render v)"

definition node :: "sc_json_reader \<Rightarrow> int \<Rightarrow> json \<Rightarrow> bool" where
  "node r i v \<longleftrightarrow> 0 \<le> i \<and> (\<exists>p. node_at r (nat i) p v)"

definition json_member :: "json \<Rightarrow> string \<Rightarrow> json option" where
  "json_member v key = (case v of JObj ms \<Rightarrow> map_of ms key | _ \<Rightarrow> None)"

text \<open>The number of tokens a value takes.\<close>

fun json_size :: "json \<Rightarrow> nat" where
  "json_size (JArr vs) = Suc (sum_list (map json_size vs))"
| "json_size (JObj ms) = Suc (sum_list (map (\<lambda>(k, v). Suc (json_size v)) ms))"
| "json_size _ = 1"

lemma length_place:
  "(\<And>x q. x \<in> set xs \<Longrightarrow> length (snd x q) = g x) \<Longrightarrow> length (place p xs) = sum_list (map g xs)"
  by (induction p xs rule: place.induct) auto

lemma length_json_toks: "length (json_toks v p) = json_size v"
proof (induction v arbitrary: p)
  case (JArr vs)
  have "length (place q (map (\<lambda>v. (length (render v), json_toks v)) vs)) = sum_list (map json_size vs)"
    for q using JArr.IH by (induction vs arbitrary: q) auto
  then show ?case by simp
next
  case (JObj ms)
  have "length (place q (map (\<lambda>(k, v). (length (quoted k) + 1 + length (render v),
      member_toks k (json_toks v))) ms)) = sum_list (map (\<lambda>(k, v). Suc (json_size v)) ms)"
    for q using JObj.IH
    by (induction ms arbitrary: q) (fastforce simp: member_toks_def snds.simps)+
  then show ?case by simp
qed simp_all

lemma reader_parse_render:
  assumes "json_size (JObj ms) \<le> rd_max_tokens r"
  shows "\<exists>r'. reader_parse (render (JObj ms)) r = (ESP_OK, r') \<and> node r' 0 (JObj ms) \<and> reader_ok r'"
proof -
  let ?js = "render (JObj ms)"
  let ?toks = "json_toks (JObj ms) 0"
  let ?r = "r\<lparr>rd_json := ?js, rd_tokens := ?toks, rd_count := length ?toks\<rparr>"
  have ne: "\<not> (length ?toks < 1 \<or> tk_type (?toks ! 0) \<noteq> JSMN_OBJECT)"
    by (simp add: container_tok_def)
  have "length ?toks \<le> rd_max_tokens r" using assms length_json_toks [of "JObj ms" 0] by (simp only:)
  from jsmn_parse_render [OF this] ne have parse: "reader_parse ?js r = (ESP_OK, ?r)"
    by (simp only: reader_parse_def Let_def sum.case prod.case if_False) simp
  have "node ?r 0 (JObj ms)"
    by (auto simp: node_def node_at_def simp del: json_toks.simps render.simps intro!: exI [of _ 0])
  with parse reader_parse_ok [OF parse] show ?thesis by blast
qed

subsection \<open>Skipping a value\<close>

definition skips :: "json \<Rightarrow> bool" where
  "skips v \<longleftrightarrow> (\<forall>r n p pending. rd_count r = length (rd_tokens r) \<longrightarrow>
     sits (rd_tokens r) n (json_toks v p) \<longrightarrow> 0 < pending \<longrightarrow>
     skip_loop r pending n = skip_loop r (pending - 1) (n + json_size v))"

lemma skip_loop_step:
  assumes "rd_count r = length (rd_tokens r)" and "sits (rd_tokens r) n (t # ts)" and "0 < pending"
  shows "skip_loop r pending n = skip_loop r (pending + (tk_size t - 1)) (Suc n)"
  using assms by (simp add: skip_loop.simps [of r pending n] sits_Cons)

lemma skip_values:
  assumes "\<forall>v \<in> set vs. skips v" and "rd_count r = length (rd_tokens r)"
    and "sits (rd_tokens r) n (place p (map (\<lambda>v. (length (render v), json_toks v)) vs))"
    and "0 \<le> pending"
  shows "skip_loop r (pending + int (length vs)) n =
    skip_loop r pending (n + sum_list (map json_size vs))"
  using assms
proof (induction vs arbitrary: n p)
  case (Cons v vs)
  have "sits (rd_tokens r) n (json_toks v p)" using Cons.prems(3) by (simp add: sits_append)
  with Cons.prems have "skip_loop r (pending + int (length (v # vs))) n =
      skip_loop r (pending + int (length (v # vs)) - 1) (n + json_size v)"
    unfolding skips_def list.set by (metis add_nonneg_pos insertI1 length_Cons of_nat_0_less_iff zero_less_Suc)
  also have "pending + int (length (v # vs)) - 1 = pending + int (length vs)" by simp
  finally show ?case
    using Cons.IH [of "n + json_size v" "p + length (render v) + 1"] Cons.prems
    by (simp add: sits_append length_json_toks add.assoc)
qed simp

lemma skip_members:
  assumes "\<forall>v \<in> snd ` set ms. skips v" and "rd_count r = length (rd_tokens r)"
    and "sits (rd_tokens r) n (place p (map (\<lambda>(k, v). (length (quoted k) + 1 + length (render v),
      member_toks k (json_toks v))) ms))"
    and "0 \<le> pending"
  shows "skip_loop r (pending + int (length ms)) n =
    skip_loop r pending (n + sum_list (map (\<lambda>(k, v). Suc (json_size v)) ms))"
  using assms
proof (induction ms arbitrary: n p)
  case (Cons m ms)
  obtain k v where m: "m = (k, v)" by (cases m)
  have s: "sits (rd_tokens r) n (str_tok p k 1 # json_toks v (p + length (quoted k) + 1))"
    using Cons.prems(3) by (simp add: sits_append sits_Cons m member_toks_def)
  have pos: "0 < pending + int (length (m # ms))" using Cons.prems(4) by simp
  have "skip_loop r (pending + int (length (m # ms))) n =
      skip_loop r (pending + int (length (m # ms))) (Suc n)"
    using skip_loop_step [OF Cons.prems(2) s pos] by (simp add: str_tok_def)
  also have "\<dots> = skip_loop r (pending + int (length (m # ms)) - 1) (Suc n + json_size v)"
    using Cons.prems(1,2) s pos m unfolding skips_def sits_Cons by (metis image_eqI list.set_intros(1) snd_conv)
  also have "pending + int (length (m # ms)) - 1 = pending + int (length ms)" by simp
  finally show ?case
    using Cons.IH [of "Suc n + json_size v" "p + (length (quoted k) + 1 + length (render v)) + 1"] Cons.prems
    by (simp add: sits_append sits_Cons length_json_toks add.assoc m member_toks_def)
qed simp

lemma all_skips: "skips v"
proof (induction v)
  case (JArr vs)
  show ?case unfolding skips_def
  proof (intro allI impI)
    fix r :: sc_json_reader and n p and pending :: int
    assume c: "rd_count r = length (rd_tokens r)" and s: "sits (rd_tokens r) n (json_toks (JArr vs) p)"
      and pos: "0 < pending"
    from s have s': "sits (rd_tokens r) (Suc n) (place (p + 1) (map (\<lambda>v. (length (render v), json_toks v)) vs))"
      by (simp add: sits_Cons)
    from skip_loop_step [OF c s [unfolded json_toks.simps] pos]
      skip_values [OF _ c s', of "pending - 1"] JArr.IH pos
    show "skip_loop r pending n = skip_loop r (pending - 1) (n + json_size (JArr vs))"
      by (simp add: container_tok_def algebra_simps)
  qed
next
  case (JObj ms)
  show ?case unfolding skips_def
  proof (intro allI impI)
    fix r :: sc_json_reader and n p and pending :: int
    assume c: "rd_count r = length (rd_tokens r)" and s: "sits (rd_tokens r) n (json_toks (JObj ms) p)"
      and pos: "0 < pending"
    from s have s': "sits (rd_tokens r) (Suc n) (place (p + 1) (map (\<lambda>(k, v).
        (length (quoted k) + 1 + length (render v), member_toks k (json_toks v))) ms))"
      by (simp add: sits_Cons)
    have "\<forall>v \<in> snd ` set ms. skips v" using JObj.IH by (fastforce simp: snds.simps)
    from skip_loop_step [OF c s [unfolded json_toks.simps] pos]
      skip_members [OF this c s', of "pending - 1"] pos
    show "skip_loop r pending n = skip_loop r (pending - 1) (n + json_size (JObj ms))"
      by (simp add: container_tok_def algebra_simps)
  qed
qed (auto simp: skips_def skip_loop_step prim_tok_def str_tok_def)

lemma skip_loop_0 [simp]: "skip_loop r 0 n = n"
  by (simp add: skip_loop.simps [of r 0 n])

lemma skip_node:
  assumes "rd_count r = length (rd_tokens r)" and "sits (rd_tokens r) n (json_toks v p)"
  shows "skip r (int n) =
    (if n + json_size v < rd_count r then int (n + json_size v) else -1)"
proof -
  have "json_toks v p \<noteq> []" by (cases v) simp_all
  then have "n < length (rd_tokens r)" using sits_less [OF assms(2)] by simp
  then have "tok_valid r (int n)" using assms(1) by (simp add: tok_valid_def)
  moreover have "skip_loop r 1 n = n + json_size v"
    using all_skips [of v] assms unfolding skips_def by force
  ultimately show ?thesis by (simp add: skip_def Let_def)
qed

subsection \<open>Unescaping undoes escaping\<close>

lemma hex_code_control:
  assumes "byte c < 0x20"
  shows "hex_code 0 [CHR ''0'', CHR ''0'', hex_digit (drop_bit 4 (byte c)), hex_digit (byte c AND 0xF)] =
    Some (byte c)"
proof -
  have "\<forall>n \<in> set [0..<32]. hex_code 0 [CHR ''0'', CHR ''0'', hex_digit (drop_bit 4 n), hex_digit (n AND 15)]
      = Some n"
    by code_simp
  with assms show ?thesis by simp
qed

lemma str_loop_escape_char:
  "str_loop cap out (escape_char c @ rest) =
    (if length out + 1 < cap then str_loop cap (out @ [c]) rest else (False, out))"
proof -
  have simple: "str_loop cap out (BACKSLASH # e # rest) =
      (if length out + 1 < cap then str_loop cap (out @ [simple_unescape e]) rest else (False, out))"
    if "e \<noteq> CHR ''u''" for e
    using that by simp
  consider (simple) e where "escape_char c = [BACKSLASH, e]" "e \<noteq> CHR ''u''" "simple_unescape e = c"
    | (hex) "escape_char c = [BACKSLASH, CHR ''u'', CHR ''0'', CHR ''0'',
        hex_digit (drop_bit 4 (byte c)), hex_digit (byte c AND 0xF)]" "byte c < 0x20"
    | (plain) "escape_char c = [c]" "c \<noteq> BACKSLASH"
  proof -
    have "(\<exists>e. escape_char c = [BACKSLASH, e] \<and> e \<noteq> CHR ''u'' \<and> simple_unescape e = c) \<or>
      (escape_char c = [BACKSLASH, CHR ''u'', CHR ''0'', CHR ''0'',
        hex_digit (drop_bit 4 (byte c)), hex_digit (byte c AND 0xF)] \<and> byte c < 0x20) \<or>
      (escape_char c = [c] \<and> c \<noteq> BACKSLASH)"
      by (simp add: escape_char_def simple_unescape_def)
    then show thesis using that by blast
  qed
  then show ?thesis
  proof cases
    case simple
    with \<open>\<And>e. e \<noteq> CHR ''u'' \<Longrightarrow> _\<close> show ?thesis by simp
  next
    case hex
    have "utf8_bytes (surrogate_to_question (byte c)) = [c]"
      using hex(2) by (simp add: utf8_bytes_def surrogate_to_question_def)
    with hex hex_code_control [OF hex(2)] show ?thesis by simp
  next
    case plain
    then show ?thesis by simp
  qed
qed

lemma str_loop_escape:
  "length out + length s < cap \<Longrightarrow> str_loop cap out (escape s) = (True, out @ s)"
  by (induction s arbitrary: out) (simp_all add: str_loop_escape_char)

lemma str_loop_escape_long:
  "length out < cap \<Longrightarrow> cap \<le> length out + length s \<Longrightarrow>
    str_loop cap out (escape s) = (False, out @ take (cap - 1 - length out) s)"
proof (induction s arbitrary: out)
  case (Cons c s)
  show ?case
  proof (cases "length out + 1 < cap")
    case True
    then have "cap - 1 - length out = Suc (cap - 1 - length (out @ [c]))" by simp
    with True Cons show ?thesis by (simp add: str_loop_escape_char)
  next
    case False
    with Cons.prems have "cap - 1 - length out = 0" by simp
    with False show ?thesis by (simp add: str_loop_escape_char)
  qed
qed simp

lemma escape_inject: "escape s = escape t \<longleftrightarrow> s = t"
proof
  assume "escape s = escape t"
  moreover define cap where "cap = Suc (length s + length t)"
  ultimately have "str_loop cap [] (escape s) = str_loop cap [] (escape t)" by simp
  then show "s = t" by (simp add: str_loop_escape cap_def)
qed simp

subsection \<open>Looking up members\<close>

text \<open>A key that is written as it is: without quotes, backslashes and control characters.\<close>

definition plain_key :: "string \<Rightarrow> bool" where
  "plain_key key \<longleftrightarrow> escape key = key"

lemma key_equals_member:
  assumes "sits (rd_tokens r) n (str_tok p k 1 # ts)" and "sits (rd_json r) p (quoted k @ u)"
    and "plain_key key"
  shows "key_equals r (int n) key \<longleftrightarrow> k = key"
proof -
  from assms(1) have t: "rd_tokens r ! n = str_tok p k 1" by (simp add: sits_Cons)
  from assms(2) have "sits (rd_json r) (Suc p) (escape k)"
    by (simp add: quoted_def sits_Cons sits_append)
  from sits_slice [OF this] have "tok_text r (str_tok p k 1) = escape k"
    by (simp add: tok_text_def str_tok_def nat_add_distrib)
  with t assms(3) escape_inject [of k key] show ?thesis
    by (auto simp: key_equals_def Let_def str_tok_def plain_key_def)
qed

lemma obj_items_Cons:
  "obj_items ((k, v) # ms) = (quoted k @ CHR '':'' # render v, member_toks k (json_toks v)) # obj_items ms"
  by (simp add: obj_items_def)

lemma find_members:
  assumes "plain_key key" and "rd_count r = length (rd_tokens r)"
    and "sits (rd_tokens r) n (placed p (obj_items ms))"
    and "sits (rd_json r) p (commas (map fst (obj_items ms)))"
    and "ms \<noteq> [] \<Longrightarrow> member = int n" and "N = idx + int (length ms)"
  shows "case map_of ms key of
      None \<Rightarrow> find_loop r key N idx member = -1
    | Some v \<Rightarrow> \<exists>m q. find_loop r key N idx member = int m \<and> node_at r m q v"
  using assms
proof (induction ms arbitrary: n p idx member)
  case Nil
  then show ?case by (simp add: find_loop.simps [of r key idx idx member])
next
  case (Cons m ms)
  obtain k v where m: "m = (k, v)" by (cases m)
  let ?t = "quoted k @ CHR '':'' # render v"
  let ?n = "Suc n + json_size v"
  let ?p = "p + length ?t + 1"
  have toks: "sits (rd_tokens r) n (str_tok p k 1 # json_toks v (p + length (quoted k) + 1))"
      "sits (rd_tokens r) ?n (placed ?p (obj_items ms))"
    using Cons.prems(3) by (simp_all add: m obj_items_Cons member_toks_def sits_Cons sits_append length_json_toks)
  have tx: "sits (rd_json r) p ?t"
    and more0: "ms \<noteq> [] \<Longrightarrow> sits (rd_json r) ?p (commas (map fst (obj_items ms)))"
    using Cons.prems(4) by (auto simp: m obj_items_Cons commas_Cons sits_append sits_Cons obj_items_def add.assoc)
  have member: "member = int n" using Cons.prems(5) by simp
  have vt: "sits (rd_tokens r) (Suc n) (json_toks v (p + length (quoted k) + 1))"
    using toks(1) by (simp add: sits_Cons)
  have "json_toks v (p + length (quoted k) + 1) \<noteq> []" by (cases v) simp_all
  from sits_less [OF vt this] Cons.prems(2) have inside: "Suc n < rd_count r" by simp
  have szs: "tk_size (rd_tokens r ! n) = 1" using toks(1) by (simp add: sits_Cons str_tok_def)
  have key: "key_equals r member key \<longleftrightarrow> k = key"
    unfolding member by (rule key_equals_member [OF toks(1) tx Cons.prems(1)])
  have unfold: "find_loop r key N idx member =
      (if k = key then int (Suc n) else find_loop r key N (idx + 1) (skip r (int (Suc n))))"
    by (subst find_loop.simps) (use inside szs key Cons.prems(6) in \<open>simp add: member add.commute\<close>)
  show ?case
  proof (cases "k = key")
    case True
    have "node_at r (Suc n) (p + length (quoted k) + 1) v"
      using vt tx Cons.prems(2) by (simp add: node_at_def sits_append sits_Cons)
    with True unfold show ?thesis by (simp add: m) (metis of_nat_Suc)
  next
    case False
    have skip: "ms \<noteq> [] \<Longrightarrow> skip r (int (Suc n)) = int ?n"
    proof -
      assume "ms \<noteq> []"
      then have "placed ?p (obj_items ms) \<noteq> []"
        by (cases ms) (auto simp: obj_items_Cons member_toks_def)
      from sits_less [OF toks(2) this] Cons.prems(2)
      show ?thesis using skip_node [OF Cons.prems(2) vt] by simp
    qed
    have more: "sits (rd_json r) ?p (commas (map fst (obj_items ms)))"
      using more0 by (cases "ms = []") (simp_all add: obj_items_def)
    have "N = idx + 1 + int (length ms)" using Cons.prems(6) by simp
    note IH = Cons.IH [OF Cons.prems(1,2) toks(2) more skip this]
    have "find_loop r key N idx member = find_loop r key N (idx + 1) (skip r (int (Suc n)))"
      using unfold False by (simp only: if_False)
    with IH show ?thesis using False by (simp only: m map_of_Cons_code if_False not_False_eq_True)
  qed
qed

lemma node_at_obj:
  assumes "node_at r n p (JObj ms)"
  shows "rd_count r = length (rd_tokens r)"
    and "rd_tokens r ! n = container_tok JSMN_OBJECT p (length (render (JObj ms))) (length ms)"
    and "sits (rd_tokens r) (Suc n) (placed (Suc p) (obj_items ms))"
    and "sits (rd_json r) (Suc p) (commas (map fst (obj_items ms)))"
proof -
  show "rd_count r = length (rd_tokens r)" using assms by (simp add: node_at_def)
  have "sits (rd_tokens r) n (json_toks (JObj ms) p)" using assms by (simp only: node_at_def)
  then show "rd_tokens r ! n = container_tok JSMN_OBJECT p (length (render (JObj ms))) (length ms)"
    and "sits (rd_tokens r) (Suc n) (placed (Suc p) (obj_items ms))"
    by (simp_all only: obj_toks sits_Cons) (simp_all add: obj_items_text, simp add: obj_items_def)
  show "sits (rd_json r) (Suc p) (commas (map fst (obj_items ms)))"
    using assms by (simp add: node_at_def sits_Cons sits_append obj_items_text)
qed

text \<open>\<open>find\<close> leads to the node of the first member with that key, and only there.\<close>

lemma node_types:
  assumes "node_at r n p v"
  shows "tok_valid r (int n)"
    and "tk_type (rd_tokens r ! n) = (case v of JObj _ \<Rightarrow> JSMN_OBJECT | JArr _ \<Rightarrow> JSMN_ARRAY
      | JStr _ \<Rightarrow> JSMN_STRING | _ \<Rightarrow> JSMN_PRIMITIVE)"
proof -
  have ne: "json_toks v p \<noteq> []" by (cases v) simp_all
  have s: "sits (rd_tokens r) n (json_toks v p)" using assms by (simp add: node_at_def)
  from sits_less [OF s ne] assms show "tok_valid r (int n)" by (simp add: node_at_def tok_valid_def)
  from s show "tk_type (rd_tokens r ! n) = (case v of JObj _ \<Rightarrow> JSMN_OBJECT | JArr _ \<Rightarrow> JSMN_ARRAY
      | JStr _ \<Rightarrow> JSMN_STRING | _ \<Rightarrow> JSMN_PRIMITIVE)"
    by (cases v) (simp_all add: sits_Cons prim_tok_def str_tok_def container_tok_def)
qed

lemma find_node:
  assumes "node r i v" and "plain_key key"
  shows "case json_member v key of
      None \<Rightarrow> find r i key = -1
    | Some u \<Rightarrow> node r (find r i key) u"
proof -
  from assms(1) obtain n p where i: "i = int n" and at: "node_at r n p v"
    by (metis node_def int_nat_eq)
  show ?thesis
  proof (cases "\<exists>ms. v = JObj ms")
    case False
    then have "\<not> is_object r i" and "json_member v key = None"
      using node_types [OF at] by (cases v; simp add: is_object_def i json_member_def)+
    then show ?thesis by (simp add: find_def)
  next
    case True
    then obtain ms where v: "v = JObj ms" by blast
    note o = node_at_obj [OF at [unfolded v]]
    have "is_object r i" using node_types [OF at] by (simp add: is_object_def i v)
    then have f: "find r i key = find_loop r key (int (length ms)) 0 (i + 1)"
      using o(2) by (simp add: find_def i container_tok_def)
    have "case map_of ms key of
        None \<Rightarrow> find_loop r key (int (length ms)) 0 (i + 1) = -1
      | Some v \<Rightarrow> \<exists>m q. find_loop r key (int (length ms)) 0 (i + 1) = int m \<and> node_at r m q v"
      by (rule find_members [OF assms(2) o(1,3,4)]) (simp_all add: i)
    then show ?thesis
      by (auto simp: f v json_member_def node_def split: option.splits)
  qed
qed

subsection \<open>Reading values\<close>

lemma str_tok_text:
  assumes "node_at r n p (JStr s)"
  shows "tok_text r (rd_tokens r ! n) = escape s"
proof -
  have t: "rd_tokens r ! n = str_tok p s 0" using assms by (simp add: node_at_def sits_Cons)
  have "sits (rd_json r) (Suc p) (escape s)"
    using assms by (simp add: node_at_def quoted_def sits_Cons sits_append)
  from sits_slice [OF this] t show ?thesis by (simp add: tok_text_def str_tok_def nat_add_distrib)
qed

lemma prim_tok_text:
  assumes "node_at r n p v" and "json_toks v p = [prim_tok p (render v)]"
  shows "tok_text r (rd_tokens r ! n) = render v"
proof -
  have t: "rd_tokens r ! n = prim_tok p (render v)" using assms by (simp add: node_at_def sits_Cons)
  have "sits (rd_json r) p (render v)" using assms by (simp add: node_at_def)
  from sits_slice [OF this] t show ?thesis by (simp add: tok_text_def prim_tok_def nat_add_distrib)
qed

lemma str_at_node:
  assumes "node r i v"
  shows "str_at r i cap =
    (case v of
       JStr s \<Rightarrow> if cap = 0 then (False, [])
                 else if length s < cap then (True, s) else (False, take (cap - 1) s)
     | _ \<Rightarrow> (False, []))"
proof -
  from assms obtain n p where i: "i = int n" and at: "node_at r n p v"
    by (metis node_def int_nat_eq)
  show ?thesis
    using node_types [OF at] str_tok_text at str_loop_escape [of "[]" _ cap]
      str_loop_escape_long [of "[]" cap]
    by (cases v) (auto simp: str_at_def i)
qed

lemma child_count_node:
  assumes "node r i v"
  shows "child_count r i = (case v of JObj ms \<Rightarrow> int (length ms) | JArr vs \<Rightarrow> int (length vs) | _ \<Rightarrow> 0)"
proof -
  from assms obtain n p where i: "i = int n" and at: "node_at r n p v"
    by (metis node_def int_nat_eq)
  with node_types(1) [OF at] show ?thesis
    by (cases v) (auto simp: child_count_def node_at_def sits_Cons container_tok_def prim_tok_def str_tok_def)
qed

lemma is_object_node: "node r i v \<Longrightarrow> is_object r i \<longleftrightarrow> (\<exists>ms. v = JObj ms)"
proof -
  assume "node r i v"
  then obtain n p where i: "i = int n" and at: "node_at r n p v" by (metis node_def int_nat_eq)
  with node_types [OF at] show ?thesis by (cases v) (simp_all add: is_object_def)
qed

lemma raw_node:
  assumes "node r i v" and "\<And>p. json_toks v p = [prim_tok p (render v)]"
  shows "raw r i = Some (render v)" and "tk_type (tok_at r i) = JSMN_PRIMITIVE"
proof -
  from assms obtain n p where i: "i = int n" and at: "node_at r n p v" by (metis node_def int_nat_eq)
  from node_types(1) [OF at] prim_tok_text [OF at assms(2)] show "raw r i = Some (render v)"
    by (simp add: raw_def i)
  from at assms(2) show "tk_type (tok_at r i) = JSMN_PRIMITIVE"
    by (simp add: i node_at_def sits_Cons prim_tok_def)
qed

text \<open>Decimal text read back by \<open>strtoll\<close>.\<close>

lemma dec_val_snoc: "dec_val (ds @ [d]) = dec_val ds * 10 + (of_char d - 48)"
  by (simp add: dec_val_def)

lemma digit_value:
  assumes "n < 10" shows "(of_char (char_of (48 + n) :: char) - 48 :: int) = int n"
proof -
  have "(of_char (char_of (48 + n) :: char) :: int) = int (48 + n)"
  proof -
    have "(of_char (char_of (48 + n) :: char) :: int) = int (of_char (char_of (48 + n) :: char))"
      by (rule of_nat_of_char [symmetric])
    moreover have "byte (char_of (48 + n)) = 48 + n" using assms by (intro byte_char_of) simp
    ultimately show ?thesis by (simp only:)
  qed
  then show ?thesis by simp
qed

lemma dec_val_digits: "dec_val (dec_digits n) = int n"
proof (induction n rule: dec_digits.induct)
  case (1 n)
  show ?case
  proof (cases "n < 10")
    case True
    then show ?thesis using digit_value [of n]
      by (simp add: dec_digits.simps [of n] dec_val_def)
  next
    case False
    have "int (n div 10) * 10 + int (n mod 10) = int (n div 10 * 10 + n mod 10)"
      by (simp only: of_nat_add of_nat_mult of_nat_numeral)
    then have "int (n div 10) * 10 + int (n mod 10) = int n" by (simp only: div_mult_mod_eq)
    moreover have "dec_val (dec_digits n) = dec_val (dec_digits (n div 10)) * 10 + int (n mod 10)"
      using False digit_value [of "n mod 10"] by (simp add: dec_digits.simps [of n] dec_val_snoc)
    ultimately show ?thesis using 1 False by simp
  qed
qed

lemma takeWhile_digits: "takeWhile is_digit (dec_digits n) = dec_digits n"
  using digits_shape [of n] by (simp add: takeWhile_eq_all_conv)

lemma strtoll10_dec:
  "strtoll10 (dec_text i) = (max LLONG_MIN (min LLONG_MAX i), length (dec_text i), i < LLONG_MIN \<or> i > LLONG_MAX)"
proof -
  have ne: "dec_digits n \<noteq> []" and hd: "is_digit (hd (dec_digits n))" for n
    using digits_shape [of n] by simp_all
  have nospace: "takeWhile is_space (dec_digits n) = []" for n
  proof (cases "dec_digits n")
    case (Cons d es)
    with hd [of n] have "is_digit d" by simp
    then have "\<not> is_space d" by (auto simp: is_digit_def is_space_def)
    with Cons show ?thesis by simp
  qed simp
  have nosign: "hd (dec_digits n) \<noteq> CHR ''-'' \<and> hd (dec_digits n) \<noteq> CHR ''+''" for n
    using hd [of n] by (auto simp: is_digit_def)
  have minus: "\<not> is_space CHR ''-''" by (simp add: is_space_def)
  show ?thesis
  proof (cases "i < 0")
    case True
    with ne minus show ?thesis
      by (simp add: strtoll10_def dec_text_def dec_val_digits takeWhile_digits Let_def)
  next
    case False
    with ne nospace nosign show ?thesis
      by (simp add: strtoll10_def dec_text_def dec_val_digits takeWhile_digits Let_def)
  qed
qed

lemma length_dec_text64: "LLONG_MIN \<le> i \<Longrightarrow> i \<le> LLONG_MAX \<Longrightarrow> length (dec_text i) \<le> 20"
  using length_dec_text_sint [of "word_of_int i"] by (simp add: sint_word64)

text \<open>The text of a primitive in \<open>int_at\<close>'s zero-filled buffer.\<close>

lemma int_at_raw:
  assumes "raw r i = Some x" and "tk_type (tok_at r i) = JSMN_PRIMITIVE" and "NUL \<notin> set x"
  shows "int_at r i = (if x = [] \<or> length x > 20 then None
    else let (v, end', erange) = strtoll10 x in
      if end' = 0 \<or> end' \<noteq> length x \<or> erange then None else Some v)"
proof (cases "x = [] \<or> length x > 20")
  case True
  with assms show ?thesis by (auto simp: int_at_def)
next
  case False
  let ?number = "memcpy (replicate 24 NUL) 0 x"
  have "24 - length x = Suc (23 - length x)" using False by linarith
  then have number: "?number = x @ NUL # replicate (23 - length x) NUL"
    by (simp add: memcpy_def)
  then have c: "cstr ?number = x" using assms(3) by simp
  obtain v e er where st: "strtoll10 x = (v, e, er)" by (metis prod_cases3)
  from strtoll10_end [OF st] have "?number ! e = NUL \<longleftrightarrow> e = length x"
    using assms(3) number by (metis le_neq_implies_less nth_append nth_append_length nth_mem)
  with False assms c st show ?thesis by (simp add: int_at_def)
qed

lemma int_at_node:
  assumes "node r i v"
  shows "int_at r i =
    (case v of JInt z \<Rightarrow> if LLONG_MIN \<le> z \<and> z \<le> LLONG_MAX then Some z else None | _ \<Rightarrow> None)"
proof (cases v)
  case (JInt z)
  have "json_toks v p = [prim_tok p (render v)]" for p using JInt by simp
  note raw = raw_node [OF assms this]
  have "dec_text z \<noteq> []" using digits_shape by (simp add: dec_text_def)
  with int_at_raw [OF raw] show ?thesis
    using strtoll10_dec [of z] length_dec_text64 [of z] nul_free_dec_text [of z] JInt by auto
next
  case JNull
  have "json_toks v p = [prim_tok p (render v)]" for p using JNull by simp
  note raw = raw_node [OF assms this]
  have "strtoll10 ''null'' = (0, 0, False)" by code_simp
  with int_at_raw [OF raw] JNull show ?thesis by simp
next
  case (JBool b)
  have "json_toks v p = [prim_tok p (render v)]" for p using JBool by simp
  note raw = raw_node [OF assms this]
  have "strtoll10 ''true'' = (0, 0, False)" "strtoll10 ''false'' = (0, 0, False)" by code_simp+
  with int_at_raw [OF raw] JBool show ?thesis by (cases b) simp_all
next
  case (JStr s)
  obtain n p where "i = int n" "node_at r n p v" using assms by (metis node_def int_nat_eq)
  with node_types [of r n p v] JStr show ?thesis by (simp add: int_at_def raw_def)
next
  case (JArr vs)
  obtain n p where "i = int n" "node_at r n p v" using assms by (metis node_def int_nat_eq)
  with node_types [of r n p v] JArr show ?thesis by (simp add: int_at_def raw_def)
next
  case (JObj ms)
  obtain n p where "i = int n" "node_at r n p v" using assms by (metis node_def int_nat_eq)
  with node_types [of r n p v] JObj show ?thesis by (simp add: int_at_def raw_def)
qed

lemma missing [simp]: "str_at r (-1) cap = (False, [])" "int_at r (-1) = None" "raw r (-1) = None"
  "child_count r (-1) = 0" "\<not> is_object r (-1)" "find r (-1) key = -1"
  by (simp_all add: str_at_def int_at_def raw_def tok_valid_def child_count_def is_object_def find_def)

subsection \<open>The getters by key\<close>

definition json_str :: "nat \<Rightarrow> json option \<Rightarrow> bool \<times> string" where
  "json_str cap v =
    (case v of
       Some (JStr s) \<Rightarrow> if cap = 0 then (False, [])
                        else if length s < cap then (True, s) else (False, take (cap - 1) s)
     | _ \<Rightarrow> (False, []))"

definition json_int :: "json option \<Rightarrow> int option" where
  "json_int v =
    (case v of Some (JInt z) \<Rightarrow> if LLONG_MIN \<le> z \<and> z \<le> LLONG_MAX then Some z else None | _ \<Rightarrow> None)"

definition json_bool :: "json option \<Rightarrow> bool option" where
  "json_bool v = (case v of Some (JBool b) \<Rightarrow> Some b | _ \<Rightarrow> None)"

lemma get_str_node:
  assumes "node r i v" and "plain_key key"
  shows "get_str r i key cap = json_str cap (json_member v key)"
  using find_node [OF assms]
  by (auto simp: get_str_def json_str_def str_at_node split: option.splits json.splits)

lemma get_int_node:
  assumes "node r i v" and "plain_key key"
  shows "get_int r i key = json_int (json_member v key)"
  using find_node [OF assms]
  by (auto simp: get_int_def json_int_def int_at_node split: option.splits json.splits)

lemma dec_text_not_word: "dec_text z \<noteq> ''true'' \<and> dec_text z \<noteq> ''false''"
proof -
  have "dec_digits n \<noteq> c # cs" if "\<not> is_digit c" for n c cs
    using digits_shape [of n] that by auto
  then show ?thesis by (simp add: dec_text_def is_digit_def)
qed

lemma get_bool_node:
  assumes "node r i v" and "plain_key key"
  shows "get_bool r i key = json_bool (json_member v key)"
proof (cases "json_member v key")
  case None
  with find_node [OF assms] show ?thesis by (simp add: get_bool_def json_bool_def)
next
  case (Some u)
  with find_node [OF assms] have u: "node r (find r i key) u" by simp
  then obtain n p where n: "find r i key = int n" "node_at r n p u"
    by (metis node_def int_nat_eq)
  show ?thesis
  proof (cases "u = JNull \<or> (\<exists>b. u = JBool b) \<or> (\<exists>z. u = JInt z)")
    case True
    then have "json_toks u p = [prim_tok p (render u)]" for p by auto
    from raw_node [OF u this] Some True show ?thesis
      by (auto simp: get_bool_def json_bool_def dec_text_not_word split: if_splits)
  next
    case False
    with n node_types [OF n(2)] Some show ?thesis
      by (cases u) (simp_all add: get_bool_def json_bool_def raw_def)
  qed
qed

subsection \<open>The reader's contract\<close>

text \<open>
  What the decoders and the answers to the device's own calls rely on: lookups and getters answer
  from the value a token stands for, and a missing token has no members.
\<close>

locale json_document =
  fixes holds :: "'d \<Rightarrow> int \<Rightarrow> json \<Rightarrow> bool"
    and lookup :: "'d \<Rightarrow> int \<Rightarrow> string \<Rightarrow> int"
    and str_of :: "'d \<Rightarrow> int \<Rightarrow> string \<Rightarrow> nat \<Rightarrow> bool \<times> string"
    and num_of :: "'d \<Rightarrow> int \<Rightarrow> string \<Rightarrow> int option"
    and flag_of :: "'d \<Rightarrow> int \<Rightarrow> string \<Rightarrow> bool option"
  assumes law_lookup: "holds d i v \<Longrightarrow> plain_key k \<Longrightarrow>
      case json_member v k of None \<Rightarrow> lookup d i k = -1 | Some u \<Rightarrow> holds d (lookup d i k) u"
    and law_str: "holds d i v \<Longrightarrow> plain_key k \<Longrightarrow> str_of d i k cap = json_str cap (json_member v k)"
    and law_num: "holds d i v \<Longrightarrow> plain_key k \<Longrightarrow> num_of d i k = json_int (json_member v k)"
    and law_flag: "holds d i v \<Longrightarrow> plain_key k \<Longrightarrow> flag_of d i k = json_bool (json_member v k)"
    and law_missing: "str_of d (-1) k cap = (False, [])" "num_of d (-1) k = None"
begin

lemma nested_str:
  assumes "holds d i v" and "plain_key k1" and "plain_key k2"
  shows "str_of d (lookup d i k1) k2 cap =
    json_str cap (Option.bind (json_member v k1) (\<lambda>u. json_member u k2))"
  using law_lookup [OF assms(1,2)] law_str [OF _ assms(3)] law_missing
  by (cases "json_member v k1") (simp_all add: json_str_def)

lemma nested_num:
  assumes "holds d i v" and "plain_key k1" and "plain_key k2"
  shows "num_of d (lookup d i k1) k2 =
    json_int (Option.bind (json_member v k1) (\<lambda>u. json_member u k2))"
  using law_lookup [OF assms(1,2)] law_num [OF _ assms(3)] law_missing
  by (cases "json_member v k1") (simp_all add: json_int_def)

end

interpretation reader: json_document node find get_str get_int get_bool
  by unfold_locales
    (simp_all add: find_node get_str_node get_int_node get_bool_node, simp_all add: get_str_def get_int_def)

subsection \<open>Properties\<close>

text \<open>
  C7: What the writer writes, the reader reads back. For every object (any nesting, strings of any
  bytes) whose tokens fit the token array, \<open>parse\<close> of its text succeeds, and every lookup of a
  plain key answers with the first member of that name: its string (cut off and refused when the
  caller's buffer is too small), its number, its boolean, and nothing for a missing key or a value
  of another type. The same holds one level down, through \<open>find\<close>.
\<close>

theorem reader_reads_text:
  assumes "json_size (JObj ms) \<le> rd_max_tokens r" and "plain_key k" and "plain_key k2"
  shows "\<exists>r'. reader_parse (render (JObj ms)) r = (ESP_OK, r') \<and>
    get_str r' 0 k cap = json_str cap (map_of ms k) \<and>
    get_int r' 0 k = json_int (map_of ms k) \<and>
    get_bool r' 0 k = json_bool (map_of ms k) \<and>
    (find r' 0 k = -1 \<longleftrightarrow> map_of ms k = None) \<and>
    get_str r' (find r' 0 k) k2 cap = json_str cap (Option.bind (map_of ms k) (\<lambda>u. json_member u k2)) \<and>
    get_int r' (find r' 0 k) k2 = json_int (Option.bind (map_of ms k) (\<lambda>u. json_member u k2))"
proof -
  from reader_parse_render [OF assms(1)] obtain r' where
    parse: "reader_parse (render (JObj ms)) r = (ESP_OK, r')" and root: "node r' 0 (JObj ms)"
    by blast
  have m: "json_member (JObj ms) k = map_of ms k" by (simp add: json_member_def)
  have "find r' 0 k = -1 \<longleftrightarrow> map_of ms k = None"
    using reader.law_lookup [OF root assms(2)] by (auto simp: m node_def split: option.splits)
  with parse root assms(2,3) m show ?thesis
    by (simp del: render.simps add: reader.law_str reader.law_num reader.law_flag
        reader.nested_str reader.nested_num)
qed

theorem reader_reads_text_witness:
  "\<exists>r'. reader_parse (render (JObj [(''a'', JObj [(''b'', JInt 7)]), (''c'', JStr ''x'')])) (sc_json_doc 8) =
      (ESP_OK, r') \<and>
    get_str r' 0 ''a'' 4 = (False, []) \<and> get_int r' (find r' 0 ''a'') ''b'' = Some 7"
proof -
  have "plain_key ''a''" "plain_key ''b''" by (simp_all add: plain_key_def escape_char_def)
  from reader_reads_text [of "[(''a'', JObj [(''b'', JInt 7)]), (''c'', JStr ''x'')]" "sc_json_doc 8",
      OF _ this, of 4]
  show ?thesis
    by (auto simp: sc_json_doc_def json_str_def json_int_def json_member_def simp del: render.simps)
qed

end
