(* ===== verification/Codec.thy ===== *)
theory Codec
  imports Json_Lookup
begin

text \<open>
  The messages of \<open>src/sc_messages.hpp\<close> and their encoding in \<open>src/sc_codec.cpp\<close>.

  A \<open>const char *\<close> is a \<open>string option\<close> (None: null). The \<open>char\<close> arrays of the decoded messages are
  whole buffers of their C size, of which a reader sees the C string (\<open>cstr\<close>). An encoder returns
  its error code, the length it stored in \<open>*out_len\<close> (on success) and the buffer. The status
  callback is a parameter: it may transform the writer.
\<close>

subsection \<open>Messages\<close>

record sc_status_msg =
  sm_birth :: bool
  sm_uptime_ms :: u64
  sm_boot_id :: u32
  sm_reset_reason :: int
  sm_fw_version :: "string option"
  sm_project :: "string option"
  sm_sdk_version :: "string option"
  sm_elf_sha256 :: "u8 list option"
  sm_chip :: "string option"
  sm_heap_free :: u32
  sm_heap_min_free :: u32

record sc_ota_params =
  op_url :: string
  op_sha256 :: string
  op_size :: u32
  op_version :: string
  op_task_id :: string

record sc_ota_event =
  oe_task_id :: "string option"
  oe_state :: "string option"
  oe_progress :: int
  oe_error :: "string option"

record sc_log_config =
  lc_level :: int
  lc_text :: int
  lc_bin :: int

record sc_enroll_request =
  er_token :: "string option"
  er_hardware_id :: "string option"
  er_platform :: "string option"
  er_chip :: "string option"
  er_fw_version :: "string option"
  er_name :: "string option"

record sc_enroll_response =
  en_device_id :: string
  en_password :: string
  en_mqtt_url :: string

definition ota_params_init :: sc_ota_params where
  "ota_params_init = \<lparr>op_url = replicate 384 NUL, op_sha256 = replicate 65 NUL, op_size = 0,
     op_version = replicate 33 NUL, op_task_id = replicate 40 NUL\<rparr>"

definition log_config_init :: sc_log_config where
  "log_config_init = \<lparr>lc_level = -1, lc_text = -1, lc_bin = -1\<rparr>"

definition enroll_response_init :: sc_enroll_response where
  "enroll_response_init = \<lparr>en_device_id = replicate 16 NUL, en_password = replicate 48 NUL,
     en_mqtt_url = replicate 160 NUL\<rparr>"

subsection \<open>Encoders\<close>

type_synonym encoded = "esp_err \<times> nat option \<times> string"

definition finish :: "sc_json_writer \<Rightarrow> encoded" where
  "finish out =
     (if \<not> jw_ok out then (ESP_ERR_NO_MEM, None, jw_buf out)
      else (ESP_OK, Some (jw_len out), jw_buf out))"

definition encode_status ::
    "sc_status_msg \<Rightarrow> (sc_json_writer \<Rightarrow> sc_json_writer) option \<Rightarrow> string \<Rightarrow> nat \<Rightarrow> encoded" where
  "encode_status msg extra buf cap =
     (let out = sc_json_writer (Some buf) cap;
          out = begin_object None out;
          out = (if sm_birth msg then add_bool (Some ''birth'') True out else out);
          out = add_uint (Some ''uptimeMs'') (sm_uptime_ms msg) out;
          out = add_uint (Some ''bootId'') (ucast (sm_boot_id msg)) out;
          out = add_int (Some ''resetReason'') (word_of_int (sm_reset_reason msg)) out;
          out = begin_object (Some ''fw'') out;
          out = add_str (Some ''version'') (sm_fw_version msg) out;
          out = (case sm_elf_sha256 msg of
                   None \<Rightarrow> out | Some sha \<Rightarrow> add_hex (Some ''elfSha256'') (take 32 sha) out);
          out = add_str (Some ''project'') (sm_project msg) out;
          out = add_str (Some ''sdk'') (sm_sdk_version msg) out;
          out = end_object out;
          out = add_str (Some ''chip'') (sm_chip msg) out;
          out = end_object (add_uint (Some ''minFree'') (ucast (sm_heap_min_free msg))
                  (add_uint (Some ''free'') (ucast (sm_heap_free msg)) (begin_object (Some ''heap'') out)));
          out = (case extra of None \<Rightarrow> out | Some cb \<Rightarrow> cb out);
          out = end_object out
      in finish out)"

definition encode_ota_event :: "sc_ota_event \<Rightarrow> string \<Rightarrow> nat \<Rightarrow> encoded" where
  "encode_ota_event evt buf cap =
     (let out = sc_json_writer (Some buf) cap;
          out = add_str (Some ''state'') (oe_state evt)
                  (add_str (Some ''taskId'') (oe_task_id evt) (begin_object None out));
          out = (if oe_progress evt \<ge> 0
                 then add_int (Some ''progress'') (word_of_int (oe_progress evt)) out else out);
          out = (case oe_error evt of None \<Rightarrow> out | Some e \<Rightarrow> add_str (Some ''error'') (Some e) out);
          out = end_object out
      in finish out)"

definition encode_enroll_request :: "sc_enroll_request \<Rightarrow> string \<Rightarrow> nat \<Rightarrow> encoded" where
  "encode_enroll_request req buf cap =
     (let out = sc_json_writer (Some buf) cap;
          out = begin_object None out;
          out = add_str (Some ''platform'') (er_platform req)
                  (add_str (Some ''hardwareId'') (er_hardware_id req)
                    (add_str (Some ''token'') (er_token req) out));
          out = add_str (Some ''fwVersion'') (er_fw_version req)
                  (add_str (Some ''chip'') (er_chip req) out);
          out = (case er_name req of
                   None \<Rightarrow> out
                 | Some name \<Rightarrow> if cstr name \<noteq> [] then add_str (Some ''name'') (Some name) out else out);
          out = end_object out
      in finish out)"

subsection \<open>Decoders\<close>

definition decode_enroll_response ::
    "string \<Rightarrow> sc_enroll_response \<Rightarrow> esp_err \<times> sc_enroll_response" where
  "decode_enroll_response payload out =
     (let (ret, doc) = reader_parse payload (sc_json_doc 48) in
      if ret \<noteq> ESP_OK then (ret, out)
      else
        let mqtt = find doc 0 ''mqtt'';
            s1 = get_str doc 0 ''deviceId'' 16;
            out = out\<lparr>en_device_id := write_out (en_device_id out) s1\<rparr> in
        if \<not> fst s1 then (ESP_ERR_INVALID_RESPONSE, out)
        else
          let s2 = get_str doc mqtt ''password'' 48;
              out = out\<lparr>en_password := write_out (en_password out) s2\<rparr> in
          if \<not> fst s2 then (ESP_ERR_INVALID_RESPONSE, out)
          else
            let s3 = get_str doc mqtt ''url'' 160;
                out = out\<lparr>en_mqtt_url := write_out (en_mqtt_url out) s3\<rparr> in
            if \<not> fst s3 then (ESP_ERR_INVALID_RESPONSE, out) else (ESP_OK, out))"

abbreviation UINT32_MAX :: int where "UINT32_MAX \<equiv> 2 ^ 32 - 1"

definition decode_ota_params ::
    "sc_json_reader \<Rightarrow> int \<Rightarrow> sc_ota_params \<Rightarrow> esp_err \<times> sc_ota_params" where
  "decode_ota_params doc object out =
     (let s1 = get_str doc object ''url'' 384;
          out = out\<lparr>op_url := write_out (op_url out) s1\<rparr> in
      if \<not> fst s1 then (ESP_ERR_INVALID_ARG, out)
      else
        let s2 = get_str doc object ''sha256'' 65;
            out = out\<lparr>op_sha256 := write_out (op_sha256 out) s2\<rparr> in
        if \<not> fst s2 \<or> length (cstr (op_sha256 out)) \<noteq> 64 then (ESP_ERR_INVALID_ARG, out)
        else
          case get_int doc object ''size'' of
            None \<Rightarrow> (ESP_ERR_INVALID_ARG, out)
          | Some sz \<Rightarrow>
              if \<not> (sz > 0 \<and> sz \<le> UINT32_MAX) then (ESP_ERR_INVALID_ARG, out)
              else
                let s3 = get_str doc object ''taskId'' 40;
                    out = out\<lparr>op_task_id := write_out (op_task_id out) s3\<rparr> in
                if \<not> fst s3 then (ESP_ERR_INVALID_ARG, out)
                else
                  let out = out\<lparr>op_size := word_of_int sz\<rparr>;
                      s4 = get_str doc object ''version'' 33;
                      ver = write_out (op_version out) s4 in
                  (ESP_OK, out\<lparr>op_version := (if fst s4 then ver else ver[0 := NUL])\<rparr>))"

definition level_names :: "string list" where
  "level_names = [''none'', ''error'', ''warn'', ''info'', ''debug'', ''verbose'']"

fun level_index :: "string \<Rightarrow> string list \<Rightarrow> int \<Rightarrow> int" where
  "level_index name [] idx = -1"
| "level_index name (n # ns) idx = (if name = n then idx else level_index name ns (idx + 1))"

text \<open>The argument is the C string in \<open>name\<close>.\<close>

definition level_from_name :: "string \<Rightarrow> int" where
  "level_from_name name = level_index name level_names 0"

text \<open>
  One pass over \<open>tags\<close>. It returns whether every entry was valid, and the calls of \<open>set_tag\<close>; a
  buffer just filled by \<open>str_at\<close> is read as a C string.
\<close>

function tags_pass ::
    "sc_json_reader \<Rightarrow> int \<Rightarrow> bool \<Rightarrow> int \<Rightarrow> int \<Rightarrow> (string \<times> int) list \<Rightarrow> bool \<times> (string \<times> int) list" where
  "tags_pass doc n apply' idx member calls =
     (if idx < n \<and> member \<ge> 0
      then let s1 = str_at doc member 32;
               s2 = (if fst s1 then str_at doc (member + 1) 16 else (False, [])) in
           if \<not> fst s1 \<or> \<not> fst s2 \<or> level_from_name (cstr (snd s2)) < 0 then (False, calls)
           else tags_pass doc n apply' (idx + 1) (skip doc (member + 1))
                  (if apply' then calls @ [(cstr (snd s1), level_from_name (cstr (snd s2)))] else calls)
      else (True, calls))"
  by pat_completeness auto
termination
  by (relation "measure (\<lambda>(doc, n, apply', idx, member, calls). nat (n - idx))") auto

declare tags_pass.simps [simp del]

definition decode_log_config ::
    "sc_json_reader \<Rightarrow> sc_log_config \<Rightarrow> esp_err \<times> sc_log_config \<times> (string \<times> int) list" where
  "decode_log_config doc out =
     (let s1 = get_str doc 0 ''level'' 16;
          out = (if fst s1 then out\<lparr>lc_level := level_from_name (cstr (snd s1))\<rparr> else out) in
      if fst s1 \<and> lc_level out < 0 then (ESP_ERR_INVALID_ARG, out, [])
      else
        let out = (case get_bool doc 0 ''text'' of
                     None \<Rightarrow> out | Some flag \<Rightarrow> out\<lparr>lc_text := (if flag then 1 else 0)\<rparr>);
            out = (case get_bool doc 0 ''bin'' of
                     None \<Rightarrow> out | Some flag \<Rightarrow> out\<lparr>lc_bin := (if flag then 1 else 0)\<rparr>);
            tags = find doc 0 ''tags'' in
        if tags < 0 then (ESP_OK, out, [])
        else if \<not> is_object doc tags then (ESP_ERR_INVALID_ARG, out, [])
        else
          let n = child_count doc tags;
              (ok0, calls0) = tags_pass doc n False 0 (tags + 1) [] in
          if \<not> ok0 then (ESP_ERR_INVALID_ARG, out, calls0)
          else
            let (ok1, calls1) = tags_pass doc n True 0 (tags + 1) calls0 in
            if \<not> ok1 then (ESP_ERR_INVALID_ARG, out, calls1) else (ESP_OK, out, calls1))"

subsection \<open>What the encoders write\<close>

text \<open>
  The outcome of encoding \<open>text\<close> into a buffer of \<open>cap\<close> bytes: the buffer holds exactly that text
  and its length is reported, or \<open>ESP_ERR_NO_MEM\<close> when it does not fit with its final NUL.
\<close>

definition encodes :: "encoded \<Rightarrow> nat \<Rightarrow> string \<Rightarrow> bool" where
  "encodes res cap x \<longleftrightarrow>
     (\<exists>b. length b = cap \<and>
       (if length x < cap then res = (ESP_OK, Some (length x), b) \<and> cstr b = x
        else res = (ESP_ERR_NO_MEM, None, b)))"

lemma finish_encodes:
  assumes "writes w a" and "\<not> tw_bad a" and "NUL \<notin> set (tw_text a)"
  shows "encodes (finish w) (jw_cap w) (tw_text a)"
proof -
  have len: "length (jw_buf w) = jw_cap w" using assms(1) by (simp add: writes_def jw_wf_def)
  show ?thesis
  proof (cases "length (tw_text a) < jw_cap w")
    case True
    with assms have ok: "jw_ok w" and "jw_len w = length (tw_text a)"
      by (auto simp: writes_def jw_len_def)
    moreover have "cstr (jw_buf w) = tw_text a"
      using writes_c_str [OF assms(1) ok assms(3)] by (simp add: jw_c_str_def)
    ultimately show ?thesis using True len by (simp add: encodes_def finish_def)
  next
    case False
    with assms have "\<not> jw_ok w" by (auto simp: writes_def)
    with False len show ?thesis by (simp add: encodes_def finish_def)
  qed
qed

lemma finish_run_encodes:
  assumes "length buf = cap" and "0 < cap" and "tw_run cs tw_init = \<lparr>tw_text = x, tw_stack = st, tw_bad = False\<rparr>"
  shows "encodes (finish (jw_run cs (sc_json_writer (Some buf) cap))) cap x"
proof -
  have "writes (jw_run cs (sc_json_writer (Some buf) cap)) (tw_run cs tw_init)"
    by (rule writes_run [OF writes_init [OF assms(1,2)]])
  moreover have "NUL \<notin> set (tw_text (tw_run cs tw_init))"
    by (rule tw_run_nul_free) (simp add: tw_init_def)
  moreover have "jw_cap (sc_json_writer (Some buf) cap) = cap"
    by (simp add: sc_json_writer_def jw_reset_def Let_def)
  ultimately show ?thesis using finish_encodes assms(3) by fastforce
qed

definition str_json :: "string option \<Rightarrow> json" where
  "str_json s = (case s of None \<Rightarrow> JNull | Some x \<Rightarrow> JStr (cstr x))"

definition status_json :: "sc_status_msg \<Rightarrow> (string \<times> json) list \<Rightarrow> json" where
  "status_json msg extra = JObj
     ((if sm_birth msg then [(''birth'', JBool True)] else []) @
      [(''uptimeMs'', JInt (uint (sm_uptime_ms msg))),
       (''bootId'', JInt (uint (sm_boot_id msg))),
       (''resetReason'', JInt (sm_reset_reason msg)),
       (''fw'', JObj
          ([(''version'', str_json (sm_fw_version msg))] @
           (case sm_elf_sha256 msg of
              None \<Rightarrow> [] | Some sha \<Rightarrow> [(''elfSha256'', JStr (hex_text (take 32 sha)))]) @
           [(''project'', str_json (sm_project msg)), (''sdk'', str_json (sm_sdk_version msg))])),
       (''chip'', str_json (sm_chip msg)),
       (''heap'', JObj [(''free'', JInt (uint (sm_heap_free msg))),
                        (''minFree'', JInt (uint (sm_heap_min_free msg)))])] @ extra)"

definition ota_event_json :: "sc_ota_event \<Rightarrow> json" where
  "ota_event_json evt = JObj
     ([(''taskId'', str_json (oe_task_id evt)), (''state'', str_json (oe_state evt))] @
      (if oe_progress evt \<ge> 0 then [(''progress'', JInt (oe_progress evt))] else []) @
      (case oe_error evt of None \<Rightarrow> [] | Some e \<Rightarrow> [(''error'', JStr (cstr e))]))"

definition enroll_request_json :: "sc_enroll_request \<Rightarrow> json" where
  "enroll_request_json req = JObj
     ([(''token'', str_json (er_token req)), (''hardwareId'', str_json (er_hardware_id req)),
       (''platform'', str_json (er_platform req)), (''chip'', str_json (er_chip req)),
       (''fwVersion'', str_json (er_fw_version req))] @
      (case er_name req of
         None \<Rightarrow> []
       | Some name \<Rightarrow> if cstr name \<noteq> [] then [(''name'', JStr (cstr name))] else []))"

text \<open>
  Calls that add members. In an object they append the members' text and leave the other
  containers alone; \<open>d\<close> is how much deeper they nest.
\<close>

definition member_text :: "string \<times> json \<Rightarrow> string" where
  "member_text m = quoted (fst m) @ CHR '':'' # render (snd m)"

definition adds :: "nat \<Rightarrow> jw_call list \<Rightarrow> (string \<times> json) list \<Rightarrow> bool" where
  "adds d cs ms \<longleftrightarrow>
     (\<forall>a b bs. tw_stack a = b # bs \<longrightarrow> \<not> tw_bad a \<longrightarrow> length (tw_stack a) + d \<le> MAX_DEPTH \<longrightarrow>
        tw_run cs a = a\<lparr>tw_text := tw_text a @ items_text b (map member_text ms),
                        tw_stack := (b \<or> ms \<noteq> []) # bs\<rparr>)"

lemma addsD:
  "adds d cs ms \<Longrightarrow> tw_stack a = b # bs \<Longrightarrow> \<not> tw_bad a \<Longrightarrow> Suc (length bs) + d \<le> MAX_DEPTH \<Longrightarrow>
    tw_run cs a = a\<lparr>tw_text := tw_text a @ items_text b (map member_text ms),
                    tw_stack := (b \<or> ms \<noteq> []) # bs\<rparr>"
  by (simp add: adds_def)

lemma items_text_append:
  "items_text b (xs @ ys) = items_text b xs @ items_text (b \<or> xs \<noteq> []) ys"
  by (induction xs arbitrary: b) simp_all

lemma render_obj: "render (JObj ms) = CHR ''{'' # items_text False (map member_text ms) @ ''}''"
  by (simp add: items_text_commas member_text_def [abs_def] case_prod_unfold)

lemma adds_Nil: "adds d [] []"
  by (simp add: adds_def)

lemma adds_append: "adds d cs ms \<Longrightarrow> adds d ds ns \<Longrightarrow> adds d (cs @ ds) (ms @ ns)"
  by (simp add: adds_def items_text_append)

lemma adds_mono: "adds d cs ms \<Longrightarrow> d \<le> e \<Longrightarrow> adds e cs ms"
  by (simp add: adds_def)

lemma adds_leaf:
  "(\<And>a. tw_do c a = tw_leaf (Some k) (render v) a) \<Longrightarrow> adds d [c] [(k, v)]"
  by (simp add: adds_def key_text_def member_text_def)

lemma adds_str: "adds d [AddStr (Some k) s] [(k, str_json s)]"
  by (rule adds_leaf) (simp add: str_json_def split: option.splits)

lemma adds_cstr: "adds d [AddStr (Some k) (Some s)] [(k, JStr (cstr s))]"
  by (rule adds_leaf) simp

lemma adds_uint: "adds d [AddUint (Some k) v] [(k, JInt (uint v))]"
  by (rule adds_leaf) simp

lemma adds_int: "- (2 ^ 63) \<le> i \<Longrightarrow> i < 2 ^ 63 \<Longrightarrow> adds d [AddInt (Some k) (word_of_int i)] [(k, JInt i)]"
  by (rule adds_leaf) (simp add: sint_word64)

lemma adds_bool: "adds d [AddBool (Some k) b] [(k, JBool b)]"
  by (rule adds_leaf) simp

lemma adds_hex: "adds d [AddHex (Some k) bs] [(k, JStr (hex_text bs))]"
  by (rule adds_leaf) (simp add: quoted_def escape_hex_text)

lemma adds_object:
  assumes "adds d cs ms"
  shows "adds (Suc d) (BeginObject (Some k) # cs @ [EndObject]) [(k, JObj ms)]"
  unfolding adds_def
proof (intro allI impI)
  fix a :: text_writer and b bs
  assume st: "tw_stack a = b # bs" and nb: "\<not> tw_bad a" and deep: "length (tw_stack a) + Suc d \<le> MAX_DEPTH"
  let ?a = "a\<lparr>tw_text := tw_text a @ (if b then '','' else []) @ quoted k @ '':{'', tw_stack := False # True # bs\<rparr>"
  have opn: "tw_do (BeginObject (Some k)) a = ?a"
    using st deep by (simp add: tw_open_def tw_value_def tw_put_def key_text_def)
  have "tw_run cs ?a = ?a\<lparr>tw_text := tw_text ?a @ items_text False (map member_text ms),
      tw_stack := (ms \<noteq> []) # True # bs\<rparr>"
    using addsD [OF assms, of ?a False "True # bs"] nb st deep by simp
  with opn show "tw_run (BeginObject (Some k) # cs @ [EndObject]) a =
      a\<lparr>tw_text := tw_text a @ items_text b (map member_text [(k, JObj ms)]),
        tw_stack := (b \<or> [(k, JObj ms)] \<noteq> []) # bs\<rparr>"
    by (simp add: tw_close_def tw_put_def member_text_def render_obj del: render.simps)
qed

lemma adds_members:
  assumes "\<forall>v \<in> snd ` set ms. ints_fit v"
  shows "adds (foldr max (map (nesting \<circ> snd) ms) 0) (concat (map (\<lambda>(k, v). json_calls (Some k) v) ms)) ms"
  unfolding adds_def
proof (intro allI impI)
  fix a :: text_writer and b bs
  let ?kvs = "map (\<lambda>(k, v). (Some k, v)) ms"
  assume st: "tw_stack a = b # bs" and nb: "\<not> tw_bad a"
    and deep: "length (tw_stack a) + foldr max (map (nesting \<circ> snd) ms) 0 \<le> MAX_DEPTH"
  have "\<forall>v \<in> snd ` set ?kvs. value_written v" using assms json_written by fastforce
  from items_written [OF this nb st] st deep
  show "tw_run (concat (map (\<lambda>(k, v). json_calls (Some k) v) ms)) a =
      a\<lparr>tw_text := tw_text a @ items_text b (map member_text ms), tw_stack := (b \<or> ms \<noteq> []) # bs\<rparr>"
    by (simp add: comp_def case_prod_unfold key_text_def member_text_def [abs_def])
qed

lemma adds_root:
  assumes "adds d cs ms" and "d < MAX_DEPTH"
  shows "tw_run (BeginObject None # cs @ [EndObject]) tw_init =
    \<lparr>tw_text = render (JObj ms), tw_stack = [], tw_bad = False\<rparr>"
proof -
  let ?a = "\<lparr>tw_text = ''{'', tw_stack = [False], tw_bad = False\<rparr>"
  have opn: "tw_do (BeginObject None) tw_init = ?a"
    using assms(2) by (simp add: tw_open_def tw_value_def tw_put_def key_text_def tw_init_def)
  have "tw_run cs ?a = ?a\<lparr>tw_text := tw_text ?a @ items_text False (map member_text ms),
      tw_stack := [ms \<noteq> []]\<rparr>"
    using addsD [OF assms(1), of ?a False "[]"] assms(2) by simp
  with opn show ?thesis by (simp add: tw_close_def tw_put_def render_obj del: render.simps)
qed

lemma root_encodes:
  assumes "length buf = cap" and "0 < cap" and "adds d cs ms" and "d < MAX_DEPTH"
  shows "encodes (finish (jw_run (BeginObject None # cs @ [EndObject]) (sc_json_writer (Some buf) cap)))
    cap (render (JObj ms))"
  by (rule finish_run_encodes [OF assms(1,2) adds_root [OF assms(3,4)]])

lemmas adds_intros = adds_append adds_str adds_cstr adds_uint adds_int adds_bool adds_hex adds_Nil

lemma jw_run_simps [simp]:
  "jw_run [] w = w" "jw_run (c # cs) w = jw_run cs (jw_do c w)"
  "jw_run (cs @ ds) w = jw_run ds (jw_run cs w)"
  by (simp_all add: jw_run_def)

text \<open>The calls of the encoders, in their order.\<close>

definition ota_event_calls :: "sc_ota_event \<Rightarrow> jw_call list" where
  "ota_event_calls evt =
     [AddStr (Some ''taskId'') (oe_task_id evt)] @ [AddStr (Some ''state'') (oe_state evt)] @
     (if oe_progress evt \<ge> 0 then [AddInt (Some ''progress'') (word_of_int (oe_progress evt))] else []) @
     (case oe_error evt of None \<Rightarrow> [] | Some e \<Rightarrow> [AddStr (Some ''error'') (Some e)])"

lemma ota_event_encodes:
  assumes "length buf = cap" and "0 < cap" and "oe_progress evt < 2 ^ 31"
  shows "encodes (encode_ota_event evt buf cap) cap (render (ota_event_json evt))"
proof -
  have "adds 0 (ota_event_calls evt)
      ([(''taskId'', str_json (oe_task_id evt))] @ [(''state'', str_json (oe_state evt))] @
      (if oe_progress evt \<ge> 0 then [(''progress'', JInt (oe_progress evt))] else []) @
      (case oe_error evt of None \<Rightarrow> [] | Some e \<Rightarrow> [(''error'', JStr (cstr e))]))"
    unfolding ota_event_calls_def
    by (intro adds_append adds_str) (use assms(3) in \<open>auto intro: adds_intros split: option.splits\<close>)
  from root_encodes [OF assms(1,2) this]
  have "encodes (finish (jw_run (BeginObject None # ota_event_calls evt @ [EndObject])
      (sc_json_writer (Some buf) cap))) cap (render (ota_event_json evt))"
    by (simp add: ota_event_json_def MAX_DEPTH_def del: render.simps)
  moreover have "finish (jw_run (BeginObject None # ota_event_calls evt @ [EndObject])
      (sc_json_writer (Some buf) cap)) = encode_ota_event evt buf cap"
    by (simp add: encode_ota_event_def ota_event_calls_def Let_def split: option.splits)
  ultimately show ?thesis by simp
qed

text \<open>A status callback that adds members through the writer's interface.\<close>

definition cb_adds :: "(sc_json_writer \<Rightarrow> sc_json_writer) option \<Rightarrow> nat \<Rightarrow> (string \<times> json) list \<Rightarrow> bool" where
  "cb_adds extra d es \<longleftrightarrow>
     (case extra of None \<Rightarrow> es = [] | Some cb \<Rightarrow> \<exists>cs. cb = jw_run cs \<and> adds d cs es)"

definition fw_calls :: "sc_status_msg \<Rightarrow> jw_call list" where
  "fw_calls msg =
     [AddStr (Some ''version'') (sm_fw_version msg)] @
     (case sm_elf_sha256 msg of None \<Rightarrow> [] | Some sha \<Rightarrow> [AddHex (Some ''elfSha256'') (take 32 sha)]) @
     [AddStr (Some ''project'') (sm_project msg)] @ [AddStr (Some ''sdk'') (sm_sdk_version msg)]"

definition heap_calls :: "sc_status_msg \<Rightarrow> jw_call list" where
  "heap_calls msg = [AddUint (Some ''free'') (ucast (sm_heap_free msg))] @
     [AddUint (Some ''minFree'') (ucast (sm_heap_min_free msg))]"

definition status_calls :: "sc_status_msg \<Rightarrow> jw_call list" where
  "status_calls msg =
     (if sm_birth msg then [AddBool (Some ''birth'') True] else []) @
     [AddUint (Some ''uptimeMs'') (sm_uptime_ms msg)] @
     [AddUint (Some ''bootId'') (ucast (sm_boot_id msg))] @
     [AddInt (Some ''resetReason'') (word_of_int (sm_reset_reason msg))] @
     (BeginObject (Some ''fw'') # fw_calls msg @ [EndObject]) @
     [AddStr (Some ''chip'') (sm_chip msg)] @
     (BeginObject (Some ''heap'') # heap_calls msg @ [EndObject])"

lemma adds_uint32: "adds d [AddUint (Some k) (ucast (v :: u32))] [(k, JInt (uint v))]"
proof -
  have "uint v < 2 ^ 32" using unsigned_less [of v, where 'a = int] by simp
  then have "uint (ucast v :: u64) = uint v" by (simp add: unsigned_ucast_eq take_bit_int_eq_self)
  with adds_uint [of d k "ucast v"] show ?thesis by simp
qed

lemma status_adds:
  assumes "- (2 ^ 31) \<le> sm_reset_reason msg" and "sm_reset_reason msg < 2 ^ 31"
  shows "\<exists>ms. adds 1 (status_calls msg) ms \<and> (\<forall>es. status_json msg es = JObj (ms @ es))"
proof -
  let ?fw = "[(''version'', str_json (sm_fw_version msg))] @
    (case sm_elf_sha256 msg of None \<Rightarrow> [] | Some sha \<Rightarrow> [(''elfSha256'', JStr (hex_text (take 32 sha)))]) @
    [(''project'', str_json (sm_project msg))] @ [(''sdk'', str_json (sm_sdk_version msg))]"
  let ?heap = "[(''free'', JInt (uint (sm_heap_free msg)))] @ [(''minFree'', JInt (uint (sm_heap_min_free msg)))]"
  let ?ms = "(if sm_birth msg then [(''birth'', JBool True)] else []) @
    [(''uptimeMs'', JInt (uint (sm_uptime_ms msg)))] @ [(''bootId'', JInt (uint (sm_boot_id msg)))] @
    [(''resetReason'', JInt (sm_reset_reason msg))] @ [(''fw'', JObj ?fw)] @
    [(''chip'', str_json (sm_chip msg))] @ [(''heap'', JObj ?heap)]"
  have "adds 0 (fw_calls msg) ?fw"
    unfolding fw_calls_def
    by (intro adds_append adds_str) (auto intro: adds_intros split: option.splits)
  moreover have "adds 0 (heap_calls msg) ?heap"
    unfolding heap_calls_def by (intro adds_append adds_uint32)
  moreover have "adds 1 (if sm_birth msg then [AddBool (Some ''birth'') True] else [])
      (if sm_birth msg then [(''birth'', JBool True)] else [])"
    by (auto intro: adds_intros)
  ultimately have "adds 1 (status_calls msg) ?ms"
    unfolding status_calls_def One_nat_def
    by (intro adds_append adds_str adds_uint adds_uint32 adds_int adds_object) (use assms in simp_all)
  moreover have "\<forall>es. status_json msg es = JObj (?ms @ es)" by (simp add: status_json_def)
  ultimately show ?thesis by blast
qed

lemma status_encodes:
  assumes "length buf = cap" and "0 < cap" and "cb_adds extra d es" and "d < MAX_DEPTH"
    and "- (2 ^ 31) \<le> sm_reset_reason msg" and "sm_reset_reason msg < 2 ^ 31"
  shows "encodes (encode_status msg extra buf cap) cap (render (status_json msg es))"
proof -
  obtain ms where ms: "adds 1 (status_calls msg) ms" "status_json msg es = JObj (ms @ es)"
    using status_adds [OF assms(5,6)] by blast
  obtain cs where cs: "(case extra of None \<Rightarrow> (\<lambda>w. w) | Some cb \<Rightarrow> cb) = jw_run cs" "adds d cs es"
  proof (cases extra)
    case None
    have "jw_run [] = (\<lambda>w. w)" by (simp add: fun_eq_iff)
    with None assms(3) show ?thesis using that [of "[]"] by (simp add: cb_adds_def adds_Nil)
  next
    case (Some cb)
    with assms(3) show ?thesis using that by (auto simp: cb_adds_def)
  qed
  have "adds (max 1 d) (status_calls msg @ cs) (ms @ es)"
    using ms(1) cs(2) by (auto intro!: adds_append elim: adds_mono)
  moreover have "max 1 d < MAX_DEPTH" using assms(4) by (simp add: MAX_DEPTH_def)
  ultimately have "encodes (finish (jw_run (BeginObject None # (status_calls msg @ cs) @ [EndObject])
      (sc_json_writer (Some buf) cap))) cap (render (JObj (ms @ es)))"
    by (intro root_encodes [OF assms(1,2)])
  moreover have "encode_status msg extra buf cap =
      finish (jw_run [EndObject] ((case extra of None \<Rightarrow> (\<lambda>w. w) | Some cb \<Rightarrow> cb)
        (jw_run (BeginObject None # status_calls msg) (sc_json_writer (Some buf) cap))))"
    by (simp add: encode_status_def status_calls_def fw_calls_def heap_calls_def Let_def
        split: option.splits)
  ultimately show ?thesis by (simp add: cs(1) ms(2) del: render.simps)
qed

lemma enroll_request_encodes:
  assumes "length buf = cap" and "0 < cap"
  shows "encodes (encode_enroll_request req buf cap) cap (render (enroll_request_json req))"
proof -
  let ?name = "case er_name req of None \<Rightarrow> []
    | Some name \<Rightarrow> if cstr name \<noteq> [] then [AddStr (Some ''name'') (Some name)] else []"
  let ?cs = "[AddStr (Some ''token'') (er_token req)] @ [AddStr (Some ''hardwareId'') (er_hardware_id req)] @
    [AddStr (Some ''platform'') (er_platform req)] @ [AddStr (Some ''chip'') (er_chip req)] @
    [AddStr (Some ''fwVersion'') (er_fw_version req)] @ ?name"
  have "adds 0 ?name (case er_name req of None \<Rightarrow> []
      | Some name \<Rightarrow> if cstr name \<noteq> [] then [(''name'', JStr (cstr name))] else [])"
    by (auto intro: adds_intros split: option.splits)
  then have "adds 0 ?cs ([(''token'', str_json (er_token req))] @ [(''hardwareId'', str_json (er_hardware_id req))] @
    [(''platform'', str_json (er_platform req))] @ [(''chip'', str_json (er_chip req))] @
    [(''fwVersion'', str_json (er_fw_version req))] @ (case er_name req of None \<Rightarrow> []
      | Some name \<Rightarrow> if cstr name \<noteq> [] then [(''name'', JStr (cstr name))] else []))"
    by (intro adds_append adds_str)
  from root_encodes [OF assms this]
  have "encodes (finish (jw_run (BeginObject None # ?cs @ [EndObject]) (sc_json_writer (Some buf) cap)))
      cap (render (enroll_request_json req))"
    by (simp add: enroll_request_json_def MAX_DEPTH_def del: render.simps)
  moreover have "finish (jw_run (BeginObject None # ?cs @ [EndObject]) (sc_json_writer (Some buf) cap)) =
      encode_enroll_request req buf cap"
    by (simp add: encode_enroll_request_def Let_def split: option.splits)
  ultimately show ?thesis by simp
qed

subsection \<open>What the decoders accept\<close>

lemma length_write_out [simp]:
  assumes "length (snd res) < length buf" shows "length (write_out buf res) = length buf"
  using assms by (simp add: write_out_def)

lemma length_write_out_get_str [simp]:
  "length buf = cap \<Longrightarrow> 0 < cap \<Longrightarrow> length (write_out buf (get_str r obj key cap)) = cap"
  using get_str_length [of r obj key cap] length_write_out [of "get_str r obj key cap" buf] by simp

lemma cstr_write_out:
  assumes "length s < length buf" shows "cstr (write_out buf (True, s)) = cstr s"
  by (simp add: write_out_def memcpy_def cstr_def takeWhile_tail)

text \<open>A decoded C string is shorter than its buffer, which therefore holds its final NUL.\<close>

lemma cstr_write_out_less:
  "fst res \<Longrightarrow> length (snd res) < length buf \<Longrightarrow> length (cstr (write_out buf res)) < length buf"
  using cstr_write_out [of "snd res" buf] length_cstr_le [of "snd res"] by (cases res) simp

lemma cstr_get_str_less [simp]:
  assumes "fst (get_str r obj key cap)" and "length buf = cap" and "0 < cap"
  shows "length (cstr (write_out buf (get_str r obj key cap))) < cap"
  using cstr_write_out_less [OF assms(1), of buf] get_str_length [of r obj key cap] assms(2,3) by simp

lemma plain_keys [simp]:
  "plain_key ''mqtt''" "plain_key ''deviceId''" "plain_key ''password''" "plain_key ''url''"
  "plain_key ''sha256''" "plain_key ''size''" "plain_key ''taskId''" "plain_key ''version''"
  "plain_key ''level''" "plain_key ''text''" "plain_key ''bin''" "plain_key ''tags''"
  by (simp_all add: plain_key_def escape_char_def)

text \<open>A string member that fits a buffer of \<open>cap\<close> bytes.\<close>

definition str_member :: "json option \<Rightarrow> string \<Rightarrow> nat \<Rightarrow> string option" where
  "str_member v key cap =
     (case v of
        None \<Rightarrow> None
      | Some obj \<Rightarrow>
          (case json_member obj key of
             Some (JStr s) \<Rightarrow> if length s < cap then Some s else None
           | _ \<Rightarrow> None))"

lemma json_str_True: "json_str cap v = (True, s) \<longleftrightarrow> v = Some (JStr s) \<and> length s < cap"
  by (auto simp: json_str_def split: option.splits json.splits if_split_asm)

lemma json_str_member:
  "json_str cap (json_member v key) =
    (case str_member (Some v) key cap of Some s \<Rightarrow> (True, s) | None \<Rightarrow> (False, snd (json_str cap (json_member v key))))"
  by (auto simp: json_str_def str_member_def split: option.splits json.splits if_split_asm)

lemma get_str_member:
  "node r i v \<Longrightarrow> plain_key key \<Longrightarrow> get_str r i key cap =
    (case str_member (Some v) key cap of Some s \<Rightarrow> (True, s) | None \<Rightarrow> (False, snd (json_str cap (json_member v key))))"
  by (simp only: get_str_node json_str_member [symmetric])

text \<open>A lookup through a member that may be missing.\<close>

lemma get_str_find:
  assumes "node r i v" and "plain_key k1" and "plain_key k2"
  shows "fst (get_str r (find r i k1) k2 cap) = (str_member (json_member v k1) k2 cap \<noteq> None)"
    and "str_member (json_member v k1) k2 cap = Some s \<Longrightarrow> get_str r (find r i k1) k2 cap = (True, s)"
  using reader.nested_str [OF assms, of cap]
  by (auto simp: str_member_def json_str_def split: option.splits json.splits)

subsubsection \<open>The enrollment response\<close>

definition enroll_ok :: "sc_enroll_response \<Rightarrow> bool" where
  "enroll_ok e \<longleftrightarrow> length (en_device_id e) = 16 \<and> length (en_password e) = 48 \<and> length (en_mqtt_url e) = 160"

lemma enroll_response_init_ok [simp]: "enroll_ok enroll_response_init"
  by (simp add: enroll_ok_def enroll_response_init_def)

text \<open>Whatever the platform sends, nothing is written outside the three buffers.\<close>

lemma decode_enroll_response_sizes:
  "enroll_ok out \<Longrightarrow> enroll_ok (snd (decode_enroll_response payload out))"
  by (simp add: decode_enroll_response_def enroll_ok_def Let_def split: prod.split)

lemma decode_enroll_response_fields:
  assumes "decode_enroll_response payload out = (ESP_OK, out')" and "enroll_ok out"
  shows "length (cstr (en_device_id out')) < 16 \<and> length (cstr (en_password out')) < 48 \<and>
    length (cstr (en_mqtt_url out')) < 160"
  using assms
  by (auto simp: decode_enroll_response_def enroll_ok_def Let_def split: prod.split_asm if_split_asm)

lemma decode_enroll_response_render:
  assumes "json_size (JObj ms) \<le> 48"
  defines "mqtt \<equiv> map_of ms ''mqtt''"
  shows "fst (decode_enroll_response (render (JObj ms)) out) = ESP_OK \<longleftrightarrow>
      str_member (Some (JObj ms)) ''deviceId'' 16 \<noteq> None \<and>
      str_member mqtt ''password'' 48 \<noteq> None \<and> str_member mqtt ''url'' 160 \<noteq> None"
    and "enroll_ok out \<Longrightarrow> str_member (Some (JObj ms)) ''deviceId'' 16 = Some d \<Longrightarrow>
      str_member mqtt ''password'' 48 = Some p \<Longrightarrow> str_member mqtt ''url'' 160 = Some u \<Longrightarrow>
      \<exists>out'. decode_enroll_response (render (JObj ms)) out = (ESP_OK, out') \<and>
        cstr (en_device_id out') = cstr d \<and> cstr (en_password out') = cstr p \<and>
        cstr (en_mqtt_url out') = cstr u"
proof -
  have "json_size (JObj ms) \<le> rd_max_tokens (sc_json_doc 48)" using assms(1) by (simp add: sc_json_doc_def)
  from reader_parse_render [OF this] obtain r where
    parse: "reader_parse (render (JObj ms)) (sc_json_doc 48) = (ESP_OK, r)" and root: "node r 0 (JObj ms)"
    by blast
  have mq: "json_member (JObj ms) ''mqtt'' = mqtt" by (simp add: json_member_def mqtt_def)
  note f = get_str_find [OF root, of "''mqtt''", simplified mq]
  note g = get_str_member [OF root, of "''deviceId''" 16]
  show "fst (decode_enroll_response (render (JObj ms)) out) = ESP_OK \<longleftrightarrow>
      str_member (Some (JObj ms)) ''deviceId'' 16 \<noteq> None \<and>
      str_member mqtt ''password'' 48 \<noteq> None \<and> str_member mqtt ''url'' 160 \<noteq> None"
    using f(1) [of "''password''" 48] f(1) [of "''url''" 160] g
    by (simp add: decode_enroll_response_def parse Let_def del: render.simps split: option.splits)
  assume "enroll_ok out" "str_member (Some (JObj ms)) ''deviceId'' 16 = Some d"
    "str_member mqtt ''password'' 48 = Some p" "str_member mqtt ''url'' 160 = Some u"
  moreover from this have "length d < 16" "length p < 48" "length u < 160"
    by (auto simp: str_member_def split: option.splits json.splits if_split_asm)
  ultimately show "\<exists>out'. decode_enroll_response (render (JObj ms)) out = (ESP_OK, out') \<and>
      cstr (en_device_id out') = cstr d \<and> cstr (en_password out') = cstr p \<and> cstr (en_mqtt_url out') = cstr u"
    using f(2) [of "''password''" 48 p] f(2) [of "''url''" 160 u] g
    by (simp add: decode_enroll_response_def parse Let_def enroll_ok_def cstr_write_out del: render.simps)
qed

subsubsection \<open>Update parameters\<close>

definition ota_params_ok :: "sc_ota_params \<Rightarrow> bool" where
  "ota_params_ok q \<longleftrightarrow> length (op_url q) = 384 \<and> length (op_sha256 q) = 65 \<and>
     length (op_version q) = 33 \<and> length (op_task_id q) = 40"

lemma ota_params_init_ok [simp]: "ota_params_ok ota_params_init"
  by (simp add: ota_params_ok_def ota_params_init_def)

lemma decode_ota_params_sizes:
  "ota_params_ok out \<Longrightarrow> ota_params_ok (snd (decode_ota_params doc obj out))"
  by (simp add: decode_ota_params_def ota_params_ok_def Let_def split: option.split)

text \<open>What every accepted request satisfies, whatever document it came in.\<close>

lemma decode_ota_params_accepts:
  assumes "decode_ota_params doc obj out = (ESP_OK, q)" and "ota_params_ok out"
  shows "0 < op_size q \<and> length (cstr (op_sha256 q)) = 64 \<and> length (cstr (op_url q)) < 384 \<and>
    length (cstr (op_task_id q)) < 40 \<and> length (cstr (op_version q)) < 33"
proof -
  obtain sz where sz: "get_int doc obj ''size'' = Some sz" "0 < sz" "sz \<le> UINT32_MAX"
    and ok: "fst (get_str doc obj ''url'' 384)" "fst (get_str doc obj ''taskId'' 40)"
      "length (cstr (write_out (op_sha256 out) (get_str doc obj ''sha256'' 65))) = 64"
    and q: "q = out\<lparr>op_url := write_out (op_url out) (get_str doc obj ''url'' 384),
        op_sha256 := write_out (op_sha256 out) (get_str doc obj ''sha256'' 65),
        op_task_id := write_out (op_task_id out) (get_str doc obj ''taskId'' 40),
        op_size := word_of_int sz,
        op_version := (let s4 = get_str doc obj ''version'' 33; ver = write_out (op_version out) s4
          in if fst s4 then ver else ver[0 := NUL])\<rparr>"
    using assms(1)
    by (auto simp: decode_ota_params_def Let_def split: option.split_asm if_split_asm)
  have "uint (word_of_int sz :: u32) = sz"
    using sz by (simp add: unsigned_of_int take_bit_int_eq_self)
  with sz have "0 < (word_of_int sz :: u32)" by (simp add: word_less_def)
  moreover have "length (cstr (op_version q)) < 33"
  proof (cases "fst (get_str doc obj ''version'' 33)")
    case True
    with q assms(2) show ?thesis by (simp add: Let_def ota_params_ok_def)
  next
    case False
    let ?ver = "write_out (op_version out) (get_str doc obj ''version'' 33)"
    have "length ?ver = 33" using assms(2) by (simp add: ota_params_ok_def)
    then have "cstr (?ver[0 := NUL]) = []" by (cases ?ver) (simp_all add: cstr_def)
    with q False show ?thesis by (simp add: Let_def)
  qed
  ultimately show ?thesis using q ok assms(2) by (simp add: ota_params_ok_def)
qed

lemma decode_ota_params_render:
  assumes "node r i v"
  shows "fst (decode_ota_params r i out) = ESP_OK \<longleftrightarrow>
      str_member (Some v) ''url'' 384 \<noteq> None \<and>
      (\<exists>h. str_member (Some v) ''sha256'' 65 = Some h \<and> length (cstr (write_out (op_sha256 out) (True, h))) = 64) \<and>
      (\<exists>sz. json_member v ''size'' = Some (JInt sz) \<and> 0 < sz \<and> sz \<le> UINT32_MAX) \<and>
      str_member (Some v) ''taskId'' 40 \<noteq> None"
proof -
  have size: "get_int r i ''size'' = Some sz \<and> 0 < sz \<and> sz \<le> UINT32_MAX \<longleftrightarrow>
      json_member v ''size'' = Some (JInt sz) \<and> 0 < sz \<and> sz \<le> UINT32_MAX" for sz
    using get_int_node [OF assms, of "''size''"]
    by (auto simp: json_int_def split: option.splits json.splits if_split_asm)
  have "fst (decode_ota_params r i out) = ESP_OK \<longleftrightarrow>
      fst (get_str r i ''url'' 384) \<and> fst (get_str r i ''sha256'' 65) \<and>
      length (cstr (write_out (op_sha256 out) (get_str r i ''sha256'' 65))) = 64 \<and>
      (\<exists>sz. get_int r i ''size'' = Some sz \<and> 0 < sz \<and> sz \<le> UINT32_MAX) \<and>
      fst (get_str r i ''taskId'' 40)"
    by (auto simp: decode_ota_params_def Let_def split: option.split)
  also have "\<dots> \<longleftrightarrow> str_member (Some v) ''url'' 384 \<noteq> None \<and>
      (\<exists>h. str_member (Some v) ''sha256'' 65 = Some h \<and> length (cstr (write_out (op_sha256 out) (True, h))) = 64) \<and>
      (\<exists>sz. json_member v ''size'' = Some (JInt sz) \<and> 0 < sz \<and> sz \<le> UINT32_MAX) \<and>
      str_member (Some v) ''taskId'' 40 \<noteq> None"
    unfolding size using get_str_member [OF assms]
    by (simp split: option.split)
  finally show ?thesis .
qed

subsubsection \<open>Log levels and log.config\<close>

lemma level_index_cases:
  "level_index name ns k = -1 \<and> name \<notin> set ns \<or>
   (\<exists>i < length ns. level_index name ns k = k + int i \<and> ns ! i = name)"
proof (induction ns arbitrary: k)
  case (Cons n ns)
  show ?case
  proof (cases "name = n")
    case True
    then show ?thesis by (intro disjI2 exI [of _ 0]) simp
  next
    case False
    from Cons.IH [of "k + 1"] show ?thesis
    proof (elim disjE conjE exE)
      fix i assume "i < length ns" "level_index name ns (k + 1) = k + 1 + int i" "ns ! i = name"
      with False show ?thesis by (intro disjI2 exI [of _ "Suc i"]) simp
    qed (use False in simp)
  qed
qed simp

lemma length_level_names [simp]: "length level_names = 6"
  by (simp add: level_names_def)

lemma level_from_name_cases:
  "level_from_name name = -1 \<and> name \<notin> set level_names \<or>
   (\<exists>i < 6. level_from_name name = int i \<and> level_names ! i = name)"
  using level_index_cases [of name level_names 0] by (simp add: level_from_name_def)

lemma level_from_name_nth: "i < 6 \<Longrightarrow> level_from_name (level_names ! i) = int i"
proof -
  have "\<forall>i \<in> set [0..<6]. level_from_name (level_names ! i) = int i" by code_simp
  then show "i < 6 \<Longrightarrow> ?thesis" by simp
qed

lemma level_from_name_range: "-1 \<le> level_from_name name \<and> level_from_name name < 6"
  using level_from_name_cases [of name] by auto

text \<open>
  The first pass decides: whatever the document, the second pass accepts the same entries, so an
  error means that no level has been set.
\<close>

lemma tags_pass_fst:
  "fst (tags_pass doc n b idx member calls) = fst (tags_pass doc n b' idx member calls')"
proof (induction doc n b idx member calls arbitrary: b' calls' rule: tags_pass.induct)
  case (1 doc n b idx member calls)
  show ?case
    by (subst (1 2) tags_pass.simps) (simp add: Let_def 1)
qed

lemma tags_pass_dry: "\<not> b \<Longrightarrow> snd (tags_pass doc n b idx member calls) = calls"
proof (induction doc n b idx member calls rule: tags_pass.induct)
  case (1 doc n b idx member calls)
  show ?case by (subst tags_pass.simps) (use 1 in \<open>simp add: Let_def\<close>)
qed

lemma decode_log_config_error:
  assumes "decode_log_config doc out = (ret, out', calls)" and "ret \<noteq> ESP_OK"
  shows "ret = ESP_ERR_INVALID_ARG \<and> calls = []"
proof -
  let ?p = "\<lambda>b cs. tags_pass doc (child_count doc (find doc 0 ''tags'')) b 0 (find doc 0 ''tags'' + 1) cs"
  have "fst (?p True []) = fst (?p False [])" by (rule tags_pass_fst)
  moreover have "snd (?p False []) = []" by (simp add: tags_pass_dry)
  moreover note assms
  ultimately show ?thesis
    by (auto simp: decode_log_config_def Let_def split: prod.split_asm if_split_asm)
qed

text \<open>The entries of \<open>tags\<close> in a document, and the calls they cause.\<close>

definition tag_entry :: "string \<times> json \<Rightarrow> (string \<times> int) option" where
  "tag_entry m =
     (case snd m of
        JStr s \<Rightarrow> if length (fst m) < 32 \<and> length s < 16 \<and> level_from_name (cstr s) \<ge> 0
                  then Some (cstr (fst m), level_from_name (cstr s)) else None
      | _ \<Rightarrow> None)"

lemma str_at_key:
  assumes "rd_count r = length (rd_tokens r)" and "sits (rd_tokens r) n (str_tok p k z # ts)"
    and "sits (rd_json r) p (quoted k)" and "0 < cap"
  shows "str_at r (int n) cap = (if length k < cap then (True, k) else (False, take (cap - 1) k))"
proof -
  have t: "rd_tokens r ! n = str_tok p k z" and v: "tok_valid r (int n)"
    using assms(1,2) by (simp_all add: sits_Cons tok_valid_def)
  have "sits (rd_json r) (Suc p) (escape k)" using assms(3) by (simp add: quoted_def sits_Cons sits_append)
  from sits_slice [OF this] have "tok_text r (str_tok p k z) = escape k"
    by (simp add: tok_text_def str_tok_def nat_add_distrib)
  with t v assms(4) show ?thesis
    using str_loop_escape [of "[]" k cap] str_loop_escape_long [of "[]" cap k]
    by (auto simp: str_at_def str_tok_def)
qed

fun tags_spec :: "bool \<Rightarrow> (string \<times> json) list \<Rightarrow> (string \<times> int) list \<Rightarrow> bool \<times> (string \<times> int) list" where
  "tags_spec b [] calls = (True, calls)"
| "tags_spec b (m # ms) calls =
     (case tag_entry m of
        None \<Rightarrow> (False, calls)
      | Some c \<Rightarrow> tags_spec b ms (if b then calls @ [c] else calls))"

lemma tags_spec_valid:
  "None \<notin> set (map tag_entry ms) \<Longrightarrow>
    tags_spec b ms calls = (True, calls @ (if b then map (the \<circ> tag_entry) ms else []))"
proof (induction ms arbitrary: calls)
  case (Cons m ms)
  then show ?case by (cases "tag_entry m") simp_all
qed simp

lemma tags_spec_invalid: "None \<in> set (map tag_entry ms) \<Longrightarrow> fst (tags_spec b ms calls) = False"
proof (induction ms arbitrary: calls)
  case (Cons m ms)
  then show ?case by (cases "tag_entry m") auto
qed simp

lemma tags_pass_members:
  assumes "rd_count r = length (rd_tokens r)"
    and "sits (rd_tokens r) n (placed p (obj_items ms))"
    and "sits (rd_json r) p (commas (map fst (obj_items ms)))"
    and "ms \<noteq> [] \<Longrightarrow> member = int n" and "N = idx + int (length ms)"
  shows "tags_pass r N b idx member calls = tags_spec b ms calls"
  using assms
proof (induction ms arbitrary: n p idx member calls)
  case Nil
  then show ?case by (simp add: tags_pass.simps [of r idx b idx member])
next
  case (Cons m ms)
  obtain k v where m: "m = (k, v)" by (cases m)
  let ?t = "quoted k @ CHR '':'' # render v"
  let ?n = "Suc n + json_size v"
  let ?p = "p + length ?t + 1"
  have toks: "sits (rd_tokens r) n (str_tok p k 1 # json_toks v (p + length (quoted k) + 1))"
      "sits (rd_tokens r) ?n (placed ?p (obj_items ms))"
    using Cons.prems(2) by (simp_all add: m obj_items_Cons member_toks_def sits_Cons sits_append length_json_toks)
  have tx: "sits (rd_json r) p ?t"
    and more0: "ms \<noteq> [] \<Longrightarrow> sits (rd_json r) ?p (commas (map fst (obj_items ms)))"
    using Cons.prems(3) by (auto simp: m obj_items_Cons commas_Cons sits_append sits_Cons obj_items_def add.assoc)
  have vt: "sits (rd_tokens r) (Suc n) (json_toks v (p + length (quoted k) + 1))"
    using toks(1) by (simp add: sits_Cons)
  have sk: "sits (rd_json r) p (quoted k)" using tx by (simp add: sits_append)
  have key: "str_at r (int n) 32 = (if length k < 32 then (True, k) else (False, take 31 k))"
    using str_at_key [OF Cons.prems(1) toks(1) sk, of 32] by simp
  have nv: "node r (int (Suc n)) v"
    using vt tx Cons.prems(1) unfolding node_def node_at_def
    by (intro conjI exI [of _ "p + length (quoted k) + 1"]) (simp_all del: of_nat_Suc add: sits_append sits_Cons)
  have skip: "ms \<noteq> [] \<Longrightarrow> skip r (int (Suc n)) = int ?n"
  proof -
    assume "ms \<noteq> []"
    then have "placed ?p (obj_items ms) \<noteq> []"
      by (cases ms) (auto simp: obj_items_Cons member_toks_def)
    from sits_less [OF toks(2) this] Cons.prems(1)
    show ?thesis using skip_node [OF Cons.prems(1) vt] by simp
  qed
  have more: "sits (rd_json r) ?p (commas (map fst (obj_items ms)))"
    using more0 by (cases "ms = []") (simp_all add: obj_items_def)
  have nn: "N = idx + 1 + int (length ms)" using Cons.prems(5) by simp
  have member: "member = int n" using Cons.prems(4) by simp
  have "tags_pass r N b idx member calls =
      (case tag_entry m of
         None \<Rightarrow> (False, calls)
       | Some c \<Rightarrow> tags_pass r N b (idx + 1) (skip r (int (Suc n))) (if b then calls @ [c] else calls))"
    by (subst tags_pass.simps)
      (use key str_at_node [OF nv, of 16] Cons.prems(5) in
        \<open>auto simp: member m tag_entry_def Let_def add.commute split: json.splits\<close>)
  then show ?case using Cons.IH [OF Cons.prems(1) toks(2) more skip nn] by (auto split: option.splits)
qed

lemma decode_log_config_node:
  assumes "node r 0 v"
  shows "decode_log_config r out =
    (let level = str_member (Some v) ''level'' 16;
         o1 = (case level of None \<Rightarrow> out | Some s \<Rightarrow> out\<lparr>lc_level := level_from_name (cstr s)\<rparr>);
         o2 = (case json_bool (json_member v ''text'') of
                 None \<Rightarrow> o1 | Some f \<Rightarrow> o1\<lparr>lc_text := (if f then 1 else 0)\<rparr>);
         o3 = (case json_bool (json_member v ''bin'') of
                 None \<Rightarrow> o2 | Some f \<Rightarrow> o2\<lparr>lc_bin := (if f then 1 else 0)\<rparr>)
     in if level \<noteq> None \<and> lc_level o1 < 0 then (ESP_ERR_INVALID_ARG, o1, [])
        else (case json_member v ''tags'' of
                None \<Rightarrow> (ESP_OK, o3, [])
              | Some (JObj ts) \<Rightarrow>
                  if None \<in> set (map tag_entry ts) then (ESP_ERR_INVALID_ARG, o3, [])
                  else (ESP_OK, o3, map (the \<circ> tag_entry) ts)
              | _ \<Rightarrow> (ESP_ERR_INVALID_ARG, o3, [])))"
proof -
  have lvl: "get_str r 0 ''level'' 16 = (case str_member (Some v) ''level'' 16 of Some s \<Rightarrow> (True, s)
      | None \<Rightarrow> (False, snd (json_str 16 (json_member v ''level''))))"
    by (rule get_str_member [OF assms]) simp
  have txt': "get_bool r 0 ''text'' = json_bool (json_member v ''text'')"
    and bin: "get_bool r 0 ''bin'' = json_bool (json_member v ''bin'')"
    by (rule get_bool_node [OF assms], simp)+
  note tags = find_node [OF assms, of "''tags''"]
  show ?thesis
  proof (cases "json_member v ''tags''")
    case None
    with tags lvl txt' bin show ?thesis
      by (simp add: decode_log_config_def Let_def split: option.split)
  next
    case (Some t)
    with tags have t: "node r (find r 0 ''tags'') t" by simp
    then have pos: "\<not> find r 0 ''tags'' < 0" by (simp add: node_def)
    show ?thesis
    proof (cases "\<exists>ts. t = JObj ts")
      case False
      with is_object_node [OF t] have "\<not> is_object r (find r 0 ''tags'')" by simp
      with False Some pos lvl txt' bin show ?thesis
        by (cases t) (simp_all add: decode_log_config_def Let_def split: option.split)
    next
      case True
      then obtain ts where ts: "t = JObj ts" by blast
      obtain n p where n: "find r 0 ''tags'' = int n" and at: "node_at r n p (JObj ts)"
        using t ts by (metis node_def int_nat_eq)
      note o = node_at_obj [OF at]
      have obj: "is_object r (find r 0 ''tags'')" using is_object_node [OF t] ts by simp
      have cnt: "child_count r (find r 0 ''tags'') = int (length ts)"
        using child_count_node [OF t] ts by simp
      have pass: "tags_pass r (int (length ts)) b 0 (int n + 1) calls = tags_spec b ts calls" for b calls
        by (rule tags_pass_members [OF o(1,3,4)]) simp_all
      have "snd (tags_spec False ts []) = []"
        using tags_pass_dry [of False r "int (length ts)" 0 "int n + 1" "[]"] pass by simp
      with Some ts pos lvl txt' bin obj cnt pass tags_spec_valid [of ts] tags_spec_invalid [of ts]
      show ?thesis
        by (cases "None \<in> set (map tag_entry ts)")
          (simp_all add: decode_log_config_def Let_def n prod.case_eq_if split: option.split)
    qed
  qed
qed

subsection \<open>Properties\<close>

text \<open>
  C38: Status reports. For every message, status callback that adds members through the writer's
  interface (nesting at most 30 levels) and buffer, \<open>encode_status\<close> leaves in the buffer exactly
  the compact JSON of the report with the callback's members at its end, and reports its length;
  or, when that text does not fit with its NUL, \<open>ESP_ERR_NO_MEM\<close> and no length.
\<close>

theorem status_report_text:
  assumes "length buf = cap" and "0 < cap" and "cb_adds extra d es" and "d < MAX_DEPTH"
    and "- (2 ^ 31) \<le> sm_reset_reason msg" and "sm_reset_reason msg < 2 ^ 31"
  shows "encodes (encode_status msg extra buf cap) cap (render (status_json msg es))"
  by (rule status_encodes [OF assms])

theorem status_report_text_witness:
  "encodes (encode_status
      \<lparr>sm_birth = True, sm_uptime_ms = 5, sm_boot_id = 1, sm_reset_reason = 3, sm_fw_version = Some ''1.0'',
       sm_project = None, sm_sdk_version = None, sm_elf_sha256 = Some [0xAB], sm_chip = Some ''esp32'',
       sm_heap_free = 9, sm_heap_min_free = 8\<rparr>
      (Some (jw_run [AddUint (Some ''rssi'') 7])) (replicate 640 NUL) 640) 640
    (render (status_json
      \<lparr>sm_birth = True, sm_uptime_ms = 5, sm_boot_id = 1, sm_reset_reason = 3, sm_fw_version = Some ''1.0'',
       sm_project = None, sm_sdk_version = None, sm_elf_sha256 = Some [0xAB], sm_chip = Some ''esp32'',
       sm_heap_free = 9, sm_heap_min_free = 8\<rparr> [(''rssi'', JInt 7)]))"
proof (rule status_report_text [where d = 0])
  show "cb_adds (Some (jw_run [AddUint (Some ''rssi'') 7])) 0 [(''rssi'', JInt 7)]"
    using adds_uint [of 0 "''rssi''" 7] by (auto simp: cb_adds_def)
qed (simp_all add: MAX_DEPTH_def)

text \<open>
  C39: The enrollment response. For every object of at most 48 tokens, decoding its text succeeds
  exactly when the device ID, and inside \<open>mqtt\<close> the password and the URL, are strings that fit
  their buffers; the identity then holds those three C strings.
\<close>

theorem enroll_response_decoded:
  assumes "json_size (JObj ms) \<le> 48" and "enroll_ok out"
  shows "case (str_member (Some (JObj ms)) ''deviceId'' 16, str_member (map_of ms ''mqtt'') ''password'' 48,
               str_member (map_of ms ''mqtt'') ''url'' 160) of
      (Some d, Some p, Some u) \<Rightarrow>
        \<exists>out'. decode_enroll_response (render (JObj ms)) out = (ESP_OK, out') \<and>
          cstr (en_device_id out') = cstr d \<and> cstr (en_password out') = cstr p \<and>
          cstr (en_mqtt_url out') = cstr u
    | _ \<Rightarrow> fst (decode_enroll_response (render (JObj ms)) out) \<noteq> ESP_OK"
  using decode_enroll_response_render [OF assms(1), of out] assms(2)
  by (auto simp del: render.simps split: option.split)

theorem enroll_response_decoded_witness:
  "\<exists>out'. decode_enroll_response (render (JObj [(''deviceId'', JStr ''dev1''),
      (''mqtt'', JObj [(''url'', JStr ''wss://x''), (''password'', JStr ''pw'')])])) enroll_response_init =
      (ESP_OK, out') \<and> cstr (en_device_id out') = cstr ''dev1'' \<and>
      cstr (en_password out') = cstr ''pw'' \<and> cstr (en_mqtt_url out') = cstr ''wss://x''"
  using enroll_response_decoded [of "[(''deviceId'', JStr ''dev1''),
      (''mqtt'', JObj [(''url'', JStr ''wss://x''), (''password'', JStr ''pw'')])]" enroll_response_init]
  by (simp add: str_member_def json_member_def del: render.simps)

text \<open>
  Whatever bytes the platform sends, decoding the enrollment response writes nothing outside
  the three buffers of the identity, and what it accepts is three terminated C strings.
\<close>

theorem enroll_response_in_bounds:
  assumes "enroll_ok out"
  shows "enroll_ok (snd (decode_enroll_response payload out)) \<and>
    (fst (decode_enroll_response payload out) = ESP_OK \<longrightarrow>
      length (cstr (en_device_id (snd (decode_enroll_response payload out)))) < 16 \<and>
      length (cstr (en_password (snd (decode_enroll_response payload out)))) < 48 \<and>
      length (cstr (en_mqtt_url (snd (decode_enroll_response payload out)))) < 160)"
  using decode_enroll_response_sizes [OF assms, of payload]
    decode_enroll_response_fields [OF _ assms, of payload]
  by (cases "decode_enroll_response payload out") simp

theorem enroll_response_in_bounds_witness:
  "enroll_ok (snd (decode_enroll_response ''garbage'' enroll_response_init))"
  using enroll_response_in_bounds [of enroll_response_init "''garbage''"] by simp

text \<open>
  Update parameters are checked before an update may start. From any document at all, accepted
  parameters have a size that is not zero, a hash of exactly 64 characters, and a URL, a task ID
  and a version that are terminated inside their buffers.
\<close>

theorem ota_params_checked:
  assumes "decode_ota_params doc obj out = (ESP_OK, q)" and "ota_params_ok out"
  shows "ota_params_ok q \<and> 0 < op_size q \<and> length (cstr (op_sha256 q)) = 64 \<and>
    length (cstr (op_url q)) < 384 \<and> length (cstr (op_task_id q)) < 40 \<and>
    length (cstr (op_version q)) < 33"
  using decode_ota_params_accepts [OF assms] decode_ota_params_sizes [OF assms(2), of doc obj] assms(1)
  by simp

definition ota_sample :: "(string \<times> json) list" where
  "ota_sample = [(''url'', JStr ''https://h/f''), (''sha256'', JStr (replicate 64 CHR ''a'')),
     (''size'', JInt 1000), (''taskId'', JStr ''t1'')]"

lemma ota_sample_node:
  "\<exists>r. reader_parse (render (JObj ota_sample)) (sc_json_doc 32) = (ESP_OK, r) \<and> node r 0 (JObj ota_sample)"
proof -
  have "json_size (JObj ota_sample) \<le> rd_max_tokens (sc_json_doc 32)"
    by (simp add: ota_sample_def sc_json_doc_def)
  from reader_parse_render [OF this] show ?thesis by blast
qed

lemma ota_sample_accepted:
  assumes "node r 0 (JObj ota_sample)"
  shows "fst (decode_ota_params r 0 ota_params_init) = ESP_OK"
proof -
  have "cstr (write_out (replicate 65 NUL) (True, replicate 64 CHR ''a'')) = replicate 64 CHR ''a''"
    by (simp add: cstr_write_out cstr_no_nul)
  then show ?thesis
    unfolding decode_ota_params_render [OF assms]
    by (simp add: ota_sample_def str_member_def json_member_def ota_params_init_def)
qed

theorem ota_params_checked_witness:
  "\<exists>r q. decode_ota_params r 0 ota_params_init = (ESP_OK, q) \<and> 0 < op_size q \<and>
    length (cstr (op_sha256 q)) = 64"
proof -
  obtain r where "node r 0 (JObj ota_sample)" using ota_sample_node by blast
  from ota_sample_accepted [OF this] obtain q where "decode_ota_params r 0 ota_params_init = (ESP_OK, q)"
    by (cases "decode_ota_params r 0 ota_params_init") auto
  from this ota_params_checked [OF this ota_params_init_ok] show ?thesis by blast
qed

text \<open>
  Update parameters are accepted exactly when the URL, the hash and the task ID are strings
  that fit, the hash is 64 characters long and the size is a number from 1 to \<open>UINT32_MAX\<close>; the
  version never decides.
\<close>

theorem ota_params_decoded:
  assumes "node r i v" and "ota_params_ok out"
  shows "fst (decode_ota_params r i out) = ESP_OK \<longleftrightarrow>
    str_member (Some v) ''url'' 384 \<noteq> None \<and> str_member (Some v) ''taskId'' 40 \<noteq> None \<and>
    (\<exists>h. str_member (Some v) ''sha256'' 65 = Some h \<and> length (cstr h) = 64) \<and>
    (\<exists>sz. json_member v ''size'' = Some (JInt sz) \<and> 0 < sz \<and> sz \<le> UINT32_MAX)"
proof -
  have "length h < 65" if "str_member (Some v) ''sha256'' 65 = Some h" for h
    using that by (auto simp: str_member_def split: option.splits json.splits if_split_asm)
  then have "str_member (Some v) ''sha256'' 65 = Some h \<Longrightarrow>
      cstr (write_out (op_sha256 out) (True, h)) = cstr h" for h
    using assms(2) by (simp add: cstr_write_out ota_params_ok_def)
  then show ?thesis unfolding decode_ota_params_render [OF assms(1)] by auto
qed

theorem ota_params_decoded_witness:
  "\<exists>r. node r 0 (JObj [(''size'', JInt 0)]) \<and>
    fst (decode_ota_params r 0 ota_params_init) \<noteq> ESP_OK"
proof -
  have "json_size (JObj [(''size'', JInt 0)]) \<le> rd_max_tokens (sc_json_doc 8)"
    by (simp add: sc_json_doc_def)
  from reader_parse_render [OF this] obtain r where r: "node r 0 (JObj [(''size'', JInt 0)])" by blast
  with ota_params_decoded [OF r ota_params_init_ok] show ?thesis
    by (auto simp: str_member_def json_member_def)
qed

text \<open>
  Log configuration is all or nothing. On every document whatsoever, when \<open>decode_log_config\<close>
  returns an error it is \<open>ESP_ERR_INVALID_ARG\<close> and not a single tag level has been applied: the
  second pass accepts exactly what the first one accepted.
\<close>

theorem log_config_all_or_nothing:
  assumes "decode_log_config doc out = (ret, out', calls)" and "ret \<noteq> ESP_OK"
  shows "ret = ESP_ERR_INVALID_ARG \<and> calls = []"
  by (rule decode_log_config_error [OF assms])

theorem log_config_all_or_nothing_witness:
  "\<exists>r out'. reader_parse (render (JObj [(''level'', JStr ''loud'')])) (sc_json_doc 8) = (ESP_OK, r) \<and>
    decode_log_config r log_config_init = (ESP_ERR_INVALID_ARG, out', [])"
proof -
  have "json_size (JObj [(''level'', JStr ''loud'')]) \<le> rd_max_tokens (sc_json_doc 8)"
    by (simp add: sc_json_doc_def)
  from reader_parse_render [OF this] obtain r where
    p: "reader_parse (render (JObj [(''level'', JStr ''loud'')])) (sc_json_doc 8) = (ESP_OK, r)"
    and r: "node r 0 (JObj [(''level'', JStr ''loud'')])" by blast
  obtain ret out' calls where d: "decode_log_config r log_config_init = (ret, out', calls)"
    by (metis prod_cases3)
  have "level_from_name (cstr ''loud'') = -1" by code_simp
  with d have ret: "ret \<noteq> ESP_OK"
    by (simp add: decode_log_config_node [OF r] str_member_def json_member_def Let_def)
  from p d log_config_all_or_nothing [OF d ret] show ?thesis by auto
qed

text \<open>
  Log configuration of a well-formed document: an invalid level name, a \<open>tags\<close> that is not an
  object, or one entry with a name of 32 characters or more, or with a value that is not the name
  of a level, is refused; otherwise the level and the two switches are the document's (unchanged
  when missing), and every tag is set to its level, in the document's order, once.
\<close>

theorem log_config_decoded:
  assumes "node r 0 v" and "json_member v ''tags'' = Some (JObj ts)"
    and "str_member (Some v) ''level'' 16 = Some lvl" and "lc_level out = -1"
  shows "let (ret, out', calls) = decode_log_config r out in
    (ret = ESP_OK \<longleftrightarrow> cstr lvl \<in> set level_names \<and> None \<notin> set (map tag_entry ts)) \<and>
    (ret = ESP_OK \<longrightarrow> level_names ! nat (lc_level out') = cstr lvl \<and>
      lc_text out' = (case json_bool (json_member v ''text'') of
        None \<Rightarrow> lc_text out | Some f \<Rightarrow> if f then 1 else 0) \<and>
      lc_bin out' = (case json_bool (json_member v ''bin'') of
        None \<Rightarrow> lc_bin out | Some f \<Rightarrow> if f then 1 else 0) \<and>
      calls = map (\<lambda>m. the (tag_entry m)) ts)"
proof -
  have mem: "level_names ! i \<in> set level_names" if "i < 6" for i using that by (intro nth_mem) simp
  have "level_from_name (cstr lvl) < 0 \<longleftrightarrow> cstr lvl \<notin> set level_names"
    using level_from_name_cases [of "cstr lvl"]
  proof (elim disjE conjE exE)
    fix i assume "i < 6" "level_from_name (cstr lvl) = int i" "level_names ! i = cstr lvl"
    with mem [of i] show ?thesis by simp
  qed simp
  moreover have "\<not> level_from_name (cstr lvl) < 0 \<Longrightarrow> level_names ! nat (level_from_name (cstr lvl)) = cstr lvl"
    using level_from_name_cases [of "cstr lvl"] by auto
  ultimately show ?thesis
    by (simp add: decode_log_config_node [OF assms(1)] assms(2-4) Let_def comp_def split: option.split)
qed

theorem log_config_decoded_witness:
  "\<exists>r out' calls. decode_log_config r log_config_init = (ESP_OK, out', calls) \<and>
    calls = [(''wifi'', 4)]"
proof -
  let ?ms = "[(''level'', JStr ''warn''), (''tags'', JObj [(''wifi'', JStr ''debug'')])]"
  have "json_size (JObj ?ms) \<le> rd_max_tokens (sc_json_doc 8)"
    by (simp add: sc_json_doc_def)
  from reader_parse_render [OF this] obtain r where r: "node r 0 (JObj ?ms)" by blast
  have e: "tag_entry (''wifi'', JStr ''debug'') = Some (''wifi'', 4)" "cstr ''warn'' \<in> set level_names"
    by code_simp+
  obtain ret out' calls where d: "decode_log_config r log_config_init = (ret, out', calls)"
    by (metis prod_cases3)
  with log_config_decoded [OF r, of "[(''wifi'', JStr ''debug'')]" "''warn''" log_config_init] e
  have "ret = ESP_OK" "calls = [(''wifi'', 4)]"
    by (simp_all add: json_member_def str_member_def log_config_init_def)
  with d show ?thesis by blast
qed

end
