(* ===== verification/Kconfig.thy ===== *)
theory Kconfig
  imports Sc_Base
begin

text \<open>
  The build-time options of \<open>Kconfig\<close> that the client's behaviour depends on, with the ranges
  the configuration menu allows. Every definition takes them as an argument, every theorem holds
  for all values in range.
\<close>

record kconfig =
  k_queue_len :: nat
  k_payload_max :: nat
  k_result_max :: nat
  k_shell_max_cmds :: nat
  k_log_batch_size :: nat
  k_log_line_max :: nat
  k_log_qos1 :: bool
  k_log_bin :: bool
  k_log_text :: bool
  k_ota_http_buffer :: nat
  k_heartbeat_sec :: nat
  k_mark_app_valid :: bool
  k_api_url :: string
  k_target :: string

definition kconfig_ok :: "kconfig \<Rightarrow> bool" where
  "kconfig_ok k \<longleftrightarrow>
     1 \<le> k_queue_len k \<and> k_queue_len k \<le> 16 \<and>
     256 \<le> k_payload_max k \<and> k_payload_max k \<le> 4096 \<and>
     256 \<le> k_result_max k \<and> k_result_max k \<le> 8192 \<and>
     8 \<le> k_shell_max_cmds k \<and> k_shell_max_cmds k \<le> 64 \<and>
     512 \<le> k_log_batch_size k \<and> k_log_batch_size k \<le> 8192 \<and>
     64 \<le> k_log_line_max k \<and> k_log_line_max k \<le> 1024 \<and>
     k_log_line_max k < k_log_batch_size k \<and>
     0 < k_ota_http_buffer k \<and> 10 \<le> k_heartbeat_sec k \<and> k_heartbeat_sec k \<le> 3600"

text \<open>The defaults.\<close>

definition kconfig_default :: kconfig where
  "kconfig_default = \<lparr>k_queue_len = 4, k_payload_max = 768, k_result_max = 1536, k_shell_max_cmds = 32,
     k_log_batch_size = 2048, k_log_line_max = 256, k_log_qos1 = False, k_log_bin = True, k_log_text = True,
     k_ota_http_buffer = 4096,
     k_heartbeat_sec = 60, k_mark_app_valid = True, k_api_url = ''https://iot.example.com'',
     k_target = ''esp32''\<rparr>"

lemma kconfig_default_ok: "kconfig_ok kconfig_default"
  by (simp add: kconfig_ok_def kconfig_default_def)

end
