(* ===== verification/Mqtt_Link.thy ===== *)
theory Mqtt_Link
  imports Kconfig "HOL-Library.Sublist"
begin

text \<open>
  The connection state and the publishing half of \<open>sc_mqtt\<close> (\<open>src/sc_mqtt.hpp\<close>,
  \<open>src/sc_mqtt.cpp\<close>).

  esp-mqtt and FreeRTOS are not modelled: the calls the client makes into them are recorded, in
  order, in \<open>mq_calls\<close>, and their results come from an environment \<open>mqtt_env\<close> that may answer
  differently after every call made so far. A theorem about all environments is therefore about
  every behaviour of the network, the outbox and the publish mutex.
\<close>

subsection \<open>State and environment\<close>

record sc_publish_props =
  pp_content_type :: "string option"
  pp_correlation :: string
  pp_response_topic :: "string option"

datatype mqtt_call =
    TakeLock
  | GiveLock
  | SetProps sc_publish_props
  | Publish string string int
  | Subscribe string int
  | Disconnect
  | ClientStart
  | ClientStop

record mqtt_env =
  me_lock :: "mqtt_call list \<Rightarrow> bool"
  me_set_props :: "mqtt_call list \<Rightarrow> esp_err"
  me_publish :: "mqtt_call list \<Rightarrow> int"
  me_subscribe :: "mqtt_call list \<Rightarrow> int"
  me_start :: "mqtt_call list \<Rightarrow> esp_err"
  me_stop :: "mqtt_call list \<Rightarrow> esp_err"

text \<open>
  \<open>mq_up\<close> and \<open>mq_down\<close> are the C strings in \<open>up_topic\<close> and \<open>down_topic\<close>; \<open>mq_down_len\<close> is
  \<open>down_topic_len\<close>. \<open>mq_rx_slot\<close> is the index of the slot being filled.
\<close>

record sc_mqtt =
  mq_connected :: bool
  mq_up :: string
  mq_down :: string
  mq_down_len :: nat
  mq_rx_slot :: "nat option"
  mq_rx_response :: bool
  mq_rx_correlation :: string
  mq_callback :: bool
  mq_notified :: "bool list"
  mq_calls :: "mqtt_call list"

text \<open>
  The topics \<open>init\<close> computes. \<open>mq_callback\<close> says whether a connection callback is set;
  \<open>mq_notified\<close> records its calls.
\<close>

definition mqtt_init :: "string \<Rightarrow> sc_mqtt" where
  "mqtt_init device_id =
     \<lparr>mq_connected = False, mq_up = snprintf 32 (''d/'' @ device_id @ ''/up/''),
      mq_down = snprintf 32 (''d/'' @ device_id @ ''/down/''),
      mq_down_len = length (''d/'' @ device_id @ ''/down/''),
      mq_rx_slot = None, mq_rx_response = False, mq_rx_correlation = [],
      mq_callback = False, mq_notified = [], mq_calls = []\<rparr>"

text \<open>
  The rest of \<open>init\<close>, given whether the mutex and the MQTT client could be created and what the
  two configuration calls return.
\<close>

record mqtt_init_env =
  mi_mutex :: bool
  mi_client :: bool
  mi_connect_property :: esp_err
  mi_register_event :: esp_err

definition mqtt_setup :: "mqtt_init_env \<Rightarrow> string \<Rightarrow> esp_err \<times> sc_mqtt" where
  "mqtt_setup ie device_id =
     (let mq = mqtt_init device_id in
      if \<not> mi_mutex ie then (ESP_ERR_NO_MEM, mq)
      else if \<not> mi_client ie then (ESP_ERR_NO_MEM, mq)
      else (if mi_connect_property ie \<noteq> ESP_OK then mi_connect_property ie else mi_register_event ie, mq))"

definition mq_call :: "mqtt_call \<Rightarrow> sc_mqtt \<Rightarrow> sc_mqtt" where
  "mq_call c mq = mq\<lparr>mq_calls := mq_calls mq @ [c]\<rparr>"

definition mqtt_start :: "mqtt_env \<Rightarrow> sc_mqtt \<Rightarrow> esp_err \<times> sc_mqtt" where
  "mqtt_start env mq = (me_start env (mq_calls mq), mq_call ClientStart mq)"

definition mqtt_stop :: "mqtt_env \<Rightarrow> sc_mqtt \<Rightarrow> esp_err \<times> sc_mqtt" where
  "mqtt_stop env mq = (me_stop env (mq_calls mq), mq_call ClientStop (mq\<lparr>mq_connected := False\<rparr>))"

definition mqtt_set_connection_cb :: "bool \<Rightarrow> sc_mqtt \<Rightarrow> sc_mqtt" where
  "mqtt_set_connection_cb cb mq = mq\<lparr>mq_callback := cb\<rparr>"

text \<open>\<open>strncmp(a, b, n) == 0\<close>.\<close>

definition strncmp_eq :: "string \<Rightarrow> string \<Rightarrow> nat \<Rightarrow> bool" where
  "strncmp_eq a b n \<longleftrightarrow> take n (cstr a) = take n (cstr b)"

subsection \<open>Publishing\<close>

definition publish_topic ::
    "mqtt_env \<Rightarrow> string \<Rightarrow> string \<Rightarrow> int \<Rightarrow> sc_publish_props option \<Rightarrow> sc_mqtt \<Rightarrow> esp_err \<times> sc_mqtt" where
  "publish_topic env topic data qos props mq =
     (if \<not> strncmp_eq topic (mq_up mq) (length (cstr (mq_up mq))) then (ESP_ERR_INVALID_ARG, mq)
      else if \<not> mq_connected mq then (ESP_ERR_INVALID_STATE, mq)
      else
        let locked = me_lock env (mq_calls mq);
            mq = mq_call TakeLock mq in
        if \<not> locked then (ESP_ERR_TIMEOUT, mq)
        else
          let (ret, mq) = (case props of
                None \<Rightarrow> (ESP_OK, mq)
              | Some p \<Rightarrow> (me_set_props env (mq_calls mq), mq_call (SetProps p) mq));
              (ret, mq) = (if ret = ESP_OK
                then let msg_id = me_publish env (mq_calls mq);
                         mq = mq_call (Publish topic data qos) mq
                     in (if msg_id = -2 then ESP_ERR_NO_MEM else if msg_id < 0 then ESP_FAIL else ret, mq)
                else (ret, mq))
          in (ret, mq_call GiveLock mq))"

definition publish ::
    "mqtt_env \<Rightarrow> string \<Rightarrow> string \<Rightarrow> int \<Rightarrow> sc_publish_props option \<Rightarrow> sc_mqtt \<Rightarrow> esp_err \<times> sc_mqtt" where
  "publish env sub_topic data qos props mq =
     (if length (mq_up mq @ sub_topic) \<ge> 96 then (ESP_ERR_INVALID_SIZE, mq)
      else publish_topic env (mq_up mq @ sub_topic) data qos props mq)"

subsection \<open>What publishing sends\<close>

definition sent :: "sc_mqtt \<Rightarrow> (string \<times> string \<times> int) list" where
  "sent mq = List.map_filter (\<lambda>c. case c of Publish t d q \<Rightarrow> Some (t, d, q) | _ \<Rightarrow> None) (mq_calls mq)"

lemma sent_call [simp]:
  "sent (mq_call c mq) = sent mq @ (case c of Publish t d q \<Rightarrow> [(t, d, q)] | _ \<Rightarrow> [])"
  by (cases c) (simp_all add: sent_def mq_call_def List.map_filter_def)

lemma mq_call_frame [simp]:
  "mq_connected (mq_call c mq) = mq_connected mq" "mq_up (mq_call c mq) = mq_up mq"
  "mq_down (mq_call c mq) = mq_down mq" "mq_down_len (mq_call c mq) = mq_down_len mq"
  "mq_rx_slot (mq_call c mq) = mq_rx_slot mq" "mq_rx_response (mq_call c mq) = mq_rx_response mq"
  "mq_rx_correlation (mq_call c mq) = mq_rx_correlation mq" "mq_callback (mq_call c mq) = mq_callback mq"
  "mq_notified (mq_call c mq) = mq_notified mq"
  "mq_calls (mq_call c mq) = mq_calls mq @ [c]"
  by (simp_all add: mq_call_def)

text \<open>The calls one publish makes, and its result: nothing, a failed lock, or the whole sequence.\<close>

lemma publish_topic_cases:
  obtains (foreign) "\<not> strncmp_eq topic (mq_up mq) (length (cstr (mq_up mq)))"
      "publish_topic env topic data qos props mq = (ESP_ERR_INVALID_ARG, mq)"
  | (offline) "\<not> mq_connected mq" "publish_topic env topic data qos props mq = (ESP_ERR_INVALID_STATE, mq)"
  | (timeout) "publish_topic env topic data qos props mq = (ESP_ERR_TIMEOUT, mq_call TakeLock mq)"
  | (unset) e p where "e \<noteq> ESP_OK" "props = Some p" "publish_topic env topic data qos props mq =
        (e, mq_call GiveLock (mq_call (SetProps p) (mq_call TakeLock mq)))"
  | (published) e pre where "pre = (case props of None \<Rightarrow> [] | Some p \<Rightarrow> [SetProps p])"
      "strncmp_eq topic (mq_up mq) (length (cstr (mq_up mq)))" "mq_connected mq"
      "e \<in> {ESP_OK, ESP_ERR_NO_MEM, ESP_FAIL}"
      "publish_topic env topic data qos props mq = (e, mq\<lparr>mq_calls := mq_calls mq @
        [TakeLock] @ pre @ [Publish topic data qos, GiveLock]\<rparr>)"
proof -
  consider (f) "\<not> strncmp_eq topic (mq_up mq) (length (cstr (mq_up mq)))"
    | (o) "strncmp_eq topic (mq_up mq) (length (cstr (mq_up mq)))" "\<not> mq_connected mq"
    | (t) "strncmp_eq topic (mq_up mq) (length (cstr (mq_up mq)))" "mq_connected mq" "\<not> me_lock env (mq_calls mq)"
    | (n) "strncmp_eq topic (mq_up mq) (length (cstr (mq_up mq)))" "mq_connected mq" "me_lock env (mq_calls mq)"
      "props = None"
    | (s) p where "strncmp_eq topic (mq_up mq) (length (cstr (mq_up mq)))" "mq_connected mq"
      "me_lock env (mq_calls mq)" "props = Some p"
    by blast
  then show thesis
  proof cases
    case f then show thesis using foreign by (simp add: publish_topic_def)
  next
    case o then show thesis using offline by (simp add: publish_topic_def)
  next
    case t then show thesis using timeout by (simp add: publish_topic_def)
  next
    case n
    let ?id = "me_publish env (mq_calls mq @ [TakeLock])"
    show thesis
      by (rule published [of "[]" "if ?id = -2 then ESP_ERR_NO_MEM else if ?id < 0 then ESP_FAIL else ESP_OK"])
        (use n in \<open>simp_all add: publish_topic_def Let_def mq_call_def\<close>)
  next
    case s
    show thesis
    proof (cases "me_set_props env (mq_calls mq @ [TakeLock]) = ESP_OK")
      case True
      let ?id = "me_publish env (mq_calls mq @ [TakeLock, SetProps p])"
      show thesis
        by (rule published [of "[SetProps p]" "if ?id = -2 then ESP_ERR_NO_MEM else if ?id < 0 then ESP_FAIL else ESP_OK"])
          (use s True in \<open>simp_all add: publish_topic_def Let_def mq_call_def\<close>)
    next
      case False
      then show thesis using s by (intro unset [OF False]) (simp_all add: publish_topic_def Let_def)
    qed
  qed
qed

lemma strncmp_prefix:
  assumes "NUL \<notin> set up" and "NUL \<notin> set topic"
  shows "strncmp_eq topic up (length (cstr up)) \<longleftrightarrow> prefix up topic"
  using assms by (simp add: strncmp_eq_def cstr_no_nul) (metis append_eq_conv_conj append_take_drop_id prefix_def)

lemma publish_topic_frame:
  assumes "publish_topic env topic data qos props mq = (e, mq')"
  shows "mq_up mq' = mq_up mq" "mq_down mq' = mq_down mq" "mq_connected mq' = mq_connected mq"
    "mq_down_len mq' = mq_down_len mq" "mq_rx_slot mq' = mq_rx_slot mq"
    "mq_rx_response mq' = mq_rx_response mq" "mq_rx_correlation mq' = mq_rx_correlation mq"
    "mq_notified mq' = mq_notified mq"
  using assms
  by (cases rule: publish_topic_cases [of topic mq env data qos props thesis for thesis]; auto)+

text \<open>A publish on the topic of a client's choice, below the prefix or in full.\<close>

datatype outgoing = OnSub string string int "sc_publish_props option" | OnTopic string string int "sc_publish_props option"

fun send :: "mqtt_env \<Rightarrow> outgoing \<Rightarrow> sc_mqtt \<Rightarrow> esp_err \<times> sc_mqtt" where
  "send env (OnSub t d q p) mq = publish env t d q p mq"
| "send env (OnTopic t d q p) mq = publish_topic env t d q p mq"

text \<open>The topic an outgoing message would be published on, and its payload.\<close>

fun target :: "string \<Rightarrow> outgoing \<Rightarrow> string \<times> string \<times> int" where
  "target up (OnSub t d q p) = (up @ t, d, q)"
| "target up (OnTopic t d q p) = (t, d, q)"

fun props_of :: "outgoing \<Rightarrow> sc_publish_props option" where
  "props_of (OnSub t d q p) = p"
| "props_of (OnTopic t d q p) = p"

lemma publish_topic_sent:
  assumes "publish_topic env topic data qos props mq = (e, mq')"
  shows "sent mq' = sent mq \<or>
      (sent mq' = sent mq @ [(topic, data, qos)] \<and> mq_connected mq \<and>
       strncmp_eq topic (mq_up mq) (length (cstr (mq_up mq))))"
    and "e = ESP_OK \<Longrightarrow> sent mq' = sent mq @ [(topic, data, qos)]"
proof -
  have app: "sent (mq\<lparr>mq_calls := mq_calls mq @ [TakeLock] @ (case props of None \<Rightarrow> [] | Some p \<Rightarrow> [SetProps p]) @
      [Publish topic data qos, GiveLock]\<rparr>) = sent mq @ [(topic, data, qos)]"
    by (simp add: sent_def List.map_filter_def split: option.split)
  show "sent mq' = sent mq \<or> (sent mq' = sent mq @ [(topic, data, qos)] \<and> mq_connected mq \<and>
       strncmp_eq topic (mq_up mq) (length (cstr (mq_up mq))))"
    and "e = ESP_OK \<Longrightarrow> sent mq' = sent mq @ [(topic, data, qos)]"
    using assms app
    by (cases rule: publish_topic_cases [of topic mq env data qos props thesis for thesis]; auto)+
qed

text \<open>What the other components rely on when they publish.\<close>

locale publisher =
  fixes pub :: "'m \<Rightarrow> 's \<Rightarrow> esp_err \<times> 's"
    and out :: "'s \<Rightarrow> (string \<times> string \<times> int) list"
    and dest :: "'s \<Rightarrow> 'm \<Rightarrow> string \<times> string \<times> int"
    and allowed :: "'s \<Rightarrow> string \<Rightarrow> bool"
  assumes law_sent: "pub m s = (e, s') \<Longrightarrow>
      out s' = out s \<or> (out s' = out s @ [dest s m] \<and> allowed s (fst (dest s m)))"
    and law_ok: "pub m s = (ESP_OK, s') \<Longrightarrow> out s' = out s @ [dest s m]"
    and law_dest: "pub m s = (e, s') \<Longrightarrow> dest s' = dest s \<and> allowed s' = allowed s"
begin

fun pubs :: "'m list \<Rightarrow> 's \<Rightarrow> 's" where
  "pubs [] s = s"
| "pubs (m # ms) s = pubs ms (snd (pub m s))"

text \<open>A component that only publishes sends a selection of its messages, in order.\<close>

lemma pubs_sent:
  "\<exists>ns. out (pubs ms s) = out s @ ns \<and> subseq ns (map (dest s) ms) \<and> (\<forall>n \<in> set ns. allowed s (fst n))"
proof (induction ms arbitrary: s)
  case (Cons m ms)
  obtain e s' where p: "pub m s = (e, s')" by (cases "pub m s")
  from Cons.IH [of s'] obtain ns where ns: "out (pubs ms s') = out s' @ ns"
    "subseq ns (map (dest s') ms)" "\<forall>n \<in> set ns. allowed s' (fst n)" by blast
  from law_sent [OF p] law_dest [OF p] ns p show ?case
  proof (elim disjE conjE)
    assume "out s' = out s @ [dest s m]" "allowed s (fst (dest s m))"
    with law_dest [OF p] ns p show ?thesis by (intro exI [of _ "dest s m # ns"]) simp
  qed (auto intro: exI [of _ ns])
qed simp

end

lemma publish_sent:
  assumes "publish env t data qos props mq = (e, mq')"
  shows "sent mq' = sent mq \<or>
      (sent mq' = sent mq @ [(mq_up mq @ t, data, qos)] \<and> mq_connected mq)"
    and "e = ESP_OK \<Longrightarrow> sent mq' = sent mq @ [(mq_up mq @ t, data, qos)]"
    and "mq_up mq' = mq_up mq" and "mq_connected mq' = mq_connected mq"
proof -
  have c: "(e = ESP_ERR_INVALID_SIZE \<and> mq' = mq) \<or>
      publish_topic env (mq_up mq @ t) data qos props mq = (e, mq')"
    using assms by (auto simp: publish_def split: if_split_asm)
  show "sent mq' = sent mq \<or> (sent mq' = sent mq @ [(mq_up mq @ t, data, qos)] \<and> mq_connected mq)"
    using c publish_topic_sent(1) by blast
  show "e = ESP_OK \<Longrightarrow> sent mq' = sent mq @ [(mq_up mq @ t, data, qos)]"
    using c publish_topic_sent(2) by blast
  show "mq_up mq' = mq_up mq" and "mq_connected mq' = mq_connected mq"
    using c publish_topic_frame(1,3) by blast+
qed

definition may_publish :: "sc_mqtt \<Rightarrow> string \<Rightarrow> bool" where
  "may_publish mq t \<longleftrightarrow> mq_connected mq \<and> strncmp_eq t (mq_up mq) (length (cstr (mq_up mq)))"

lemma strncmp_eq_append: "strncmp_eq (up @ t) up (length (cstr up))"
proof (cases "NUL \<in> set up")
  case True
  then have "cstr (up @ t) = cstr up" by (auto simp: cstr_def intro: takeWhile_append1)
  then show ?thesis by (simp add: strncmp_eq_def)
next
  case False
  then show ?thesis by (simp add: strncmp_eq_def cstr_no_nul cstr_append)
qed

interpretation mqtt_pub: publisher "send env" sent "\<lambda>mq. target (mq_up mq)" may_publish for env
proof unfold_locales
  fix m s e s'
  assume p: "send env m s = (e, s')"
  show "sent s' = sent s \<or> (sent s' = sent s @ [target (mq_up s) m] \<and> may_publish s (fst (target (mq_up s) m)))"
    using p publish_topic_sent(1) publish_sent(1) strncmp_eq_append
    by (cases m) (fastforce simp: may_publish_def)+
  show "target (mq_up s') = target (mq_up s) \<and> may_publish s' = may_publish s"
    using p publish_topic_frame publish_sent(3,4) by (cases m) (simp_all add: may_publish_def [abs_def])
next
  fix m s s'
  assume p: "send env m s = (ESP_OK, s')"
  show "sent s' = sent s @ [target (mq_up s) m]"
    using p publish_topic_sent(2) publish_sent(2) by (cases m) auto
qed

text \<open>An environment that takes what is published: the lock is free, the outbox has room.\<close>

definition env_takes :: "mqtt_env \<Rightarrow> bool" where
  "env_takes env \<longleftrightarrow> (\<forall>t. me_lock env t \<and> me_set_props env t = ESP_OK \<and> 0 \<le> me_publish env t)"

lemma publish_topic_takes:
  assumes "env_takes env" and "mq_connected mq" and "NUL \<notin> set topic" and "NUL \<notin> set (mq_up mq)"
    and "prefix (mq_up mq) topic"
  shows "publish_topic env topic data qos (Some p) mq = (ESP_OK, mq\<lparr>mq_calls := mq_calls mq @
    [TakeLock, SetProps p, Publish topic data qos, GiveLock]\<rparr>)"
proof -
  have lock: "me_lock env t" "me_set_props env t = ESP_OK" "0 \<le> me_publish env t" for t
    using assms(1) unfolding env_takes_def by blast+
  have "me_publish env t \<noteq> -2" "\<not> me_publish env t < 0" for t using lock(3) [of t] by linarith+
  with lock assms strncmp_prefix [of "mq_up mq" topic] show ?thesis
    by (simp add: publish_topic_def Let_def mq_call_def)
qed

lemma publish_takes:
  assumes "env_takes env" and "mq_connected mq" and "NUL \<notin> set (mq_up mq)" and "NUL \<notin> set t"
    and "length (mq_up mq) + length t < 96"
  shows "publish env t data qos (Some p) mq = (ESP_OK, mq\<lparr>mq_calls := mq_calls mq @
    [TakeLock, SetProps p, Publish (mq_up mq @ t) data qos, GiveLock]\<rparr>)"
  using assms(3-5) by (simp add: publish_def publish_topic_takes [OF assms(1,2)])

subsection \<open>Properties\<close>

text \<open>
  C14: Everything is published under the device's own prefix and only while connected. Whatever the
  environment answers, one publish sends nothing or exactly the given payload once, with the given
  quality of service; when it does, the connection is up and the topic lies under
  \<open>d/<id>/up/\<close>; and it answers \<open>ESP_OK\<close> only if it has sent.
\<close>

theorem publish_confined:
  assumes "publish_topic env topic data qos props mq = (e, mq')"
    and "NUL \<notin> set topic" and "NUL \<notin> set (mq_up mq)"
  shows "(sent mq' = sent mq \<or>
      (sent mq' = sent mq @ [(topic, data, qos)] \<and> mq_connected mq \<and> prefix (mq_up mq) topic)) \<and>
    (e = ESP_OK \<longrightarrow> sent mq' = sent mq @ [(topic, data, qos)]) \<and>
    (\<not> prefix (mq_up mq) topic \<longrightarrow> e = ESP_ERR_INVALID_ARG) \<and>
    (prefix (mq_up mq) topic \<longrightarrow> \<not> mq_connected mq \<longrightarrow> e = ESP_ERR_INVALID_STATE)"
proof -
  have "\<not> prefix (mq_up mq) topic \<longrightarrow> e = ESP_ERR_INVALID_ARG"
    and "prefix (mq_up mq) topic \<longrightarrow> \<not> mq_connected mq \<longrightarrow> e = ESP_ERR_INVALID_STATE"
    using assms(1) strncmp_prefix [OF assms(3,2)] by (auto simp: publish_topic_def)
  with publish_topic_sent [OF assms(1)] strncmp_prefix [OF assms(3,2)] show ?thesis by blast
qed

definition env_ok :: mqtt_env where
  "env_ok = \<lparr>me_lock = (\<lambda>_. True), me_set_props = (\<lambda>_. ESP_OK), me_publish = (\<lambda>_. 7),
     me_subscribe = (\<lambda>_. 1), me_start = (\<lambda>_. ESP_OK), me_stop = (\<lambda>_. ESP_OK)\<rparr>"

theorem publish_confined_witness:
  "\<exists>mq'. publish_topic env_ok ''d/1/up/x'' ''p'' 1 None (mqtt_init ''1''\<lparr>mq_connected := True\<rparr>) = (ESP_OK, mq') \<and>
    sent mq' = [(''d/1/up/x'', ''p'', 1)]"
proof -
  let ?mq = "mqtt_init ''1''\<lparr>mq_connected := True\<rparr>"
  have "fst (publish_topic env_ok ''d/1/up/x'' ''p'' 1 None ?mq) = ESP_OK"
    by (simp add: publish_topic_def env_ok_def mqtt_init_def snprintf_def strncmp_eq_def cstr_def mq_call_def Let_def)
  then obtain mq' where p: "publish_topic env_ok ''d/1/up/x'' ''p'' 1 None ?mq = (ESP_OK, mq')"
    by (cases "publish_topic env_ok ''d/1/up/x'' ''p'' 1 None ?mq") auto
  have "sent ?mq = []" "NUL \<notin> set (mq_up ?mq)"
    by (simp_all add: sent_def mqtt_init_def List.map_filter_def snprintf_def)
  with p publish_confined [OF p] show ?thesis by auto
qed

lemma env_ok_takes: "env_takes env_ok"
  by (simp add: env_takes_def env_ok_def)

end
