(* ===== verification/Ota.thy ===== *)
theory Ota
  imports Codec Mqtt_Link
begin

text \<open>
  \<open>sc_ota\<close> (\<open>src/sc_ota.hpp\<close>, \<open>src/sc_ota.cpp\<close>): firmware updates pulled over HTTPS.

  The HTTP client, the OTA partition, the hash and the clock are ESP-IDF. Their calls are recorded in
  order in \<open>ow_calls\<close>, and an environment gives each call's result as a function of the calls so
  far; so does the cancel flag, which the request task may set between any two of them. \<open>ow_flash\<close>
  is what has been written to the partition since \<open>esp_ota_begin\<close>; \<open>ox_sha256\<close> is the hash function.

  The PSA hash operation can fail in every call. \<open>ow_hash\<close> is what it has been fed, or None from a
  failing call on: PSA then has the operation in an error state, in which further calls fail too.
  The code looks at the result of \<open>psa_hash_setup\<close> only. After a failing \<open>psa_hash_finish\<close>, \<open>ox_hash_left\<close>
  is what is in the caller's zeroed buffer: the zeros, if the library leaves it alone.
\<close>

subsection \<open>State and environment\<close>

record sc_ota =
  ot_params :: sc_ota_params
  ot_running :: bool
  ot_cancel_requested :: bool
  ot_last_progress :: int
  ot_last_report_us :: int

definition ota_init :: sc_ota where
  "ota_init = \<lparr>ot_params = ota_params_init, ot_running = False, ot_cancel_requested = False,
     ot_last_progress = -1, ot_last_report_us = 0\<rparr>"

datatype ota_call =
    NextPartition | OtaBegin | OtaAbort | OtaEnd | SetBoot | Restart
  | Malloc | HashSetup | HashUpdate | HashFinish | HashAbort
  | HttpInit | SetRange nat | HttpOpen | HttpFetch | HttpStatus int | HttpRead nat | HttpClose
  | FlashWrite string | GetTime | CheckCancel | Delay nat

record ota_env =
  ox_partition :: "ota_call list \<Rightarrow> u32 option"
  ox_begin :: "ota_call list \<Rightarrow> esp_err"
  ox_end :: "ota_call list \<Rightarrow> esp_err"
  ox_set_boot :: "ota_call list \<Rightarrow> esp_err"
  ox_malloc :: "ota_call list \<Rightarrow> bool"
  ox_hash_setup :: "ota_call list \<Rightarrow> bool"
  ox_hash_update :: "ota_call list \<Rightarrow> bool"
  ox_hash_finish :: "ota_call list \<Rightarrow> bool"
  ox_hash_left :: "ota_call list \<Rightarrow> u8 list \<Rightarrow> u8 list"
  ox_http_init :: "ota_call list \<Rightarrow> bool"
  ox_open :: "ota_call list \<Rightarrow> esp_err"
  ox_fetch :: "ota_call list \<Rightarrow> int"
  ox_status :: "ota_call list \<Rightarrow> int"
  ox_read :: "ota_call list \<Rightarrow> nat \<Rightarrow> string option"
  ox_write :: "ota_call list \<Rightarrow> esp_err"
  ox_time :: "ota_call list \<Rightarrow> int"
  ox_cancel :: "ota_call list \<Rightarrow> bool"
  ox_sha256 :: "string \<Rightarrow> u8 list"
  ox_err_name :: "esp_err \<Rightarrow> string"

record ota_world =
  ow_calls :: "ota_call list"
  ow_flash :: string
  ow_hash :: "string option"
  ow_mqtt :: sc_mqtt

definition ow_call :: "ota_call \<Rightarrow> ota_world \<Rightarrow> ota_world" where
  "ow_call c w = w\<lparr>ow_calls := ow_calls w @ [c]\<rparr>"

text \<open>\<open>psa_hash_update\<close> and \<open>psa_hash_finish\<close>, as \<open>download\<close> and \<open>download_from\<close> call them.\<close>

definition hash_update :: "ota_env \<Rightarrow> string \<Rightarrow> ota_world \<Rightarrow> ota_world" where
  "hash_update env bytes w =
     (let ok = ow_hash w \<noteq> None \<and> ox_hash_update env (ow_calls w)
      in (ow_call HashUpdate w)\<lparr>ow_hash := if ok then Some (the (ow_hash w) @ bytes) else None\<rparr>)"

definition hash_finish :: "ota_env \<Rightarrow> u8 list \<Rightarrow> ota_world \<Rightarrow> u8 list \<times> ota_world" where
  "hash_finish env sha256_out w =
     (if ow_hash w \<noteq> None \<and> ox_hash_finish env (ow_calls w)
      then (ox_sha256 env (the (ow_hash w)), ow_call HashFinish w)
      else (ox_hash_left env (ow_calls w) sha256_out, (ow_call HashFinish w)\<lparr>ow_hash := None\<rparr>))"

definition MAX_ATTEMPTS :: nat where "MAX_ATTEMPTS = 5"
definition REPORT_INTERVAL_US :: int where "REPORT_INTERVAL_US = 2000000"
definition RESTART_DELAY_MS :: nat where "RESTART_DELAY_MS = 1500"

abbreviation ota_size :: "sc_ota \<Rightarrow> nat" where
  "ota_size ota \<equiv> unat (op_size (ot_params ota))"

subsection \<open>Requests to it\<close>

definition ota_start :: "bool \<Rightarrow> sc_ota_params \<Rightarrow> sc_ota \<Rightarrow> esp_err \<times> sc_ota" where
  "ota_start task_created params ota =
     (if ot_running ota
      then (if cstr (op_task_id params) = cstr (op_task_id (ot_params ota)) then ESP_OK else ESP_ERR_INVALID_STATE, ota)
      else
        let ota = ota\<lparr>ot_params := params, ot_running := True, ot_cancel_requested := False,
                      ot_last_progress := -1, ot_last_report_us := 0\<rparr> in
        if \<not> task_created then (ESP_ERR_NO_MEM, ota\<lparr>ot_running := False\<rparr>) else (ESP_OK, ota))"

definition ota_cancel :: "string \<Rightarrow> sc_ota \<Rightarrow> esp_err \<times> sc_ota" where
  "ota_cancel task_id ota =
     (if \<not> ot_running ota \<or> cstr task_id \<noteq> cstr (op_task_id (ot_params ota)) then (ESP_ERR_NOT_FOUND, ota)
      else (ESP_OK, ota\<lparr>ot_cancel_requested := True\<rparr>))"

subsection \<open>Reports\<close>

definition ota_event :: "sc_ota \<Rightarrow> string \<Rightarrow> int \<Rightarrow> string option \<Rightarrow> sc_ota_event" where
  "ota_event ota state progress error =
     \<lparr>oe_task_id = Some (op_task_id (ot_params ota)), oe_state = Some state, oe_progress = progress, oe_error = error\<rparr>"

definition ota_report ::
    "mqtt_env \<Rightarrow> sc_ota \<Rightarrow> string \<Rightarrow> int \<Rightarrow> string option \<Rightarrow> ota_world \<Rightarrow> ota_world" where
  "ota_report menv ota state progress error w =
     (case encode_ota_event (ota_event ota state progress error) (replicate 256 NUL) 256 of
        (ret, len, body) \<Rightarrow>
          if ret = ESP_OK
          then w\<lparr>ow_mqtt := snd (publish menv ''evt/ota'' (take (the len) body) 1
                   (Some \<lparr>pp_content_type = Some ''application/json'', pp_correlation = [], pp_response_topic = None\<rparr>)
                   (ow_mqtt w))\<rparr>
          else w)"

subsection \<open>The download\<close>

text \<open>
  The read loop of \<open>download_from\<close>. Every turn reads at least one byte, so it ends.
\<close>

definition progress_report :: "ota_env \<Rightarrow> mqtt_env \<Rightarrow> nat \<Rightarrow> sc_ota \<times> ota_world \<Rightarrow> sc_ota \<times> ota_world" where
  "progress_report env menv done s =
     (case s of (ota, w) \<Rightarrow>
        let progress = int (done * 100 div ota_size ota);
            now = ox_time env (ow_calls w);
            w = ow_call GetTime w in
        if progress \<noteq> ot_last_progress ota \<and> now - ot_last_report_us ota \<ge> REPORT_INTERVAL_US
        then (ota\<lparr>ot_last_progress := progress, ot_last_report_us := now\<rparr>,
              ota_report menv ota ''downloading'' progress None w)
        else (ota, w))"

lemma progress_report_params [simp]: "ot_params (fst (progress_report env menv n s)) = ot_params (fst s)"
  by (simp add: progress_report_def Let_def split: prod.split)

function read_loop ::
    "kconfig \<Rightarrow> ota_env \<Rightarrow> mqtt_env \<Rightarrow> nat \<Rightarrow> nat \<Rightarrow> sc_ota \<times> ota_world \<Rightarrow> int \<times> sc_ota \<times> ota_world" where
  "read_loop cfg env menv offset total_read s =
     (let (ota, w) = s in
      if \<not> offset + total_read < ota_size ota then (int total_read, s)
      else
        let cancelled = ox_cancel env (ow_calls w); w = ow_call CheckCancel w in
        if cancelled then (int total_read, ota, w)
        else
          let want = min (ota_size ota - offset - total_read) (k_ota_http_buffer cfg);
              bytes = ox_read env (ow_calls w) want;
              w = ow_call (HttpRead want) w in
          if bytes = None \<or> bytes = Some [] then (int total_read, ota, w)
          else
            let ret = ox_write env (ow_calls w);
                w = ow_call (FlashWrite (the bytes)) w in
            if ret \<noteq> ESP_OK then (-2, ota, w)
            else
              let w = hash_update env (the bytes) (w\<lparr>ow_flash := ow_flash w @ the bytes\<rparr>);
                  total_read = total_read + length (the bytes)
              in read_loop cfg env menv offset total_read (progress_report env menv (offset + total_read) (ota, w)))"
  by pat_completeness auto
termination
proof (relation "measure (\<lambda>(cfg, env, menv, offset, total_read, s). ota_size (fst s) - (offset + total_read))", goal_cases)
  case (2 cfg env menv offset total_read s)
  then show ?case by (auto simp: Let_def intro!: diff_less_mono2)
qed simp

declare read_loop.simps [simp del]

definition download_from ::
    "kconfig \<Rightarrow> ota_env \<Rightarrow> mqtt_env \<Rightarrow> nat \<Rightarrow> sc_ota \<times> ota_world \<Rightarrow> int \<times> sc_ota \<times> ota_world" where
  "download_from cfg env menv offset s =
     (let (ota, w) = s;
          client = ox_http_init env (ow_calls w);
          w = ow_call HttpInit w in
      if \<not> client then (-1, ota, w)
      else
        let w = (if offset > 0 then ow_call (SetRange offset) w else w);
            opened = ox_open env (ow_calls w);
            w = ow_call HttpOpen w;
            (status, w) =
              (if opened = ESP_OK
               then let headers = ox_fetch env (ow_calls w); w = ow_call HttpFetch w in
                    if headers \<ge> 0
                    then let status = ox_status env (ow_calls w) in (status, ow_call (HttpStatus status) w)
                    else (0, w)
               else (0, w));
            status_ok = (if offset = 0 then status = 200 else status = 206);
            (total_read, ota, w) =
              (if \<not> status_ok then (if status \<ge> 400 then -2 else -1, ota, w)
               else read_loop cfg env menv offset 0 (ota, w))
        in (if total_read = 0 then -1 else total_read, ota, ow_call HttpClose w))"

text \<open>
  The loop of \<open>download\<close>: a turn makes progress, or counts one of at most five failed attempts
  in a row.
\<close>

lemma read_loop_params: "ot_params (fst (snd (read_loop cfg env menv offset n s))) = ot_params (fst s)"
proof (induction cfg env menv offset n s rule: read_loop.induct)
  case (1 cfg env menv offset n s)
  show ?case
    using 1 by (subst read_loop.simps) (auto simp: Let_def split: prod.split)
qed

lemma download_from_params: "ot_params (fst (snd (download_from cfg env menv offset s))) = ot_params (fst s)"
  by (simp add: download_from_def Let_def case_prod_beta read_loop_params)

function download_loop ::
    "kconfig \<Rightarrow> ota_env \<Rightarrow> mqtt_env \<Rightarrow> nat \<Rightarrow> nat \<Rightarrow> sc_ota \<times> ota_world \<Rightarrow> esp_err \<times> sc_ota \<times> ota_world" where
  "download_loop cfg env menv offset attempts s =
     (let (ota, w) = s in
      if \<not> offset < ota_size ota then (ESP_OK, s)
      else
        let cancelled = ox_cancel env (ow_calls w); w = ow_call CheckCancel w in
        if cancelled then (ESP_ERR_INVALID_STATE, ota, w)
        else
          let (read_len, s) = download_from cfg env menv offset (ota, w) in
          if read_len > 0 then download_loop cfg env menv (offset + nat read_len) 0 s
          else
            let attempts = attempts + 1 in
            if read_len < -1 \<or> attempts \<ge> MAX_ATTEMPTS
            then (if read_len < -1 then ESP_ERR_INVALID_RESPONSE else ESP_ERR_TIMEOUT, s)
            else download_loop cfg env menv offset attempts (fst s, ow_call (Delay (1000 * attempts)) (snd s)))"
  by pat_completeness auto
termination
proof (relation "measures [\<lambda>(cfg, env, menv, offset, attempts, s). ota_size (fst s) - offset,
    \<lambda>(cfg, env, menv, offset, attempts, s). MAX_ATTEMPTS - attempts]", goal_cases)
  case (2 cfg env menv offset attempts s x ota w xa wa xb read_len sa)
  then show ?case
    using download_from_params [of cfg env menv offset "(ota, wa)"]
    by (cases sa) (auto simp: Let_def intro!: diff_less_mono2 dest: sym)
next
  case (3 cfg env menv offset attempts s x ota w xa wa xb read_len sa)
  then show ?case
    using download_from_params [of cfg env menv offset "(ota, wa)"]
    by (cases sa) (auto simp: Let_def dest: sym)
qed simp

declare download_loop.simps [simp del]

definition download ::
    "kconfig \<Rightarrow> ota_env \<Rightarrow> mqtt_env \<Rightarrow> sc_ota \<times> ota_world \<Rightarrow> esp_err \<times> u8 list \<times> sc_ota \<times> ota_world" where
  "download cfg env menv s =
     (let (ota, w) = s;
          buf = ox_malloc env (ow_calls w);
          w = ow_call Malloc w in
      if \<not> buf then (ESP_ERR_NO_MEM, replicate 32 0, ota, w)
      else
        let setup = ox_hash_setup env (ow_calls w);
            w = (ow_call HashSetup w)\<lparr>ow_hash := if setup then Some [] else None\<rparr> in
        if \<not> setup then (ESP_FAIL, replicate 32 0, ota, w)
        else
          let (ret, ota, w) = download_loop cfg env menv 0 0 (ota, w) in
          if ret = ESP_OK
          then let (sha256_out, w) = hash_finish env (replicate 32 0) w in (ret, sha256_out, ota, w)
          else (ret, replicate 32 0, ota, ow_call HashAbort w))"

subsection \<open>The update\<close>

definition ota_run ::
    "kconfig \<Rightarrow> ota_env \<Rightarrow> mqtt_env \<Rightarrow> sc_ota \<times> ota_world \<Rightarrow> esp_err \<times> sc_ota \<times> ota_world" where
  "ota_run cfg env menv s =
     (let (ota, w) = s;
          partition = ox_partition env (ow_calls w);
          w = ow_call NextPartition w in
      if partition = None \<or> op_size (ot_params ota) > the partition
      then (ESP_ERR_INVALID_SIZE, ota, ota_report menv ota ''failed'' (-1)
             (Some (if partition = None then ''no OTA partition'' else ''image larger than the OTA partition'')) w)
      else
        let w = ota_report menv ota ''downloading'' 0 None w;
            ret = ox_begin env (ow_calls w);
            w = (ow_call OtaBegin w)\<lparr>ow_flash := []\<rparr> in
        if ret \<noteq> ESP_OK then (ret, ota, ota_report menv ota ''failed'' (-1) (Some (ox_err_name env ret)) w)
        else
          let (ret, sha256, ota, w) = download cfg env menv (ota, w) in
          if ret \<noteq> ESP_OK
          then
            let w = ow_call OtaAbort w;
                cancelled = ox_cancel env (ow_calls w);
                w = ow_call CheckCancel w
            in (ret, ota, ota_report menv ota ''failed'' (-1) (Some (if cancelled then ''cancelled'' else ox_err_name env ret)) w)
          else
            let w = ota_report menv ota ''verifying'' 100 None w;
                sha256_hex = hex_text (take 32 sha256) in
            if sha256_hex \<noteq> cstr (op_sha256 (ot_params ota))
            then (ESP_ERR_INVALID_CRC, ota,
                  ota_report menv ota ''failed'' (-1) (Some ''SHA-256 mismatch'') (ow_call OtaAbort w))
            else
              let ended = ox_end env (ow_calls w);
                  w = ow_call OtaEnd w;
                  (ret, w) = (if ended = ESP_OK then (ox_set_boot env (ow_calls w), ow_call SetBoot w) else (ended, w)) in
              if ret \<noteq> ESP_OK then (ret, ota, ota_report menv ota ''failed'' (-1) (Some (ox_err_name env ret)) w)
              else
                let w = ota_report menv ota ''rebooting'' 100 None w;
                    w = ow_call Restart (ow_call (Delay RESTART_DELAY_MS) w)
                in (ESP_OK, ota, w))"

definition ota_task_handler ::
    "kconfig \<Rightarrow> ota_env \<Rightarrow> mqtt_env \<Rightarrow> sc_ota \<times> ota_world \<Rightarrow> sc_ota \<times> ota_world" where
  "ota_task_handler cfg env menv s =
     (case ota_run cfg env menv s of (ret, ota, w) \<Rightarrow> (ota\<lparr>ot_running := False\<rparr>, w))"

end
