(* ===== verification/Registry.thy ===== *)
theory Registry
  imports Sc_Base
begin

text \<open>
  The fixed tables of named entries behind \<open>sc_rpc::add_method\<close> / \<open>find_method\<close> and
  \<open>sc_shell::add\<close>: an array whose entries have a null name (None) while they are free. Both
  registration loops stop at the first entry that is free or has the name already.
\<close>

fun put_entry :: "string \<Rightarrow> 'e \<Rightarrow> (string \<times> 'e) option list \<Rightarrow> (string \<times> 'e) option list option" where
  "put_entry n e [] = None"
| "put_entry n e (None # xs) = Some (Some (n, e) # xs)"
| "put_entry n e (Some (m, f) # xs) =
     (if m = n then Some (Some (n, e) # xs)
      else case put_entry n e xs of None \<Rightarrow> None | Some ys \<Rightarrow> Some (Some (m, f) # ys))"

fun get_entry :: "(string \<times> 'e) option list \<Rightarrow> string \<Rightarrow> 'e option" where
  "get_entry [] n = None"
| "get_entry (None # xs) n = get_entry xs n"
| "get_entry (Some (m, f) # xs) n = (if m = n then Some f else get_entry xs n)"

text \<open>The contract of a table: what a lookup returns after registrations.\<close>

locale registry =
  fixes put :: "string \<Rightarrow> 'e \<Rightarrow> 't \<Rightarrow> 't option" and get :: "'t \<Rightarrow> string \<Rightarrow> 'e option"
    and wf :: "'t \<Rightarrow> bool" and names :: "'t \<Rightarrow> string set" and capacity :: nat
  assumes law_get_put: "put n e t = Some t' \<Longrightarrow> get t' m = (if m = n then Some e else get t m)"
    and law_full: "put n e t = None \<Longrightarrow> get t n = None"
    and law_wf: "wf t \<Longrightarrow> put n e t = Some t' \<Longrightarrow> wf t'"
    and law_names: "wf t \<Longrightarrow> put n e t = Some t' \<Longrightarrow> names t' = insert n (names t)"
    and law_room: "wf t \<Longrightarrow> put n e t = None \<Longrightarrow> finite (names t) \<and> card (names t) = capacity \<and> n \<notin> names t"
begin

fun puts :: "(string \<times> 'e) list \<Rightarrow> 't \<Rightarrow> 't option" where
  "puts [] t = Some t"
| "puts ((n, e) # xs) t = (case put n e t of None \<Rightarrow> None | Some t' \<Rightarrow> puts xs t')"

text \<open>The last registration of a name wins; the others stay.\<close>

lemma get_puts:
  "puts xs t = Some t' \<Longrightarrow> get t' m = (case map_of (rev xs) m of None \<Rightarrow> get t m | Some e \<Rightarrow> Some e)"
proof (induction xs t rule: puts.induct)
  case (2 n e xs t)
  then obtain t1 where t1: "put n e t = Some t1" "puts xs t1 = Some t'" by (auto split: option.splits)
  from "2.IH" [OF t1] law_get_put [OF t1(1), of m] show ?case
    by (simp add: map_of_append map_add_def split: option.split)
qed simp

lemma wf_puts: "wf t \<Longrightarrow> puts xs t = Some t' \<Longrightarrow> wf t'"
proof (induction xs t rule: puts.induct)
  case (2 n e xs t)
  then obtain t1 where t1: "put n e t = Some t1" "puts xs t1 = Some t'" by (auto split: option.splits)
  from "2.IH" [OF t1(1) law_wf [OF "2.prems"(1) t1(1)] t1(2)] show ?case .
qed simp

text \<open>Registrations fail only when there are more names than entries.\<close>

lemma puts_fit:
  "wf t \<Longrightarrow> card (names t \<union> fst ` set xs) \<le> capacity \<Longrightarrow> \<exists>t'. puts xs t = Some t'"
proof (induction xs t rule: puts.induct)
  case (2 n e xs t)
  show ?case
  proof (cases "put n e t")
    case None
    from law_room [OF "2.prems"(1) this] have "finite (names t)" "card (names t) = capacity" "n \<notin> names t"
      by simp_all
    then have "card (insert n (names t)) > capacity" by simp
    moreover have "card (insert n (names t)) \<le> card (names t \<union> fst ` set ((n, e) # xs))"
      using \<open>finite (names t)\<close> by (intro card_mono) auto
    ultimately show ?thesis using "2.prems"(2) by simp
  next
    case (Some t1)
    have "names t1 \<union> fst ` set xs = names t \<union> fst ` set ((n, e) # xs)"
      using law_names [OF "2.prems"(1) Some] by auto
    with "2.IH" [OF Some law_wf [OF "2.prems"(1) Some]] "2.prems"(2) Some show ?thesis by simp
  qed
qed simp

end

text \<open>Entries are filled from the front, with distinct names.\<close>

definition entry_names :: "(string \<times> 'e) option list \<Rightarrow> string list" where
  "entry_names t = map fst (List.map_filter (\<lambda>x. x) t)"

fun packed :: "(string \<times> 'e) option list \<Rightarrow> bool" where
  "packed [] = True"
| "packed (None # xs) = list_all (\<lambda>x. x = None) xs"
| "packed (Some _ # xs) = packed xs"

definition table_wf :: "nat \<Rightarrow> (string \<times> 'e) option list \<Rightarrow> bool" where
  "table_wf n t \<longleftrightarrow> length t = n \<and> packed t \<and> distinct (entry_names t)"

lemma entry_names_simps [simp]:
  "entry_names [] = []" "entry_names (None # xs) = entry_names xs"
  "entry_names (Some (m, e) # xs) = m # entry_names xs"
  by (simp_all add: entry_names_def List.map_filter_simps)

lemma entry_names_None: "list_all (\<lambda>x. x = None) xs \<Longrightarrow> entry_names xs = []"
  by (induction xs) auto

lemma length_put_entry: "put_entry n e t = Some t' \<Longrightarrow> length t' = length t"
  by (induction n e t arbitrary: t' rule: put_entry.induct) (auto split: if_split_asm option.splits)

lemma get_put_entry:
  "put_entry n e t = Some t' \<Longrightarrow> get_entry t' m = (if m = n then Some e else get_entry t m)"
  by (induction n e t arbitrary: t' rule: put_entry.induct) (auto split: if_split_asm option.splits)

lemma put_entry_full: "put_entry n e t = None \<Longrightarrow> get_entry t n = None"
  by (induction n e t rule: put_entry.induct) (auto split: if_split_asm option.splits)

lemma put_entry_names:
  "put_entry n e t = Some t' \<Longrightarrow> packed t \<Longrightarrow>
    packed t' \<and> entry_names t' = (if n \<in> set (entry_names t) then entry_names t else entry_names t @ [n])"
proof (induction n e t arbitrary: t' rule: put_entry.induct)
  case (2 n e xs)
  then show ?case using entry_names_None [of xs] by (cases xs) auto
next
  case (3 n e m f xs)
  then show ?case by (auto split: if_split_asm option.splits)
qed simp

lemma table_wf_put: "table_wf k t \<Longrightarrow> put_entry n e t = Some t' \<Longrightarrow> table_wf k t'"
  using put_entry_names [of n e t t'] length_put_entry [of n e t t'] by (auto simp: table_wf_def)

lemma table_wf_init: "table_wf n (replicate n None)"
  by (induction n) (auto simp: table_wf_def list_all_iff)

lemma put_entry_None:
  "put_entry n e t = None \<Longrightarrow> length (entry_names t) = length t \<and> n \<notin> set (entry_names t)"
  by (induction n e t rule: put_entry.induct) (auto split: if_split_asm option.splits)

interpretation names_table: registry put_entry get_entry "table_wf k" "\<lambda>t. set (entry_names t)" k for k
proof unfold_locales
  fix n :: string and e :: 'b and t t' :: "(string \<times> 'b) option list"
  show "table_wf k t \<Longrightarrow> put_entry n e t = Some t' \<Longrightarrow> set (entry_names t') = insert n (set (entry_names t))"
    using put_entry_names [of n e t t'] by (auto simp: table_wf_def)
  show "table_wf k t \<Longrightarrow> put_entry n e t = None \<Longrightarrow>
      finite (set (entry_names t)) \<and> card (set (entry_names t)) = k \<and> n \<notin> set (entry_names t)"
    using put_entry_None [of n e t] by (auto simp: table_wf_def distinct_card)
qed (simp_all add: get_put_entry put_entry_full table_wf_put)

lemma get_entry_set: "get_entry t n = Some e \<Longrightarrow> Some (n, e) \<in> set t"
  by (induction t n rule: get_entry.induct) (auto split: if_split_asm)

lemma entry_names_in: "Some (n, e) \<in> set t \<Longrightarrow> n \<in> set (entry_names t)"
proof (induction t)
  case (Cons x t)
  then show ?case by (cases x) auto
qed simp

lemma set_get_entry:
  "distinct (entry_names t) \<Longrightarrow> Some (n, e) \<in> set t \<Longrightarrow> get_entry t n = Some e"
  by (induction t n rule: get_entry.induct) (auto dest: entry_names_in)

end
