(* ===== verification/Rpc.thy ===== *)
theory Rpc
  imports Codec Registry Mqtt_Link "HOL-Library.Multiset"
begin

text \<open>
  \<open>sc_rpc\<close> (\<open>src/sc_rpc.hpp\<close>, \<open>src/sc_rpc.cpp\<close>): the request slots, the method table, answering
  requests, and the device's own calls to the platform.

  A slot pointer is the slot's index. The two FreeRTOS queues of slot indices are values of an
  arbitrary type \<open>'q\<close>, used through their send and receive operations (\<open>queue_api\<close>);
  \<open>fifo_ok\<close> states what the code relies on: a FIFO of the given capacity. The event bits the client
  sets and clears are recorded in \<open>rp_signals\<close>. A method handler is a parameter: it reads the
  parameters, transforms the result writer and the world \<open>'w\<close>, and returns its error code and the
  text left by \<open>fail\<close> (empty: none). \<open>esp_err_to_name\<close> is a parameter.
\<close>

subsection \<open>State\<close>

record 'q queue_api =
  q_send :: "nat \<Rightarrow> 'q \<Rightarrow> bool \<times> 'q"
  q_receive :: "'q \<Rightarrow> (nat \<times> 'q) option"

definition fifo_ok :: "'q queue_api \<Rightarrow> nat \<Rightarrow> ('q \<Rightarrow> nat list) \<Rightarrow> bool" where
  "fifo_ok api cap items \<longleftrightarrow>
     (\<forall>x q. if length (items q) < cap then \<exists>q'. q_send api x q = (True, q') \<and> items q' = items q @ [x]
            else q_send api x q = (False, q)) \<and>
     (\<forall>q. case items q of
            [] \<Rightarrow> q_receive api q = None
          | x # xs \<Rightarrow> \<exists>q'. q_receive api q = Some (x, q') \<and> items q' = xs)"

record sc_rpc_slot =
  sl_too_large :: bool
  sl_correlation_len :: nat
  sl_payload_len :: nat
  sl_method :: string
  sl_correlation :: string
  sl_response_topic :: string
  sl_payload :: string

definition slot_init :: "kconfig \<Rightarrow> sc_rpc_slot" where
  "slot_init cfg = \<lparr>sl_too_large = False, sl_correlation_len = 0, sl_payload_len = 0,
     sl_method = replicate 48 NUL, sl_correlation = replicate 64 NUL, sl_response_topic = replicate 96 NUL,
     sl_payload = replicate (k_payload_max cfg + 1) NUL\<rparr>"

datatype signal = SetRequest | SetCall | ClearCall

type_synonym 'w rpc_handler =
  "string \<Rightarrow> sc_json_reader \<Rightarrow> sc_json_writer \<Rightarrow> 'w \<Rightarrow> esp_err \<times> string \<times> sc_json_writer \<times> 'w"

record ('q, 'w) sc_rpc =
  rp_slots :: "sc_rpc_slot list"
  rp_free :: 'q
  rp_ready :: 'q
  rp_resp_buf :: string
  rp_call_buf :: string
  rp_call_correlation :: string
  rp_call_len :: nat
  rp_call_overflow :: bool
  rp_call_counter :: u32
  rp_methods :: "(string \<times> 'w rpc_handler) option list"
  rp_signals :: "signal list"

definition MAX_METHODS :: nat where "MAX_METHODS = 24"
definition CALL_BUF_SIZE :: nat where "CALL_BUF_SIZE = 1024"

text \<open>The text \<open>sc_rpc_call::fail\<close> leaves for a formatted message.\<close>

definition call_fail :: "string \<Rightarrow> string" where
  "call_fail formatted = (let m = cstr (snprintf 96 formatted) in if m = [] then ''failed'' else m)"

text \<open>
  \<open>init\<close>, given whether the five allocations succeeded, the two new queues and the two buffers.
\<close>

definition rpc_init ::
    "kconfig \<Rightarrow> 'q queue_api \<Rightarrow> bool \<Rightarrow> 'q \<Rightarrow> 'q \<Rightarrow> string \<Rightarrow> string \<Rightarrow> esp_err \<times> ('q, 'w) sc_rpc" where
  "rpc_init cfg api allocated free0 ready0 resp_buf call_buf =
     (let rp = \<lparr>rp_slots = replicate (k_queue_len cfg) (slot_init cfg), rp_free = free0, rp_ready = ready0,
                rp_resp_buf = resp_buf, rp_call_buf = call_buf, rp_call_correlation = [], rp_call_len = 0,
                rp_call_overflow = False, rp_call_counter = 0, rp_methods = replicate MAX_METHODS None,
                rp_signals = []\<rparr> in
      if \<not> allocated then (ESP_ERR_NO_MEM, rp)
      else (ESP_OK, rp\<lparr>rp_free := fold (\<lambda>idx q. snd (q_send api idx q)) [0..<k_queue_len cfg] free0\<rparr>))"

subsection \<open>Methods\<close>

definition add_method ::
    "string option \<Rightarrow> 'w rpc_handler option \<Rightarrow> ('q, 'w) sc_rpc \<Rightarrow> esp_err \<times> ('q, 'w) sc_rpc" where
  "add_method name handler rp =
     (case (name, handler) of
        (Some n, Some h) \<Rightarrow>
          (case put_entry n h (rp_methods rp) of
             None \<Rightarrow> (ESP_ERR_NO_MEM, rp)
           | Some ms \<Rightarrow> (ESP_OK, rp\<lparr>rp_methods := ms\<rparr>))
      | _ \<Rightarrow> (ESP_ERR_INVALID_ARG, rp))"

definition find_method :: "string \<Rightarrow> ('q, 'w) sc_rpc \<Rightarrow> 'w rpc_handler option" where
  "find_method name rp = get_entry (rp_methods rp) name"

subsection \<open>Slots\<close>

definition take_free_slot :: "'q queue_api \<Rightarrow> ('q, 'w) sc_rpc \<Rightarrow> nat option \<times> ('q, 'w) sc_rpc" where
  "take_free_slot api rp =
     (case q_receive api (rp_free rp) of
        None \<Rightarrow> (None, rp)
      | Some (idx, q) \<Rightarrow>
          let slot = rp_slots rp ! idx;
              slot = slot\<lparr>sl_too_large := False, sl_correlation_len := 0, sl_payload_len := 0,
                          sl_method := (sl_method slot)[0 := NUL],
                          sl_response_topic := (sl_response_topic slot)[0 := NUL]\<rparr>
          in (Some idx, rp\<lparr>rp_free := q, rp_slots := (rp_slots rp)[idx := slot]\<rparr>))"

definition submit :: "'q queue_api \<Rightarrow> nat \<Rightarrow> ('q, 'w) sc_rpc \<Rightarrow> ('q, 'w) sc_rpc" where
  "submit api idx rp = rp\<lparr>rp_ready := snd (q_send api idx (rp_ready rp)),
     rp_signals := rp_signals rp @ [SetRequest]\<rparr>"

definition give_back :: "'q queue_api \<Rightarrow> nat \<Rightarrow> ('q, 'w) sc_rpc \<Rightarrow> ('q, 'w) sc_rpc" where
  "give_back api idx rp = rp\<lparr>rp_free := snd (q_send api idx (rp_free rp))\<rparr>"

subsection \<open>Answering a request\<close>

definition CONTENT_TYPE :: string where "CONTENT_TYPE = ''application/json''"

definition respond ::
    "mqtt_env \<Rightarrow> sc_rpc_slot \<Rightarrow> string \<Rightarrow> sc_mqtt \<Rightarrow> esp_err \<times> sc_mqtt" where
  "respond env slot body mq =
     (let props = \<lparr>pp_content_type = Some CONTENT_TYPE,
                   pp_correlation = take (sl_correlation_len slot) (sl_correlation slot),
                   pp_response_topic = None\<rparr>;
          topic = cstr (sl_response_topic slot);
          (ret, mq) = (if topic \<noteq> [] then publish_topic env topic body 1 (Some props) mq
                       else (ESP_ERR_INVALID_ARG, mq)) in
      if ret = ESP_ERR_INVALID_ARG then publish env ''res'' body 1 (Some props) mq else (ret, mq))"

definition ok_object :: "sc_json_writer \<Rightarrow> sc_json_writer" where
  "ok_object out = begin_object (Some ''result'') (add_bool (Some ''ok'') True (begin_object None out))"

definition error_object :: "string \<Rightarrow> sc_json_writer \<Rightarrow> sc_json_writer" where
  "error_object error out =
     end_object (add_str (Some ''error'') (Some error) (add_bool (Some ''ok'') False (begin_object None (jw_reset out))))"

text \<open>
  The request's outcome: the error text (empty: none), the writer and the world. An empty payload
  means no parameters.
\<close>

definition run_request ::
    "kconfig \<Rightarrow> (esp_err \<Rightarrow> string) \<Rightarrow> sc_rpc_slot \<Rightarrow> ('q, 'w) sc_rpc \<Rightarrow> 'w \<Rightarrow> string \<times> sc_json_writer \<times> 'w" where
  "run_request cfg err_name slot rp w =
     (let out = sc_json_writer (Some (rp_resp_buf rp)) (k_result_max cfg);
          method = cstr (sl_method slot);
          params_json = (if sl_payload_len slot > 0 then take (sl_payload_len slot) (sl_payload slot) else ''{}'') in
      if sl_too_large slot
      then (snprintf 112 (''request larger than '' @ dec_text (int (k_payload_max cfg)) @ '' bytes''), out, w)
      else case find_method method rp of
        None \<Rightarrow> (snprintf 112 (''unknown method '' @ method), out, w)
      | Some handler \<Rightarrow>
          let (pret, params) = reader_parse params_json (sc_json_doc 32) in
          if pret \<noteq> ESP_OK then (''params must be a JSON object'', out, w)
          else
            let (ret, msg, out, w) = handler method params (ok_object out) w;
                out = end_object (end_object out)
            in (if cstr msg \<noteq> [] then snprintf 112 (cstr msg)
                else if ret \<noteq> ESP_OK then snprintf 112 (cstr (err_name ret))
                else if \<not> jw_ok out
                then snprintf 112 (''result larger than '' @ dec_text (int (k_result_max cfg)) @ '' bytes'')
                else [], out, w))"

definition handle ::
    "kconfig \<Rightarrow> mqtt_env \<Rightarrow> (esp_err \<Rightarrow> string) \<Rightarrow> nat \<Rightarrow> ('q, 'w) sc_rpc \<times> sc_mqtt \<times> 'w \<Rightarrow>
     ('q, 'w) sc_rpc \<times> sc_mqtt \<times> 'w" where
  "handle cfg env err_name idx s =
     (case s of (rp, mq, w) \<Rightarrow>
        let slot = rp_slots rp ! idx;
            (error, out, w) = run_request cfg err_name slot rp w;
            out = (if error \<noteq> [] then error_object error out else out);
            (ret, mq) = respond env slot (take (jw_len out) (jw_buf out)) mq
        in (rp\<lparr>rp_resp_buf := jw_buf out\<rparr>, mq, w))"

text \<open>\<open>handle_ready\<close>: the loop ends when the ready queue is empty.\<close>

partial_function (option) handle_ready ::
    "kconfig \<Rightarrow> 'q queue_api \<Rightarrow> mqtt_env \<Rightarrow> (esp_err \<Rightarrow> string) \<Rightarrow> ('q, 'w) sc_rpc \<times> sc_mqtt \<times> 'w \<Rightarrow>
     (('q, 'w) sc_rpc \<times> sc_mqtt \<times> 'w) option" where
  "handle_ready cfg api env err_name s =
     (case q_receive api (rp_ready (fst s)) of
        None \<Rightarrow> Some s
      | Some (idx, q) \<Rightarrow>
          let (rp, mq, w) = handle cfg env err_name idx ((fst s)\<lparr>rp_ready := q\<rparr>, snd s)
          in handle_ready cfg api env err_name (give_back api idx rp, mq, w))"

subsection \<open>Calls to the platform\<close>

text \<open>A fragment of an answer, on the MQTT task.\<close>

definition deliver_response ::
    "string \<Rightarrow> string \<Rightarrow> nat \<Rightarrow> nat \<Rightarrow> ('q, 'w) sc_rpc \<Rightarrow> ('q, 'w) sc_rpc" where
  "deliver_response correlation data offset whole rp =
     (let ours = rp_call_correlation rp \<noteq> [] \<and> correlation = rp_call_correlation rp;
          rp' = (if offset + length data < CALL_BUF_SIZE
                 then rp\<lparr>rp_call_buf := memcpy (rp_call_buf rp) offset data, rp_call_len := offset + length data\<rparr>
                 else rp\<lparr>rp_call_overflow := True\<rparr>) in
      if \<not> ours then rp
      else if offset + length data \<ge> whole then rp'\<lparr>rp_signals := rp_signals rp' @ [SetCall]\<rparr>
      else rp')"

definition call_topic :: "string \<Rightarrow> string" where
  "call_topic method = map (\<lambda>c. if c = CHR ''.'' then CHR ''/'' else c) (snprintf 64 (''req/'' @ method))"

text \<open>\<open>call\<close> up to the wait for the answer: the result of the publish.\<close>

definition call_begin ::
    "mqtt_env \<Rightarrow> string \<Rightarrow> string \<Rightarrow> ('q, 'w) sc_rpc \<Rightarrow> sc_mqtt \<Rightarrow> esp_err \<times> ('q, 'w) sc_rpc \<times> sc_mqtt" where
  "call_begin env method params rp mq =
     (let counter = rp_call_counter rp + 1;
          correlation = snprintf 16 (CHR ''c'' # dec_text (uint counter));
          rp = rp\<lparr>rp_call_counter := counter, rp_call_correlation := correlation, rp_call_len := 0,
                  rp_call_overflow := False, rp_signals := rp_signals rp @ [ClearCall]\<rparr>;
          props = \<lparr>pp_content_type = Some CONTENT_TYPE, pp_correlation = correlation,
                   pp_response_topic = Some (snprintf 48 (mq_down mq @ ''res''))\<rparr>;
          (ret, mq) = publish env (call_topic method) params 1 (Some props) mq
      in (ret, rp, mq))"

text \<open>
  \<open>call\<close> from there on: \<open>ret\<close> is the publish's result, \<open>answered\<close> whether the wait ended with the
  call bit. Returns the code, the parsed document and \<open>result_tok\<close> (on success).
\<close>

definition call_end ::
    "esp_err \<Rightarrow> bool \<Rightarrow> sc_json_reader \<Rightarrow> ('q, 'w) sc_rpc \<Rightarrow>
     esp_err \<times> sc_json_reader \<times> int option \<times> ('q, 'w) sc_rpc" where
  "call_end ret answered doc rp =
     (let ret = (if ret = ESP_OK then if answered then ESP_OK else ESP_ERR_TIMEOUT else ret);
          rp = rp\<lparr>rp_call_correlation := []\<rparr>;
          overflow = rp_call_overflow rp;
          len = rp_call_len rp in
      if ret \<noteq> ESP_OK then (ret, doc, None, rp)
      else if overflow then (ESP_ERR_INVALID_SIZE, doc, None, rp)
      else
        let (ret, doc) = reader_parse (take len (rp_call_buf rp)) doc in
        if ret \<noteq> ESP_OK then (ret, doc, None, rp)
        else if get_bool doc 0 ''ok'' \<noteq> Some True then (ESP_FAIL, doc, None, rp)
        else (ESP_OK, doc, Some (find doc 0 ''result''), rp))"

subsection \<open>Slots are conserved\<close>

text \<open>The contract of the slot pool, as the MQTT task and the request task use it.\<close>

locale slot_pool =
  fixes ok :: "'s \<Rightarrow> bool" and capacity :: nat
    and free_ids :: "'s \<Rightarrow> nat list" and ready_ids :: "'s \<Rightarrow> nat list"
    and take_slot :: "'s \<Rightarrow> nat option \<times> 's"
    and submit_slot :: "nat \<Rightarrow> 's \<Rightarrow> 's" and give_slot :: "nat \<Rightarrow> 's \<Rightarrow> 's"
  assumes law_none: "ok s \<Longrightarrow> take_slot s = (None, s') \<Longrightarrow> free_ids s = [] \<and> s' = s"
    and law_take: "ok s \<Longrightarrow> take_slot s = (Some i, s') \<Longrightarrow>
      ok s' \<and> free_ids s = i # free_ids s' \<and> ready_ids s' = ready_ids s"
    and law_submit: "ok s \<Longrightarrow> length (ready_ids s) < capacity \<Longrightarrow>
      ok (submit_slot i s) \<and> ready_ids (submit_slot i s) = ready_ids s @ [i] \<and>
      free_ids (submit_slot i s) = free_ids s"
    and law_give: "ok s \<Longrightarrow> length (free_ids s) < capacity \<Longrightarrow>
      ok (give_slot i s) \<and> free_ids (give_slot i s) = free_ids s @ [i] \<and>
      ready_ids (give_slot i s) = ready_ids s"
begin

text \<open>
  Every slot is in exactly one place: free, ready, or among the slots \<open>out\<close> that a task holds.
  Then no queue is ever full when a slot is put on it, and each operation only moves its slot.
\<close>

definition conserved :: "nat list \<Rightarrow> 's \<Rightarrow> bool" where
  "conserved out s \<longleftrightarrow> ok s \<and> mset (free_ids s) + mset (ready_ids s) + mset out = mset [0..<capacity]"

lemma conserved_count:
  "conserved out s \<Longrightarrow> length (free_ids s) + length (ready_ids s) + length out = capacity"
proof -
  assume "conserved out s"
  then have "size (mset (free_ids s) + mset (ready_ids s) + mset out) = size (mset [0..<capacity])"
    by (simp only: conserved_def)
  then show ?thesis by simp
qed

lemma conserved_take:
  "conserved out s \<Longrightarrow> take_slot s = (Some i, s') \<Longrightarrow> conserved (i # out) s'"
  using law_take [of s i s'] by (auto simp: conserved_def ac_simps)

lemma conserved_submit:
  assumes "conserved (i # out) s"
  shows "conserved out (submit_slot i s) \<and> ready_ids (submit_slot i s) = ready_ids s @ [i]"
proof -
  have "length (ready_ids s) < capacity" using conserved_count [OF assms] by simp
  with assms law_submit [of s i] show ?thesis by (auto simp: conserved_def ac_simps)
qed

lemma conserved_give:
  assumes "conserved (i # out) s"
  shows "conserved out (give_slot i s) \<and> ready_ids (give_slot i s) = ready_ids s"
proof -
  have "length (free_ids s) < capacity" using conserved_count [OF assms] by simp
  with assms law_give [of s i] show ?thesis by (auto simp: conserved_def ac_simps)
qed

lemma conserved_range: "conserved out s \<Longrightarrow> i \<in> set out \<union> set (free_ids s) \<union> set (ready_ids s) \<Longrightarrow> i < capacity"
  unfolding conserved_def by (metis Un_iff atLeastLessThan_iff set_mset_mset set_mset_union set_upt)

lemma conserved_distinct: "conserved out s \<Longrightarrow> distinct (free_ids s @ ready_ids s @ out)"
  unfolding conserved_def by (metis add.assoc distinct_upt mset_append mset_eq_imp_distinct_iff)

end

lemma fifo_send:
  assumes "fifo_ok api n items" and "length (items q) < n"
  shows "items (snd (q_send api x q)) = items q @ [x]"
proof -
  from assms(1) have "if length (items q) < n then \<exists>q'. q_send api x q = (True, q') \<and> items q' = items q @ [x]
      else q_send api x q = (False, q)"
    unfolding fifo_ok_def by blast
  with assms(2) show ?thesis by auto
qed

lemma fifo_receive:
  assumes "fifo_ok api n items"
  shows "case items q of [] \<Rightarrow> q_receive api q = None
    | x # xs \<Rightarrow> \<exists>q'. q_receive api q = Some (x, q') \<and> items q' = xs"
  using assms unfolding fifo_ok_def by blast

lemma fifo_receive_None: "fifo_ok api n items \<Longrightarrow> q_receive api q = None \<longleftrightarrow> items q = []"
  using fifo_receive [of api n items q] by (auto split: list.splits)

lemma fifo_receive_Some:
  "fifo_ok api n items \<Longrightarrow> q_receive api q = Some (x, q') \<Longrightarrow> items q = x # items q'"
  using fifo_receive [of api n items q] by (auto split: list.splits)

interpretation rpc_pool: slot_pool "\<lambda>rp :: ('q, 'w) sc_rpc. fifo_ok api n items" n
    "\<lambda>rp. items (rp_free rp)" "\<lambda>rp. items (rp_ready rp)" "take_free_slot api" "submit api" "give_back api"
  for api :: "'q queue_api" and n items
proof unfold_locales
  fix s s' :: "('q, 'w) sc_rpc" and i
  assume f: "fifo_ok api n items"
  show "take_free_slot api s = (None, s') \<Longrightarrow> items (rp_free s) = [] \<and> s' = s"
    using fifo_receive_None [OF f] by (auto simp: take_free_slot_def Let_def split: option.splits)
  show "take_free_slot api s = (Some i, s') \<Longrightarrow> fifo_ok api n items \<and>
      items (rp_free s) = i # items (rp_free s') \<and> items (rp_ready s') = items (rp_ready s)"
    using f fifo_receive_Some [OF f] by (auto simp: take_free_slot_def Let_def split: option.splits)
  show "length (items (rp_ready s)) < n \<Longrightarrow> fifo_ok api n items \<and>
      items (rp_ready (submit api i s)) = items (rp_ready s) @ [i] \<and>
      items (rp_free (submit api i s)) = items (rp_free s)"
    using f fifo_send [OF f] by (simp add: submit_def)
  show "length (items (rp_free s)) < n \<Longrightarrow> fifo_ok api n items \<and>
      items (rp_free (give_back api i s)) = items (rp_free s) @ [i] \<and>
      items (rp_ready (give_back api i s)) = items (rp_ready s)"
    using f fifo_send [OF f] by (simp add: give_back_def)
qed

text \<open>An instance of the queue contract: lists of at most \<open>n\<close> indices.\<close>

definition list_queue :: "nat \<Rightarrow> nat list queue_api" where
  "list_queue n = \<lparr>q_send = (\<lambda>x q. if length q < n then (True, q @ [x]) else (False, q)),
     q_receive = (\<lambda>q. case q of [] \<Rightarrow> None | x # xs \<Rightarrow> Some (x, xs))\<rparr>"

lemma list_queue_ok: "fifo_ok (list_queue n) n (\<lambda>q. q)"
  by (simp add: fifo_ok_def list_queue_def split: list.split)

lemma fold_send:
  "fifo_ok api n items \<Longrightarrow> length (items q) + length xs \<le> n \<Longrightarrow>
    items (fold (\<lambda>idx q. snd (q_send api idx q)) xs q) = items q @ xs"
proof (induction xs arbitrary: q)
  case (Cons x xs)
  have "items (snd (q_send api x q)) = items q @ [x]" using Cons.prems by (intro fifo_send) auto
  with Cons show ?case by simp
qed simp

text \<open>The same, written out: where the slots are while the tasks hold those in \<open>out\<close>.\<close>

definition slots_conserved ::
    "'q queue_api \<Rightarrow> nat \<Rightarrow> ('q \<Rightarrow> nat list) \<Rightarrow> nat list \<Rightarrow> ('q, 'w) sc_rpc \<Rightarrow> bool" where
  "slots_conserved api n items out rp \<longleftrightarrow>
     fifo_ok api n items \<and> mset (items (rp_free rp)) + mset (items (rp_ready rp)) + mset out = mset [0..<n]"

lemma slots_conserved_pool: "slots_conserved api n items = rpc_pool.conserved api n items"
  by (intro ext) (simp only: slots_conserved_def rpc_pool.conserved_def)

lemmas slots_take = rpc_pool.conserved_take [folded slots_conserved_pool]
  and slots_submit = rpc_pool.conserved_submit [folded slots_conserved_pool]
  and slots_give = rpc_pool.conserved_give [folded slots_conserved_pool]
  and slots_count = rpc_pool.conserved_count [folded slots_conserved_pool]
  and slots_range = rpc_pool.conserved_range [folded slots_conserved_pool]
  and slots_distinct = rpc_pool.conserved_distinct [folded slots_conserved_pool]

lemma rpc_init_conserved:
  assumes "fifo_ok api (k_queue_len cfg) items" and "items free0 = []" and "items ready0 = []"
    and "rpc_init cfg api True free0 ready0 b1 b2 = (e, rp)"
  shows "e = ESP_OK \<and> slots_conserved api (k_queue_len cfg) items [] rp"
  using assms fold_send [OF assms(1), of free0 "[0..<k_queue_len cfg]"]
  by (auto simp: rpc_init_def slots_conserved_def Let_def)

end
