(* ===== verification/Rpc_Answer.thy ===== *)
theory Rpc_Answer
  imports Rpc
begin

text \<open>
  What \<open>sc_rpc\<close> promises about requests: each gets one complete answer, the one its handler gives,
  on the topic it asked for; all waiting requests are answered, in their order of arrival, and
  their slots come back. The specification is on JSON values: \<open>answer_of\<close> is the answer to a
  request, without writer, buffer or overflow flag.
\<close>

subsection \<open>Handlers and answers as values\<close>

type_synonym 'w handler_spec =
  "string \<Rightarrow> sc_json_reader \<Rightarrow> 'w \<Rightarrow> esp_err \<times> string \<times> (string \<times> json) list \<times> 'w"

text \<open>
  A handler that adds the members \<open>es\<close> to the result through the writer's interface, at most 29
  levels deep; what it adds and returns may depend on the parameters and the world.
\<close>

definition implements :: "'w rpc_handler \<Rightarrow> 'w handler_spec \<Rightarrow> bool" where
  "implements h spec \<longleftrightarrow>
     (\<forall>m p w. case spec m p w of (ret, msg, es, w') \<Rightarrow>
        \<exists>cs d. adds d cs es \<and> d + 2 \<le> MAX_DEPTH \<and> (\<forall>out. h m p out w = (ret, msg, jw_run cs out, w')))"

definition ok_answer :: "(string \<times> json) list \<Rightarrow> json" where
  "ok_answer es = JObj [(''ok'', JBool True), (''result'', JObj es)]"

definition error_answer :: "string \<Rightarrow> json" where
  "error_answer msg = JObj [(''ok'', JBool False), (''error'', JStr msg)]"

definition answer_of ::
    "kconfig \<Rightarrow> (esp_err \<Rightarrow> string) \<Rightarrow> (string \<Rightarrow> 'w handler_spec option) \<Rightarrow> sc_rpc_slot \<Rightarrow> 'w \<Rightarrow> json \<times> 'w" where
  "answer_of cfg err_name methods slot w =
     (let meth = cstr (sl_method slot);
          fail = (\<lambda>msg. error_answer (take 111 msg)) in
      if sl_too_large slot
      then (fail (''request larger than '' @ dec_text (int (k_payload_max cfg)) @ '' bytes''), w)
      else case methods meth of
        None \<Rightarrow> (fail (''unknown method '' @ meth), w)
      | Some spec \<Rightarrow>
          (case reader_parse (if sl_payload_len slot > 0 then take (sl_payload_len slot) (sl_payload slot) else ''{}'')
                  (sc_json_doc 32) of (pret, params) \<Rightarrow>
             if pret \<noteq> ESP_OK then (fail ''params must be a JSON object'', w)
             else case spec meth params w of (ret, msg, es, w') \<Rightarrow>
               if cstr msg \<noteq> [] then (fail (cstr msg), w')
               else if ret \<noteq> ESP_OK then (fail (err_name ret), w')
               else if length (render (ok_answer es)) \<ge> k_result_max cfg
               then (fail (''result larger than '' @ dec_text (int (k_result_max cfg)) @ '' bytes''), w')
               else (ok_answer es, w')))"

text \<open>The writer's view of the two answers.\<close>

lemma writes_prefix:
  "writes w \<lparr>tw_text = x, tw_stack = [], tw_bad = False\<rparr> \<Longrightarrow> length x < jw_cap w \<Longrightarrow>
    jw_ok w \<and> take (jw_len w) (jw_buf w) = x"
  by (auto simp: writes_def jw_len_def)

lemma ok_object_writes:
  assumes "length buf = cap" and "0 < cap" and "adds d cs es" and "d + 2 \<le> MAX_DEPTH"
  defines "out \<equiv> end_object (end_object (jw_run cs (ok_object (sc_json_writer (Some buf) cap))))"
  shows "writes out \<lparr>tw_text = render (ok_answer es), tw_stack = [], tw_bad = False\<rparr>" and "jw_cap out = cap"
proof -
  let ?cs = "[AddBool (Some ''ok'') True] @ (BeginObject (Some ''result'') # cs @ [EndObject])"
  have run: "out = jw_run (BeginObject None # ?cs @ [EndObject]) (sc_json_writer (Some buf) cap)"
    by (simp add: out_def ok_object_def)
  have "adds (Suc d) ?cs ([(''ok'', JBool True)] @ [(''result'', JObj es)])"
    by (intro adds_append adds_bool adds_object assms(3))
  from adds_root [OF this] assms(4) writes_run [OF writes_init [OF assms(1,2)]]
  show "writes out \<lparr>tw_text = render (ok_answer es), tw_stack = [], tw_bad = False\<rparr>"
    unfolding run by (metis Suc_le_lessD add_2_eq_Suc' append_Cons append_Nil ok_answer_def)
  show "jw_cap out = cap" unfolding run
    by (simp add: sc_json_writer_def jw_reset_def Let_def del: jw_run_simps)
qed

lemma error_object_writes:
  assumes "writes w a"
  shows "writes (error_object msg w) \<lparr>tw_text = render (error_answer (cstr msg)), tw_stack = [], tw_bad = False\<rparr>"
    and "jw_cap (error_object msg w) = jw_cap w"
proof -
  let ?cs = "[AddBool (Some ''ok'') False] @ [AddStr (Some ''error'') (Some msg)]"
  have run: "error_object msg w = jw_run (BeginObject None # ?cs @ [EndObject]) (jw_reset w)"
    by (simp add: error_object_def)
  have "adds 0 ?cs ([(''ok'', JBool False)] @ [(''error'', JStr (cstr msg))])"
    by (intro adds_append adds_bool adds_cstr)
  from adds_root [OF this] writes_run [OF writes_reset [OF assms]]
  show "writes (error_object msg w) \<lparr>tw_text = render (error_answer (cstr msg)), tw_stack = [], tw_bad = False\<rparr>"
    unfolding run error_answer_def by (metis MAX_DEPTH_def append_Cons append_Nil zero_less_numeral)
  show "jw_cap (error_object msg w) = jw_cap w" unfolding run
    by (simp add: jw_reset_def Let_def del: jw_run_simps)
qed

text \<open>An error answer is at most 689 bytes: every byte of the text may need six.\<close>

lemma length_escape: "length (escape s) \<le> 6 * length s"
proof (induction s)
  case (Cons c s)
  have "length (escape_char c) \<le> 6" by (simp add: escape_char_def)
  moreover have "escape (c # s) = escape_char c @ escape s"
    using escape_append [of "[c]" s] by (simp add: escape_def)
  ultimately show ?case using Cons by simp
qed simp

lemma error_answer_length: "length msg \<le> 111 \<Longrightarrow> length (render (error_answer msg)) < 690"
proof -
  assume "length msg \<le> 111"
  then have "length (escape msg) \<le> 666" using length_escape [of msg] by linarith
  moreover have "render (error_answer msg) =
      ''{'' @ quoted ''ok'' @ '':false,'' @ quoted ''error'' @ '':'' @ quoted msg @ ''}''"
    by (simp add: error_answer_def)
  moreover have "length (quoted ''ok'') = 4" "length (quoted ''error'') = 7"
    by code_simp+
  moreover have "length (quoted msg) = length (escape msg) + 2" by (simp add: quoted_def)
  ultimately show ?thesis by (simp del: render.simps)
qed

subsection \<open>One request\<close>

definition methods_are :: "('q, 'w) sc_rpc \<Rightarrow> (string \<Rightarrow> 'w handler_spec option) \<Rightarrow> bool" where
  "methods_are rp methods \<longleftrightarrow>
     (\<forall>name. case find_method name rp of
        None \<Rightarrow> methods name = None
      | Some h \<Rightarrow> \<exists>spec. methods name = Some spec \<and> implements h spec)"

definition err_names_ok :: "(esp_err \<Rightarrow> string) \<Rightarrow> bool" where
  "err_names_ok err_name \<longleftrightarrow> (\<forall>e. err_name e \<noteq> [] \<and> NUL \<notin> set (err_name e))"

text \<open>What \<open>run_request\<close> leaves: an error text, or the whole answer in the writer.\<close>

definition outcome :: "nat \<Rightarrow> string \<times> sc_json_writer \<times> 'w \<Rightarrow> json \<times> 'w \<Rightarrow> bool" where
  "outcome cap res ans \<longleftrightarrow>
     (case (res, ans) of ((error, out, w), (v, w')) \<Rightarrow>
        w = w' \<and> jw_cap out = cap \<and>
        (if error \<noteq> [] then length error \<le> 111 \<and> v = error_answer error \<and> NUL \<notin> set error \<and> (\<exists>a. writes out a)
         else writes out \<lparr>tw_text = render v, tw_stack = [], tw_bad = False\<rparr> \<and> length (render v) < cap))"

lemma outcome_fail:
  "writes out a \<Longrightarrow> jw_cap out = cap \<Longrightarrow> msg \<noteq> [] \<Longrightarrow> NUL \<notin> set msg \<Longrightarrow>
    outcome cap (snprintf 112 msg, out, w) (error_answer (take 111 msg), w)"
  using set_take_subset [of 111 msg] by (auto simp: outcome_def snprintf_def)

lemma methods_are_None: "methods_are rp methods \<Longrightarrow> find_method name rp = None \<Longrightarrow> methods name = None"
  unfolding methods_are_def by (drule spec [of _ name]) simp

lemma methods_are_Some:
  "methods_are rp methods \<Longrightarrow> find_method name rp = Some h \<Longrightarrow> \<exists>spec. methods name = Some spec \<and> implements h spec"
  unfolding methods_are_def by (drule spec [of _ name]) simp

lemma implementsD:
  "implements h spec \<Longrightarrow> spec m p w = (ret, msg, es, w') \<Longrightarrow>
    \<exists>cs d. adds d cs es \<and> d + 2 \<le> MAX_DEPTH \<and> (\<forall>out. h m p out w = (ret, msg, jw_run cs out, w'))"
  unfolding implements_def
  by (drule spec [where x = m], drule spec [where x = p], drule spec [where x = w]) simp

text \<open>The parameters a request is parsed from, and the handler's part.\<close>

definition params_of :: "sc_rpc_slot \<Rightarrow> esp_err \<times> sc_json_reader" where
  "params_of slot = reader_parse
     (if sl_payload_len slot > 0 then take (sl_payload_len slot) (sl_payload slot) else ''{}'') (sc_json_doc 32)"

lemma handled_outcome:
  assumes "length buf = cap" and "0 < cap" and "err_names_ok err_name" and "implements h spec"
    and "cap = k_result_max cfg"
  shows "outcome cap
     (let (ret, msg, out, w) = h meth p (ok_object (sc_json_writer (Some buf) cap)) w;
          out = end_object (end_object out)
      in (if cstr msg \<noteq> [] then snprintf 112 (cstr msg)
          else if ret \<noteq> ESP_OK then snprintf 112 (cstr (err_name ret))
          else if \<not> jw_ok out
          then snprintf 112 (''result larger than '' @ dec_text (int (k_result_max cfg)) @ '' bytes'')
          else [], out, w))
     (case spec meth p w of (ret, msg, es, w') \<Rightarrow>
        if cstr msg \<noteq> [] then (error_answer (take 111 (cstr msg)), w')
        else if ret \<noteq> ESP_OK then (error_answer (take 111 (err_name ret)), w')
        else if length (render (ok_answer es)) \<ge> cap
        then (error_answer (take 111 (''result larger than '' @ dec_text (int cap) @ '' bytes'')), w')
        else (ok_answer es, w'))"
proof -
  obtain ret msg es w' where r: "spec meth p w = (ret, msg, es, w')" by (metis prod_cases4)
  from implementsD [OF assms(4) r] obtain cs d where cs: "adds d cs es" "d + 2 \<le> MAX_DEPTH"
    "\<And>out. h meth p out w = (ret, msg, jw_run cs out, w')" by blast
  let ?fin = "end_object (end_object (jw_run cs (ok_object (sc_json_writer (Some buf) cap))))"
  note e = ok_object_writes [OF assms(1,2) cs(1,2)]
  have ok: "jw_ok ?fin \<longleftrightarrow> length (render (ok_answer es)) < cap" using e by (simp add: writes_def)
  have name: "err_name ret \<noteq> []" "NUL \<notin> set (err_name ret)" "cstr (err_name ret) = err_name ret"
    using assms(3) by (simp_all add: err_names_ok_def cstr_no_nul)
  note failed = outcome_fail [OF e, of _ w']
  consider (m) "cstr msg \<noteq> []" | (r) "cstr msg = []" "ret \<noteq> ESP_OK"
    | (l) "cstr msg = []" "ret = ESP_OK" "\<not> jw_ok ?fin" | (k) "cstr msg = []" "ret = ESP_OK" "jw_ok ?fin"
    by blast
  then show ?thesis
  proof cases
    case m then show ?thesis using failed [of "cstr msg"] by (simp add: r cs(3))
  next
    case r then show ?thesis using failed [of "err_name ret"] name \<open>spec meth p w = _\<close> by (simp add: cs(3))
  next
    case l
    then show ?thesis
      using ok failed [of "''result larger than '' @ dec_text (int cap) @ '' bytes''"] nul_free_dec_text assms(5)
      by (simp add: r cs(3) del: render.simps)
  next
    case k
    then show ?thesis using ok e by (simp add: r cs(3) outcome_def del: render.simps)
  qed
qed

lemma run_request_outcome:
  assumes "length (rp_resp_buf rp) = k_result_max cfg" and "0 < k_result_max cfg"
    and "methods_are rp methods" and "err_names_ok err_name"
  shows "outcome (k_result_max cfg) (run_request cfg err_name slot rp w) (answer_of cfg err_name methods slot w)"
proof -
  let ?meth = "cstr (sl_method slot)"
  note failed = outcome_fail [OF writes_init [OF assms(1,2)], of "k_result_max cfg", OF _ _ _, of _ w]
  have cap: "jw_cap (sc_json_writer (Some (rp_resp_buf rp)) (k_result_max cfg)) = k_result_max cfg"
    by (simp add: sc_json_writer_def jw_reset_def Let_def)
  note defs = run_request_def answer_of_def params_of_def [symmetric]
  consider (large) "sl_too_large slot"
    | (unknown) "\<not> sl_too_large slot" "find_method ?meth rp = None"
    | (known) h where "\<not> sl_too_large slot" "find_method ?meth rp = Some h" by blast
  then show ?thesis
  proof cases
    case large
    with cap failed [of "''request larger than '' @ dec_text (int (k_payload_max cfg)) @ '' bytes''"]
      nul_free_dec_text show ?thesis by (simp add: defs Let_def)
  next
    case unknown
    with cap failed [of "''unknown method '' @ ?meth"] methods_are_None [OF assms(3)]
    show ?thesis by (simp add: defs Let_def)
  next
    case known
    then obtain spec where spec: "methods ?meth = Some spec" "implements h spec"
      using methods_are_Some [OF assms(3)] by blast
    obtain pret p where parse: "params_of slot = (pret, p)" by fastforce
    have "snprintf 112 ''params must be a JSON object'' = ''params must be a JSON object''"
      by (simp add: snprintf_def)
    with known spec(1) parse cap failed [of "''params must be a JSON object''"]
      handled_outcome [OF assms(1,2,4) spec(2) refl, of ?meth p w]
    show ?thesis by (cases "pret = ESP_OK") (simp_all add: defs Let_def del: render.simps)
  qed
qed

text \<open>The topic a request is answered on.\<close>

definition reply_topic :: "string \<Rightarrow> sc_rpc_slot \<Rightarrow> string" where
  "reply_topic up slot =
     (let t = cstr (sl_response_topic slot) in if t \<noteq> [] \<and> prefix up t then t else up @ ''res'')"

definition slot_props :: "sc_rpc_slot \<Rightarrow> sc_publish_props" where
  "slot_props slot = \<lparr>pp_content_type = Some CONTENT_TYPE,
     pp_correlation = take (sl_correlation_len slot) (sl_correlation slot), pp_response_topic = None\<rparr>"

lemma respond_takes:
  assumes "env_takes env" and "mq_connected mq" and "NUL \<notin> set (mq_up mq)" and "length (mq_up mq) < 93"
  shows "respond env slot body mq = (ESP_OK, mq\<lparr>mq_calls := mq_calls mq @
    [TakeLock, SetProps (slot_props slot), Publish (reply_topic (mq_up mq) slot) body 1, GiveLock]\<rparr>)"
proof -
  let ?t = "cstr (sl_response_topic slot)"
  have pub: "publish_topic env (mq_up mq @ ''res'') body 1 (Some (slot_props slot)) mq = (ESP_OK, mq\<lparr>mq_calls :=
      mq_calls mq @ [TakeLock, SetProps (slot_props slot), Publish (mq_up mq @ ''res'') body 1, GiveLock]\<rparr>)"
    using assms(3) by (intro publish_topic_takes assms) auto
  show ?thesis
  proof (cases "?t \<noteq> [] \<and> prefix (mq_up mq) ?t")
    case True
    with publish_topic_takes [OF assms(1,2) nul_notin_cstr assms(3), of _ body 1 "slot_props slot"]
    show ?thesis by (simp add: respond_def reply_topic_def slot_props_def [symmetric] Let_def)
  next
    case False
    then have "?t \<noteq> [] \<Longrightarrow> publish_topic env ?t body 1 (Some (slot_props slot)) mq = (ESP_ERR_INVALID_ARG, mq)"
      using strncmp_prefix [OF assms(3) nul_notin_cstr] by (simp add: publish_topic_def)
    with False pub assms(4) show ?thesis
      by (auto simp add: respond_def reply_topic_def slot_props_def [symmetric] publish_def Let_def)
  qed
qed

lemma respond_sent:
  assumes "respond env slot body mq = (e, mq')" and "NUL \<notin> set (mq_up mq)"
  shows "(sent mq' = sent mq \<or>
      (\<exists>t \<in> {reply_topic (mq_up mq) slot, mq_up mq @ ''res''}. sent mq' = sent mq @ [(t, body, 1)])) \<and>
    mq_up mq' = mq_up mq \<and> mq_connected mq' = mq_connected mq"
proof -
  let ?t = "cstr (sl_response_topic slot)"
  obtain e1 mq1 where first: "(if ?t \<noteq> [] then publish_topic env ?t body 1 (Some (slot_props slot)) mq
      else (ESP_ERR_INVALID_ARG, mq)) = (e1, mq1)" by fastforce
  have f: "(sent mq1 = sent mq \<or> (e1 \<noteq> ESP_ERR_INVALID_ARG \<and> sent mq1 = sent mq @ [(reply_topic (mq_up mq) slot, body, 1)])) \<and>
      mq_up mq1 = mq_up mq \<and> mq_connected mq1 = mq_connected mq"
  proof (cases "?t = []")
    case False
    with first have p: "publish_topic env ?t body 1 (Some (slot_props slot)) mq = (e1, mq1)" by simp
    have pre: "strncmp_eq ?t (mq_up mq) (length (cstr (mq_up mq))) \<Longrightarrow> reply_topic (mq_up mq) slot = ?t"
      using strncmp_prefix [OF assms(2) nul_notin_cstr] False by (simp add: reply_topic_def)
    from p show ?thesis
      by (cases rule: publish_topic_cases [of ?t mq env body 1 "Some (slot_props slot)" thesis for thesis])
        (auto simp: pre sent_def List.map_filter_def mq_call_def)
  qed (use first in simp)
  have second: "(if e1 = ESP_ERR_INVALID_ARG then publish env ''res'' body 1 (Some (slot_props slot)) mq1
      else (e1, mq1)) = (e, mq')"
    using assms(1) first by (auto simp: respond_def slot_props_def [symmetric] Let_def split: if_splits)
  show ?thesis
  proof (cases "e1 = ESP_ERR_INVALID_ARG")
    case True
    with second have p: "publish env ''res'' body 1 (Some (slot_props slot)) mq1 = (e, mq')" by simp
    from publish_sent(1,3,4) [OF p] f True show ?thesis by auto
  next
    case False
    with second f show ?thesis by auto
  qed
qed

text \<open>\<open>ESP_ERR_INVALID_ARG\<close> on an own topic is the client's refusal of the properties.\<close>

lemma publish_topic_refused:
  assumes "publish_topic env topic data qos props mq = (ESP_ERR_INVALID_ARG, mq')"
    and "strncmp_eq topic (mq_up mq) (length (cstr (mq_up mq)))"
  shows "\<exists>c. me_set_props env c = ESP_ERR_INVALID_ARG"
  using assms by (auto simp: publish_topic_def Let_def split: if_splits option.splits)

lemma respond_topic:
  assumes "respond env slot body mq = (e, mq')" and "NUL \<notin> set (mq_up mq)"
  shows "sent mq' = sent mq \<or> sent mq' = sent mq @ [(reply_topic (mq_up mq) slot, body, 1)] \<or>
    (\<exists>c. me_set_props env c = ESP_ERR_INVALID_ARG) \<and> sent mq' = sent mq @ [(mq_up mq @ ''res'', body, 1)]"
proof (cases "reply_topic (mq_up mq) slot = mq_up mq @ ''res''")
  case False
  let ?t = "cstr (sl_response_topic slot)"
  have t: "?t \<noteq> []" "prefix (mq_up mq) ?t" using False by (auto simp: reply_topic_def Let_def split: if_splits)
  obtain e1 mq1 where p: "publish_topic env ?t body 1 (Some (slot_props slot)) mq = (e1, mq1)" by fastforce
  have "e1 = ESP_ERR_INVALID_ARG \<Longrightarrow> \<exists>c. me_set_props env c = ESP_ERR_INVALID_ARG"
    using publish_topic_refused [of env ?t body 1 "Some (slot_props slot)" mq mq1] p t(2)
      strncmp_prefix [OF assms(2) nul_notin_cstr] by simp
  moreover have "e1 \<noteq> ESP_ERR_INVALID_ARG \<Longrightarrow> mq' = mq1"
    using assms(1) p t(1) by (simp add: respond_def slot_props_def [symmetric] Let_def)
  moreover have "reply_topic (mq_up mq) slot = ?t" using t by (simp add: reply_topic_def)
  ultimately show ?thesis
    using respond_sent [OF assms] publish_topic_sent(1) [OF p] by auto
qed (use respond_sent [OF assms] in auto)

lemma respond_offline:
  assumes "respond env slot body mq = (e, mq')"
  shows "\<not> mq_connected mq \<longrightarrow> mq' = mq"
  using assms by (auto simp: respond_def publish_def publish_topic_def Let_def split: if_splits)

subsection \<open>Handling a request, and all of them\<close>

lemma handle_frame:
  assumes "handle cfg env err_name idx (rp, mq, w) = (rp', mq', w')"
  shows "\<exists>b. rp' = rp\<lparr>rp_resp_buf := b\<rparr>"
  using assms by (auto simp: handle_def Let_def split: prod.splits)

lemma handle_body:
  assumes "length (rp_resp_buf rp) = k_result_max cfg" and "690 \<le> k_result_max cfg"
    and "methods_are rp methods" and "err_names_ok err_name"
    and "handle cfg env err_name idx (rp, mq, w) = (rp', mq', w')"
  shows "\<exists>v e. answer_of cfg err_name methods (rp_slots rp ! idx) w = (v, w') \<and>
    respond env (rp_slots rp ! idx) (render v) mq = (e, mq') \<and>
    length (render v) < k_result_max cfg \<and> length (rp_resp_buf rp') = k_result_max cfg"
proof -
  let ?slot = "rp_slots rp ! idx" and ?cap = "k_result_max cfg"
  obtain error out w1 where run: "run_request cfg err_name ?slot rp w = (error, out, w1)" by (metis prod_cases3)
  obtain v w2 where ans: "answer_of cfg err_name methods ?slot w = (v, w2)" by fastforce
  let ?out = "if error \<noteq> [] then error_object error out else out"
  have o: "outcome ?cap (error, out, w1) (v, w2)"
    using run_request_outcome [OF assms(1) _ assms(3,4), of ?slot w] run ans assms(2) by simp
  have w: "writes ?out \<lparr>tw_text = render v, tw_stack = [], tw_bad = False\<rparr>" and cap: "jw_cap ?out = ?cap"
    and fits: "length (render v) < ?cap"
  proof -
    have "length error \<le> 111 \<Longrightarrow> length (render (error_answer error)) < ?cap"
      using error_answer_length [of error] assms(2) by linarith
    with o show "writes ?out \<lparr>tw_text = render v, tw_stack = [], tw_bad = False\<rparr>" "jw_cap ?out = ?cap"
      "length (render v) < ?cap"
      by (auto simp: outcome_def error_object_writes(2) cstr_no_nul simp del: render.simps split: if_splits
          dest: error_object_writes(1) [where msg = error])
  qed
  have body: "take (jw_len ?out) (jw_buf ?out) = render v" using writes_prefix [OF w] cap fits by simp
  have len: "length (jw_buf ?out) = ?cap" using w cap by (simp add: writes_def jw_wf_def)
  have "w1 = w2" using o by (simp add: outcome_def)
  with assms(5) run ans body len fits show ?thesis
    by (auto simp: handle_def Let_def simp del: render.simps split: prod.splits)
qed

lemma receive_Nil: "fifo_ok api n items \<Longrightarrow> items q = [] \<Longrightarrow> q_receive api q = None"
  by (simp add: fifo_receive_None)

lemma receive_Cons:
  "fifo_ok api n items \<Longrightarrow> items q = x # xs \<Longrightarrow> \<exists>q'. q_receive api q = Some (x, q') \<and> items q' = xs"
  using fifo_receive [of api n items q] by simp

text \<open>
  \<open>handle\<close> does not look at the queues: it commutes with any change of them.
\<close>

lemma handle_queues:
  "handle cfg env err_name idx (rp\<lparr>rp_ready := q, rp_free := f\<rparr>, mq, w) =
    (case handle cfg env err_name idx (rp, mq, w) of (rp', mq', w') \<Rightarrow>
      (rp'\<lparr>rp_ready := q, rp_free := f\<rparr>, mq', w'))"
proof -
  have "run_request cfg err_name slot (rp\<lparr>rp_ready := q, rp_free := f\<rparr>) w = run_request cfg err_name slot rp w" for slot
    by (simp add: run_request_def find_method_def Let_def)
  then show ?thesis by (simp add: handle_def Let_def split: prod.split)
qed

lemma fold_handle_queues:
  "fold (handle cfg env err_name) is (rp\<lparr>rp_ready := q, rp_free := f\<rparr>, mq, w) =
    (case fold (handle cfg env err_name) is (rp, mq, w) of (rp', mq', w') \<Rightarrow>
      (rp'\<lparr>rp_ready := q, rp_free := f\<rparr>, mq', w'))"
  by (induction "is" arbitrary: rp mq w) (simp_all add: handle_queues split: prod.split)

lemma handle_ready_fold:
  assumes "slots_conserved api n items out rp"
  shows "\<exists>q f rp' mq' w'. fold (handle cfg env err_name) (items (rp_ready rp)) (rp, mq, w) = (rp', mq', w') \<and>
    handle_ready cfg api env err_name (rp, mq, w) = Some (rp'\<lparr>rp_ready := q, rp_free := f\<rparr>, mq', w') \<and>
    items q = [] \<and> items f = items (rp_free rp) @ items (rp_ready rp)"
  using assms
proof (induction "items (rp_ready rp)" arbitrary: rp mq w)
  case Nil
  then have "q_receive api (rp_ready rp) = None" by (auto simp: slots_conserved_def intro: receive_Nil)
  then have "handle_ready cfg api env err_name (rp, mq, w) =
      Some (rp\<lparr>rp_ready := rp_ready rp, rp_free := rp_free rp\<rparr>, mq, w)"
    by (subst handle_ready.simps) simp
  with Nil(1) [symmetric] show ?case
    by (intro exI [of _ "rp_ready rp"] exI [of _ "rp_free rp"] exI [of _ rp] exI [of _ mq] exI [of _ w]) simp
next
  case (Cons i js)
  have fifo: "fifo_ok api n items" using Cons.prems by (simp add: slots_conserved_def)
  obtain q where q: "q_receive api (rp_ready rp) = Some (i, q)" "items q = js"
    using receive_Cons [OF fifo Cons(2) [symmetric]] by blast
  obtain rp1 mq1 w1 where h: "handle cfg env err_name i (rp, mq, w) = (rp1, mq1, w1)" by (metis prod_cases3)
  obtain b where b: "rp1 = rp\<lparr>rp_resp_buf := b\<rparr>" using handle_frame [OF h] by blast
  let ?mid = "rp1\<lparr>rp_ready := q\<rparr>"
  have h': "handle cfg env err_name i (rp\<lparr>rp_ready := q\<rparr>, mq, w) = (?mid, mq1, w1)"
    using handle_queues [of cfg env err_name i "rp_free rp" q rp mq w] h b by simp
  have mid: "slots_conserved api n items (i # out) ?mid"
    using Cons.prems Cons(2) [symmetric] q(2) b by (simp add: slots_conserved_def)
  let ?next = "give_back api i ?mid"
  have nxt: "slots_conserved api n items out ?next" "items (rp_ready ?next) = js"
    using slots_give [OF mid] q(2) by (simp_all add: give_back_def)
  have free: "items (rp_free ?next) = items (rp_free rp) @ [i]"
    using fifo_send [OF fifo, of "rp_free rp" i] slots_count [OF mid] b by (simp add: give_back_def)
  from Cons(1) [OF nxt(2) [symmetric] nxt(1), of mq1 w1]
  obtain q2 f2 rp2 mq2 w2 where ih:
    "fold (handle cfg env err_name) js (?next, mq1, w1) = (rp2, mq2, w2)"
    "handle_ready cfg api env err_name (?next, mq1, w1) = Some (rp2\<lparr>rp_ready := q2, rp_free := f2\<rparr>, mq2, w2)"
    "items q2 = []" "items f2 = items (rp_free ?next) @ js"
    using nxt(2) by auto
  obtain rp3 where folded: "fold (handle cfg env err_name) js (rp1, mq1, w1) = (rp3, mq2, w2)"
    and rp2: "rp2 = rp3\<lparr>rp_ready := q, rp_free := rp_free ?next\<rparr>"
    using fold_handle_queues [of cfg env err_name js "rp_free ?next" q rp1 mq1 w1] ih(1)
    by (auto simp: give_back_def split: prod.splits)
  have "handle_ready cfg api env err_name (rp, mq, w) = handle_ready cfg api env err_name (?next, mq1, w1)"
    by (subst handle_ready.simps) (simp add: q h')
  with ih(2-4) folded h free Cons(2) [symmetric] rp2
  show ?case by (intro exI [of _ q2] exI [of _ f2] exI [of _ rp3] exI [of _ mq2] exI [of _ w2]) simp
qed

text \<open>The answers to a sequence of requests, each handler seeing the world its predecessors left.\<close>

fun answers ::
    "kconfig \<Rightarrow> (esp_err \<Rightarrow> string) \<Rightarrow> (string \<Rightarrow> 'w handler_spec option) \<Rightarrow> sc_rpc_slot list \<Rightarrow> 'w \<Rightarrow>
     (sc_rpc_slot \<times> json) list \<times> 'w" where
  "answers cfg err_name methods [] w = ([], w)"
| "answers cfg err_name methods (slot # slots) w =
     (let (v, w1) = answer_of cfg err_name methods slot w;
          (vs, w2) = answers cfg err_name methods slots w1
      in ((slot, v) # vs, w2))"

definition answer_message :: "string \<Rightarrow> sc_rpc_slot \<times> json \<Rightarrow> string \<times> string \<times> int" where
  "answer_message up a = (reply_topic up (fst a), render (snd a), 1)"

lemma fold_handle_answers:
  assumes "length (rp_resp_buf rp) = k_result_max cfg" and "690 \<le> k_result_max cfg"
    and "methods_are rp methods" and "err_names_ok err_name"
    and "env_takes env" and "mq_connected mq" and "NUL \<notin> set (mq_up mq)" and "length (mq_up mq) < 93"
  shows "\<exists>b mq'. fold (handle cfg env err_name) idxs (rp, mq, w) =
      (rp\<lparr>rp_resp_buf := b\<rparr>, mq', snd (answers cfg err_name methods (map ((!) (rp_slots rp)) idxs) w)) \<and>
    length b = k_result_max cfg \<and>
    sent mq' = sent mq @ map (answer_message (mq_up mq)) (fst (answers cfg err_name methods (map ((!) (rp_slots rp)) idxs) w))"
  using assms
proof (induction idxs arbitrary: rp mq w)
  case Nil
  then show ?case by (auto intro!: exI [of _ "rp_resp_buf rp"])
next
  case (Cons i idxs)
  let ?slot = "rp_slots rp ! i"
  obtain rp1 mq1 w1 where h: "handle cfg env err_name i (rp, mq, w) = (rp1, mq1, w1)" by (metis prod_cases3)
  obtain b where b: "rp1 = rp\<lparr>rp_resp_buf := b\<rparr>" using handle_frame [OF h] by blast
  obtain v e where v: "answer_of cfg err_name methods ?slot w = (v, w1)"
    "respond env ?slot (render v) mq = (e, mq1)" "length (rp_resp_buf rp1) = k_result_max cfg"
    using handle_body [OF Cons.prems(1-4) h] by blast
  have mq1: "mq1 = mq\<lparr>mq_calls := mq_calls mq @ [TakeLock, SetProps (slot_props ?slot),
      Publish (reply_topic (mq_up mq) ?slot) (render v) 1, GiveLock]\<rparr>"
    using v(2) respond_takes [OF Cons.prems(5-8), of ?slot "render v"] by simp
  have sent1: "sent mq1 = sent mq @ [answer_message (mq_up mq) (?slot, v)]"
    by (simp add: mq1 sent_def List.map_filter_def answer_message_def del: render.simps)
  have "methods_are rp1 methods" using Cons.prems(3) by (simp add: b methods_are_def find_method_def)
  from Cons.IH [OF v(3) Cons.prems(2) this Cons.prems(4,5), of mq1 w1] Cons.prems(6-8)
  obtain b2 mq2 where ih: "fold (handle cfg env err_name) idxs (rp1, mq1, w1) =
      (rp1\<lparr>rp_resp_buf := b2\<rparr>, mq2, snd (answers cfg err_name methods (map ((!) (rp_slots rp)) idxs) w1))"
    "length b2 = k_result_max cfg" "sent mq2 = sent mq1 @ map (answer_message (mq_up mq))
      (fst (answers cfg err_name methods (map ((!) (rp_slots rp)) idxs) w1))"
    by (auto simp: mq1 b)
  with h v(1) sent1 b show ?case
    by (intro exI [of _ b2] exI [of _ mq2]) (simp add: Let_def split: prod.split)
qed

subsection \<open>An example\<close>

text \<open>A client with one method, one waiting request for it, and the connection up.\<close>

definition ping_handler :: "unit rpc_handler" where
  "ping_handler m p out w = (ESP_OK, [], jw_run [AddBool (Some ''pong'') True] out, w)"

definition ping_spec :: "unit handler_spec" where
  "ping_spec m p w = (ESP_OK, [], [(''pong'', JBool True)], w)"

definition ping_slot :: sc_rpc_slot where
  "ping_slot = (slot_init kconfig_default)\<lparr>sl_method := ''ping'' @ replicate 44 NUL\<rparr>"

definition ping_rpc :: "(nat list, unit) sc_rpc" where
  "ping_rpc = \<lparr>rp_slots = ping_slot # replicate 3 (slot_init kconfig_default), rp_free = [1, 2, 3], rp_ready = [0],
     rp_resp_buf = replicate 1536 NUL, rp_call_buf = replicate 1024 NUL, rp_call_correlation = [],
     rp_call_len = 0, rp_call_overflow = False, rp_call_counter = 0,
     rp_methods = [Some (''ping'', ping_handler)], rp_signals = []\<rparr>"

definition ping_methods :: "string \<Rightarrow> unit handler_spec option" where
  "ping_methods name = (if name = ''ping'' then Some ping_spec else None)"

definition online :: sc_mqtt where
  "online = (mqtt_init ''1'')\<lparr>mq_connected := True\<rparr>"

lemma ping_methods_are: "methods_are ping_rpc ping_methods"
proof -
  have "implements ping_handler ping_spec"
    unfolding implements_def
    by (intro allI) (auto simp: ping_handler_def ping_spec_def MAX_DEPTH_def
        intro!: exI [of _ "[AddBool (Some ''pong'') True]"] exI [of _ 0] adds_bool)
  then show ?thesis by (simp add: methods_are_def ping_methods_def find_method_def ping_rpc_def)
qed

lemma ping_answer:
  "answer_of kconfig_default (\<lambda>e. ''ERR'') ping_methods ping_slot () = (ok_answer [(''pong'', JBool True)], ())"
proof -
  have "cstr (sl_method ping_slot) = ''ping''" by (simp add: ping_slot_def cstr_def)
  moreover have "sl_payload_len ping_slot = 0" "\<not> sl_too_large ping_slot"
    by (simp_all add: ping_slot_def slot_init_def)
  moreover have "render (JObj []) = ''{}''" by simp
  with reader_parse_render [of "[]" "sc_json_doc 32"] obtain r where "reader_parse ''{}'' (sc_json_doc 32) = (ESP_OK, r)"
    by (auto simp: sc_json_doc_def)
  moreover have "length (render (ok_answer [(''pong'', JBool True)])) < 1536" by code_simp
  ultimately show ?thesis
    by (simp add: answer_of_def ping_methods_def ping_spec_def kconfig_default_def cstr_def Let_def del: render.simps)
qed

lemma online_facts [simp]:
  "mq_up online = ''d/1/up/''" "mq_connected online" "sent online = []"
  by (simp_all add: online_def mqtt_init_def snprintf_def sent_def List.map_filter_def)

lemma err_names_sample: "err_names_ok (\<lambda>e. ''ERR'')"
  by (simp add: err_names_ok_def)

lemma ping_conserved: "slots_conserved (list_queue 4) 4 (\<lambda>q. q) [] ping_rpc"
  by (simp add: slots_conserved_def list_queue_ok ping_rpc_def upt_rec numeral_2_eq_2 numeral_3_eq_3)

lemma ping_answers:
  "answers kconfig_default (\<lambda>e. ''ERR'') ping_methods (map ((!) (rp_slots ping_rpc)) (rp_ready ping_rpc)) () =
    ([(ping_slot, ok_answer [(''pong'', JBool True)])], ())"
  by (simp add: ping_rpc_def ping_answer)

lemma ping_topic: "reply_topic ''d/1/up/'' ping_slot = ''d/1/up/res''"
  by (simp add: reply_topic_def ping_slot_def slot_init_def cstr_def)

text \<open>The same request with a Response Topic.\<close>

definition named_slot :: sc_rpc_slot where
  "named_slot = ping_slot\<lparr>sl_response_topic := ''d/1/up/rr/7''\<rparr>"

definition named_rpc :: "(nat list, unit) sc_rpc" where
  "named_rpc = ping_rpc\<lparr>rp_slots := [named_slot]\<rparr>"

lemma named_answer:
  "answer_of kconfig_default (\<lambda>e. ''ERR'') ping_methods named_slot () = (ok_answer [(''pong'', JBool True)], ())"
proof -
  have "sl_method named_slot = sl_method ping_slot" "sl_too_large named_slot = sl_too_large ping_slot"
    "sl_payload named_slot = sl_payload ping_slot" "sl_payload_len named_slot = sl_payload_len ping_slot"
    by (simp_all add: named_slot_def)
  then show ?thesis using ping_answer unfolding answer_of_def by (simp only:)
qed

lemma named_methods_are: "methods_are named_rpc ping_methods"
  using ping_methods_are by (simp add: methods_are_def find_method_def named_rpc_def)

lemma ready_requests_answered:
  assumes "slots_conserved api n items out rp"
    and "length (rp_resp_buf rp) = k_result_max cfg" and "690 \<le> k_result_max cfg"
    and "methods_are rp methods" and "err_names_ok err_name"
    and "env_takes env" and "mq_connected mq" and "NUL \<notin> set (mq_up mq)" and "length (mq_up mq) < 93"
  shows "\<exists>rp' mq'. let (vs, w') = answers cfg err_name methods (map ((!) (rp_slots rp)) (items (rp_ready rp))) w in
    handle_ready cfg api env err_name (rp, mq, w) = Some (rp', mq', w') \<and>
    sent mq' = sent mq @ map (answer_message (mq_up mq)) vs \<and>
    items (rp_ready rp') = [] \<and> items (rp_free rp') = items (rp_free rp) @ items (rp_ready rp) \<and>
    slots_conserved api n items out rp'"
proof -
  obtain q f rp1 mq1 w1 where hr: "fold (handle cfg env err_name) (items (rp_ready rp)) (rp, mq, w) = (rp1, mq1, w1)"
    "handle_ready cfg api env err_name (rp, mq, w) = Some (rp1\<lparr>rp_ready := q, rp_free := f\<rparr>, mq1, w1)"
    "items q = []" "items f = items (rp_free rp) @ items (rp_ready rp)"
    using handle_ready_fold [OF assms(1)] by blast
  have "sent mq1 = sent mq @ map (answer_message (mq_up mq))
      (fst (answers cfg err_name methods (map ((!) (rp_slots rp)) (items (rp_ready rp))) w))"
    "w1 = snd (answers cfg err_name methods (map ((!) (rp_slots rp)) (items (rp_ready rp))) w)"
    using fold_handle_answers [OF assms(2-9), of "items (rp_ready rp)" w] hr(1) by auto
  moreover have "slots_conserved api n items out (rp1\<lparr>rp_ready := q, rp_free := f\<rparr>)"
    using assms(1) hr(3,4) by (simp add: slots_conserved_def)
  ultimately show ?thesis
    using hr(2-4) by (intro exI [of _ "rp1\<lparr>rp_ready := q, rp_free := f\<rparr>"] exI [of _ mq1]) (auto split: prod.split)
qed

subsection \<open>Properties\<close>

text \<open>
  C20: Every request handled gets the answer its handler gives, on its reply topic. For every slot
  contents (also invalid or truncated parameters, an unknown method or a request marked too large),
  table of handlers and environment, what \<open>handle\<close> can publish is the complete compact JSON of the
  specified answer. While the connection takes messages (it is up, every publish goes through, and the
  device's prefix leaves room for \<open>res\<close>) it makes exactly one publication of it: at QoS 1, with the
  request's correlation data, on the topic the request names when that lies below the device's own
  prefix, and otherwise on \<open>up/res\<close>. While it is down, nothing is published. In between, when calls of the
  MQTT client fail, it is this publication or none, but for one case: if the client refuses the
  properties of a publish on the named topic as invalid, the code takes the topic for a foreign one and answers
  on \<open>up/res\<close>. The result buffer is never overrun, and of the RPC state only that buffer changes.
  Needs a result buffer of at least 690 bytes, which the longest error answer takes.
\<close>

theorem request_answered:
  assumes "length (rp_resp_buf rp) = k_result_max cfg" and "690 \<le> k_result_max cfg"
    and "methods_are rp methods" and "err_names_ok err_name" and "NUL \<notin> set (mq_up mq)"
    and "handle cfg env err_name idx (rp, mq, w) = (rp', mq', w')"
  shows "\<exists>v b. answer_of cfg err_name methods (rp_slots rp ! idx) w = (v, w') \<and>
    (env_takes env \<longrightarrow> mq_connected mq \<longrightarrow> length (mq_up mq) < 93 \<longrightarrow>
      mq' = mq\<lparr>mq_calls := mq_calls mq @ [TakeLock, SetProps (slot_props (rp_slots rp ! idx)),
        Publish (reply_topic (mq_up mq) (rp_slots rp ! idx)) (render v) 1, GiveLock]\<rparr>) \<and>
    (\<not> mq_connected mq \<longrightarrow> mq' = mq) \<and>
    (sent mq' = sent mq \<or> sent mq' = sent mq @ [(reply_topic (mq_up mq) (rp_slots rp ! idx), render v, 1)] \<or>
     (\<exists>c. me_set_props env c = ESP_ERR_INVALID_ARG) \<and> sent mq' = sent mq @ [(mq_up mq @ ''res'', render v, 1)]) \<and>
    length (render v) < k_result_max cfg \<and>
    rp' = rp\<lparr>rp_resp_buf := b\<rparr> \<and> length b = k_result_max cfg"
proof -
  from handle_body [OF assms(1-4,6)] obtain v e where v: "answer_of cfg err_name methods (rp_slots rp ! idx) w = (v, w')"
    "respond env (rp_slots rp ! idx) (render v) mq = (e, mq')" "length (render v) < k_result_max cfg"
    "length (rp_resp_buf rp') = k_result_max cfg" by blast
  from handle_frame [OF assms(6)] obtain b where b: "rp' = rp\<lparr>rp_resp_buf := b\<rparr>" by blast
  with v(4) have "length b = k_result_max cfg" by simp
  moreover have "env_takes env \<longrightarrow> mq_connected mq \<longrightarrow> length (mq_up mq) < 93 \<longrightarrow>
      mq' = mq\<lparr>mq_calls := mq_calls mq @ [TakeLock, SetProps (slot_props (rp_slots rp ! idx)),
        Publish (reply_topic (mq_up mq) (rp_slots rp ! idx)) (render v) 1, GiveLock]\<rparr>"
    using respond_takes [of env mq "rp_slots rp ! idx" "render v"] assms(5) v(2) by (simp del: render.simps)
  ultimately show ?thesis
    using v(1,3) b respond_offline [OF v(2)] respond_topic [OF v(2) assms(5)] by blast
qed

text \<open>A request that names its reply topic, answered there; the same request while offline.\<close>

theorem request_answered_witness:
  "\<exists>rp' mq'. handle kconfig_default env_ok (\<lambda>e. ''ERR'') 0 (named_rpc, online, ()) = (rp', mq', ()) \<and>
    sent mq' = [(''d/1/up/rr/7'', render (ok_answer [(''pong'', JBool True)]), 1)] \<and>
    handle kconfig_default env_ok (\<lambda>e. ''ERR'') 0 (named_rpc, mqtt_init ''1'', ()) = (rp', mqtt_init ''1'', ())"
proof -
  obtain rp' mq' rp2 mq2 where h: "handle kconfig_default env_ok (\<lambda>e. ''ERR'') 0 (named_rpc, online, ()) = (rp', mq', ())"
    "handle kconfig_default env_ok (\<lambda>e. ''ERR'') 0 (named_rpc, mqtt_init ''1'', ()) = (rp2, mq2, ())"
    by (metis prod_cases3 old.unit.exhaust)
  have k: "length (rp_resp_buf named_rpc) = k_result_max kconfig_default" "690 \<le> k_result_max kconfig_default"
    "NUL \<notin> set (mq_up online)" "NUL \<notin> set (mq_up (mqtt_init ''1''))" "\<not> mq_connected (mqtt_init ''1'')"
    by (simp_all add: named_rpc_def ping_rpc_def kconfig_default_def mqtt_init_def snprintf_def)
  have a: "answer_of kconfig_default (\<lambda>e. ''ERR'') ping_methods (rp_slots named_rpc ! 0) () =
      (ok_answer [(''pong'', JBool True)], ())"
    using named_answer by (simp add: named_rpc_def)
  have t: "reply_topic ''d/1/up/'' (rp_slots named_rpc ! 0) = ''d/1/up/rr/7''"
    by (simp add: named_rpc_def named_slot_def reply_topic_def cstr_def)
  have rp: "rp2 = rp'"
    using h by (auto simp: handle_def Let_def split: prod.splits)
  from request_answered [OF k(1,2) named_methods_are err_names_sample k(3) h(1)] a t env_ok_takes
  have "sent mq' = [(''d/1/up/rr/7'', render (ok_answer [(''pong'', JBool True)]), 1)]"
    using online_facts by (auto simp: sent_def List.map_filter_def simp del: render.simps)
  moreover from request_answered [OF k(1,2) named_methods_are err_names_sample k(4) h(2)] k(5) have "mq2 = mqtt_init ''1''"
    by blast
  ultimately show ?thesis using h rp by auto
qed

text \<open>
  C5: All waiting requests are answered, in their order of arrival, and their slots come back.
  While the broker takes what is published, one run of \<open>handle_ready\<close> returns; it has published
  exactly the specified answers to the waiting requests, in FIFO order, each on its reply topic;
  the ready queue is empty, the free queue has the slots back, and no slot is lost.
\<close>

theorem waiting_requests_answered:
  assumes "slots_conserved api n items out rp"
    and "length (rp_resp_buf rp) = k_result_max cfg" and "690 \<le> k_result_max cfg"
    and "methods_are rp methods" and "err_names_ok err_name"
    and "env_takes env" and "mq_connected mq" and "NUL \<notin> set (mq_up mq)" and "length (mq_up mq) < 93"
  shows "\<exists>rp' mq'. let (vs, w') = answers cfg err_name methods (map ((!) (rp_slots rp)) (items (rp_ready rp))) w in
    handle_ready cfg api env err_name (rp, mq, w) = Some (rp', mq', w') \<and>
    sent mq' = sent mq @ map (answer_message (mq_up mq)) vs \<and>
    items (rp_ready rp') = [] \<and> items (rp_free rp') = items (rp_free rp) @ items (rp_ready rp) \<and>
    slots_conserved api n items out rp'"
  by (rule ready_requests_answered [OF assms])

theorem waiting_requests_answered_witness:
  "\<exists>rp' mq'. handle_ready kconfig_default (list_queue 4) env_ok (\<lambda>e. ''ERR'') (ping_rpc, online, ()) = Some (rp', mq', ()) \<and>
    sent mq' = [(''d/1/up/res'', render (ok_answer [(''pong'', JBool True)]), 1)] \<and>
    rp_ready rp' = [] \<and> rp_free rp' = [1, 2, 3, 0]"
proof -
  have "length (rp_resp_buf ping_rpc) = k_result_max kconfig_default" "690 \<le> k_result_max kconfig_default"
    by (simp_all add: ping_rpc_def kconfig_default_def)
  from waiting_requests_answered [OF ping_conserved this ping_methods_are err_names_sample env_ok_takes, of online "()"]
  show ?thesis
    by (simp add: ping_answers answer_message_def ping_topic del: render.simps)
      (auto simp: ping_rpc_def simp del: render.simps)
qed

text \<open>
  C25: Handling always ends. Whatever the handlers and the environment do (offline, lock timeouts,
  a full outbox), the loop of \<open>handle_ready\<close> returns, having handled every waiting request exactly
  once in order, with all their slots free again.
\<close>

theorem handle_ready_returns:
  assumes "slots_conserved api n items out rp"
  shows "\<exists>rp' mq' w'. handle_ready cfg api env err_name (rp, mq, w) = Some (rp', mq', w') \<and>
    (mq', w') = snd (fold (handle cfg env err_name) (items (rp_ready rp)) (rp, mq, w)) \<and>
    items (rp_ready rp') = [] \<and> items (rp_free rp') = items (rp_free rp) @ items (rp_ready rp) \<and>
    slots_conserved api n items out rp'"
proof -
  obtain q f rp1 mq1 w1 where hr: "fold (handle cfg env err_name) (items (rp_ready rp)) (rp, mq, w) = (rp1, mq1, w1)"
    "handle_ready cfg api env err_name (rp, mq, w) = Some (rp1\<lparr>rp_ready := q, rp_free := f\<rparr>, mq1, w1)"
    "items q = []" "items f = items (rp_free rp) @ items (rp_ready rp)"
    using handle_ready_fold [OF assms] by blast
  then show ?thesis
    using assms by (intro exI [of _ "rp1\<lparr>rp_ready := q, rp_free := f\<rparr>"] exI [of _ mq1] exI [of _ w1])
      (simp add: slots_conserved_def)
qed

theorem handle_ready_returns_witness:
  "\<exists>rp' mq'. handle_ready kconfig_default (list_queue 4) env_ok (\<lambda>e. ''ERR'')
      (ping_rpc, mqtt_init ''1'', ()) = Some (rp', mq', ()) \<and> rp_free rp' = [1, 2, 3, 0]"
  using handle_ready_returns [OF ping_conserved, of kconfig_default env_ok "\<lambda>e. ''ERR''" "mqtt_init ''1''" "()"]
  by (auto simp: ping_rpc_def)

end
