(* ===== verification/Ota_Safety.thy ===== *)
theory Ota_Safety
  imports Ota Rpc_Answer
begin

text \<open>
  What an update guarantees, for every behaviour of the HTTP server, the flash and the request
  task: what is written is the image, in order and once, across interrupted connections; the boot
  partition is switched only after the written bytes have been verified, unless a hash call fails;
  the number of connections is bounded; and the outcome is reported if its event fits its buffer.
\<close>

subsection \<open>What the reads may return\<close>

text \<open>\<open>esp_http_client_read\<close> never returns more than it was asked for.\<close>

definition reads_ok :: "ota_env \<Rightarrow> bool" where
  "reads_ok env \<longleftrightarrow> (\<forall>t want x. ox_read env t want = Some x \<longrightarrow> length x \<le> want)"

text \<open>
  Where in the image the body of the current response is: a request asks for the whole image or for
  what follows the byte its Range header names; status 200 means a body from byte 0, whatever was asked
  for, 206 one from that byte, anything else no part of the image; what is read moves on.
\<close>

definition server_step :: "ota_call \<Rightarrow> nat \<times> nat option \<Rightarrow> nat \<times> nat option" where
  "server_step c s = (case s of (start, body) \<Rightarrow> (case c of
     HttpInit \<Rightarrow> (0, None)
   | SetRange n \<Rightarrow> (n, None)
   | HttpStatus st \<Rightarrow> (start, if st = 200 then Some 0 else if st = 206 then Some start else None)
   | FlashWrite x \<Rightarrow> (start, map_option (\<lambda>p. p + length x) body)
   | _ \<Rightarrow> (start, body)))"

definition server :: "ota_call list \<Rightarrow> nat \<times> nat option" where
  "server t = fold server_step t (0, None)"

abbreviation position :: "ota_call list \<Rightarrow> nat option" where
  "position t \<equiv> snd (server t)"

text \<open>The server serves this image: a read returns its bytes from where the body is.\<close>

definition serves :: "ota_env \<Rightarrow> string \<Rightarrow> bool" where
  "serves env img \<longleftrightarrow>
     (\<forall>t want x p. ox_read env t want = Some x \<longrightarrow> position t = Some p \<longrightarrow> prefix x (drop p img))"

lemma server_append [simp]: "server (t @ u) = fold server_step u (server t)"
  by (simp add: server_def)

lemma server_step_simps [simp]:
  "snd (server_step c s) = (case c of HttpInit \<Rightarrow> None | SetRange n \<Rightarrow> None
     | HttpStatus st \<Rightarrow> (if st = 200 then Some 0 else if st = 206 then Some (fst s) else None)
     | FlashWrite x \<Rightarrow> map_option (\<lambda>p. p + length x) (snd s) | _ \<Rightarrow> snd s)"
  "fst (server_step c s) = (case c of HttpInit \<Rightarrow> 0 | SetRange n \<Rightarrow> n | _ \<Rightarrow> fst s)"
  by (cases s; cases c; simp add: server_step_def)+

lemma ow_call_sel [simp]:
  "ow_calls (ow_call c w) = ow_calls w @ [c]" "ow_flash (ow_call c w) = ow_flash w"
  "ow_hash (ow_call c w) = ow_hash w" "ow_mqtt (ow_call c w) = ow_mqtt w"
  by (simp_all add: ow_call_def)

text \<open>A report touches the connection only.\<close>

definition ota_post :: "mqtt_env \<Rightarrow> sc_ota \<Rightarrow> string \<Rightarrow> int \<Rightarrow> string option \<Rightarrow> sc_mqtt \<Rightarrow> sc_mqtt" where
  "ota_post menv ota st p e mq =
     ow_mqtt (ota_report menv ota st p e \<lparr>ow_calls = [], ow_flash = [], ow_hash = None, ow_mqtt = mq\<rparr>)"

lemma ota_report_sel [simp]:
  "ow_calls (ota_report menv ota st p e w) = ow_calls w" "ow_flash (ota_report menv ota st p e w) = ow_flash w"
  "ow_hash (ota_report menv ota st p e w) = ow_hash w"
  "ow_mqtt (ota_report menv ota st p e w) = ota_post menv ota st p e (ow_mqtt w)"
  by (simp_all add: ota_report_def ota_post_def split: prod.split)

text \<open>The connection an update reports through stays the device's own and up.\<close>

definition same_link :: "sc_mqtt \<Rightarrow> sc_mqtt \<Rightarrow> bool" where
  "same_link mq mq' \<longleftrightarrow> mq_up mq' = mq_up mq \<and> mq_connected mq' = mq_connected mq"

lemma same_link_refl [simp]: "same_link mq mq"
  by (simp add: same_link_def)

lemma same_link_trans: "same_link a b \<Longrightarrow> same_link b c \<Longrightarrow> same_link a c"
  by (simp add: same_link_def)

lemma same_link_post [simp]: "same_link mq (ota_post menv ota st p e mq)"
  using publish_sent(3,4) unfolding ota_post_def ota_report_def same_link_def
  by (simp add: case_prod_beta) (metis prod.collapse)

text \<open>
  What a report publishes: its event, if the JSON fits the 256 byte buffer. The reports before the last
  one are those of a progress.
\<close>

definition ota_message :: "string \<Rightarrow> sc_ota \<Rightarrow> string \<Rightarrow> int \<Rightarrow> string option \<Rightarrow> string \<times> string \<times> int" where
  "ota_message up ota st p e = (up @ ''evt/ota'', render (ota_event_json (ota_event ota st p e)), 1)"

definition ota_posted :: "string \<Rightarrow> sc_ota \<Rightarrow> string \<Rightarrow> int \<Rightarrow> string option \<Rightarrow> (string \<times> string \<times> int) list" where
  "ota_posted up ota st p e =
     (if length (render (ota_event_json (ota_event ota st p e))) < 256 then [ota_message up ota st p e] else [])"

definition progress_messages :: "string \<Rightarrow> sc_ota \<Rightarrow> (string \<times> string \<times> int) set" where
  "progress_messages up ota = {ota_message up ota st p None | st p. st \<in> {''downloading'', ''verifying''}}"

definition reports :: "ota_env \<Rightarrow> sc_ota \<Rightarrow> sc_mqtt \<Rightarrow> sc_mqtt \<Rightarrow> bool" where
  "reports env ota mq mq' \<longleftrightarrow>
     (\<exists>ms. sent mq' = sent mq @ ms \<and> (reads_ok env \<longrightarrow> set ms \<subseteq> progress_messages (mq_up mq) ota))"

lemma ota_message_params: "ot_params ota1 = ot_params ota \<Longrightarrow> ota_message up ota1 st p e = ota_message up ota st p e"
  by (simp add: ota_message_def ota_event_def)

lemma ota_posted_params: "ot_params ota1 = ot_params ota \<Longrightarrow> ota_posted up ota1 st p e = ota_posted up ota st p e"
  by (simp add: ota_posted_def ota_message_def ota_event_def)

lemma reports_params:
  assumes "ot_params ota1 = ot_params ota"
  shows "reports env ota1 = reports env ota"
  by (intro ext) (simp add: reports_def progress_messages_def ota_message_params [OF assms])

lemma reports_refl [simp]: "reports env ota mq mq"
  by (simp add: reports_def)

lemma reports_trans: "reports env ota a b \<Longrightarrow> same_link a b \<Longrightarrow> reports env ota b c \<Longrightarrow> reports env ota a c"
  by (fastforce simp: reports_def same_link_def)

lemma ota_post_eq:
  assumes "p < 2 ^ 31"
  shows "ota_post menv ota st p e mq =
    (if length (render (ota_event_json (ota_event ota st p e))) < 256
     then snd (publish menv ''evt/ota'' (render (ota_event_json (ota_event ota st p e))) 1
       (Some \<lparr>pp_content_type = Some ''application/json'', pp_correlation = [], pp_response_topic = None\<rparr>) mq)
     else mq)"
proof -
  let ?x = "render (ota_event_json (ota_event ota st p e))"
  obtain buf :: string where buf: "buf = replicate 256 NUL" by simp
  from ota_event_encodes [of buf 256 "ota_event ota st p e"] assms buf
  have "encodes (encode_ota_event (ota_event ota st p e) buf 256) 256 ?x"
    by (simp add: ota_event_def)
  then obtain b where b: "length b = 256"
      "if length ?x < 256 then encode_ota_event (ota_event ota st p e) buf 256 = (ESP_OK, Some (length ?x), b) \<and> cstr b = ?x
       else encode_ota_event (ota_event ota st p e) buf 256 = (ESP_ERR_NO_MEM, None, b)"
    unfolding encodes_def by blast
  show ?thesis
  proof (cases "length ?x < 256")
    case True
    with b have e: "encode_ota_event (ota_event ota st p e) buf 256 = (ESP_OK, Some (length ?x), b)" "cstr b = ?x"
      by (simp_all only: if_True)
    have "take (length ?x) b = ?x" using e(2) by (metis cstr_def takeWhile_eq_take length_takeWhile_le take_take min.absorb1)
    with True e(1) show ?thesis
      by (simp add: ota_post_def ota_report_def buf [symmetric] del: render.simps)
  next
    case False
    with b(2) have e: "encode_ota_event (ota_event ota st p e) buf 256 = (ESP_ERR_NO_MEM, None, b)"
      by (simp only: if_False)
    show ?thesis
      unfolding if_not_P [OF False] by (simp add: ota_post_def ota_report_def buf [symmetric] e del: render.simps)
  qed
qed

lemma reports_post:
  assumes "st \<in> {''downloading'', ''verifying''}" and "reads_ok env \<Longrightarrow> p < 2 ^ 31"
  shows "reports env ota mq (ota_post menv ota st p None mq)"
proof (cases "reads_ok env")
  case True
  obtain r mq' where "publish menv ''evt/ota'' (render (ota_event_json (ota_event ota st p None))) 1
      (Some \<lparr>pp_content_type = Some ''application/json'', pp_correlation = [], pp_response_topic = None\<rparr>) mq = (r, mq')"
    by fastforce
  with publish_sent(1) [OF this] have "sent (ota_post menv ota st p None mq) = sent mq \<or>
      sent (ota_post menv ota st p None mq) = sent mq @ [ota_message (mq_up mq) ota st p None]"
    using ota_post_eq [OF assms(2) [OF True]] by (auto simp: ota_message_def simp del: render.simps)
  moreover have "ota_message (mq_up mq) ota st p None \<in> progress_messages (mq_up mq) ota"
    using assms(1) by (auto simp: progress_messages_def)
  ultimately show ?thesis by (auto simp: reports_def)
next
  case False
  have "\<exists>ms. sent (snd (publish menv t d q pp mq)) = sent mq @ ms" for t d q pp
    using publish_sent(1) [of menv t d q pp mq "fst (publish menv t d q pp mq)" "snd (publish menv t d q pp mq)"] by auto
  then have "\<exists>ms. sent (ota_post menv ota st p None mq) = sent mq @ ms"
    by (simp add: ota_post_def ota_report_def case_prod_beta)
  with False show ?thesis by (simp add: reports_def)
qed

lemma reports_first [simp]: "reports env ota mq (ota_post menv ota ''downloading'' 0 None mq)"
  by (rule reports_post) simp_all

lemma ota_post_takes:
  assumes "env_takes menv" and "mq_connected mq" and "NUL \<notin> set (mq_up mq)" and "length (mq_up mq) < 89"
    and "p < 2 ^ 31"
  shows "sent (ota_post menv ota st p e mq) = sent mq @ ota_posted (mq_up mq) ota st p e"
proof -
  have "publish menv ''evt/ota'' x 1 (Some pp) mq = (ESP_OK, mq\<lparr>mq_calls := mq_calls mq @
      [TakeLock, SetProps pp, Publish (mq_up mq @ ''evt/ota'') x 1, GiveLock]\<rparr>)" for x pp
    using assms(3,4) by (simp add: publish_def publish_topic_takes [OF assms(1,2)])
  then show ?thesis
    using ota_post_eq [OF assms(5)]
    by (simp add: ota_posted_def ota_message_def sent_def List.map_filter_def del: render.simps)
qed

text \<open>Calls of a download: none of them touches the boot partition.\<close>

definition boots :: "ota_call list \<Rightarrow> bool" where
  "boots t \<longleftrightarrow> SetBoot \<in> set t \<or> Restart \<in> set t"

definition connections :: "ota_call list \<Rightarrow> nat" where
  "connections t = length (List.filter (\<lambda>c. c = HttpInit) t)"

lemma boots_simps [simp]:
  "\<not> boots []" "boots (c # t) \<longleftrightarrow> c = SetBoot \<or> c = Restart \<or> boots t" "boots (t @ u) \<longleftrightarrow> boots t \<or> boots u"
  by (auto simp: boots_def)

lemma connections_simps [simp]:
  "connections [] = 0" "connections (c # t) = (if c = HttpInit then 1 else 0) + connections t"
  "connections (t @ u) = connections t + connections u"
  by (simp_all add: connections_def)

subsection \<open>One connection\<close>

text \<open>No call of the hash operation fails, once it is set up.\<close>

definition hash_works :: "ota_env \<Rightarrow> bool" where
  "hash_works env \<longleftrightarrow> (\<forall>t. ox_hash_update env t \<and> ox_hash_finish env t)"

text \<open>The input of the hash operation grows, or a call has failed.\<close>

definition hash_grows :: "ota_env \<Rightarrow> string option \<Rightarrow> string \<Rightarrow> string option \<Rightarrow> bool" where
  "hash_grows env h x h' \<longleftrightarrow>
     (h' = None \<or> (\<exists>y. h = Some y \<and> h' = Some (y @ x))) \<and> (hash_works env \<longrightarrow> h \<noteq> None \<longrightarrow> h' \<noteq> None)"

lemma hash_grows_refl [simp]: "hash_grows env h [] h"
  by (auto simp: hash_grows_def)

lemma hash_grows_trans: "hash_grows env h x h1 \<Longrightarrow> hash_grows env h1 y h2 \<Longrightarrow> hash_grows env h (x @ y) h2"
  by (auto simp: hash_grows_def)

lemma hash_update_sel [simp]:
  "ow_calls (hash_update env x w) = ow_calls w @ [HashUpdate]" "ow_flash (hash_update env x w) = ow_flash w"
  "ow_mqtt (hash_update env x w) = ow_mqtt w"
  "h = ow_hash w \<Longrightarrow> hash_grows env h x (ow_hash (hash_update env x w))"
  by (auto simp: hash_update_def Let_def hash_works_def hash_grows_def)

lemma hash_finish_sel [simp]:
  "ow_calls (snd (hash_finish env b w)) = ow_calls w @ [HashFinish]" "ow_flash (snd (hash_finish env b w)) = ow_flash w"
  "ow_mqtt (snd (hash_finish env b w)) = ow_mqtt w"
  by (simp_all add: hash_finish_def)

lemma hash_finish_cases:
  "ow_hash (snd (hash_finish env b w)) = None \<and> fst (hash_finish env b w) = ox_hash_left env (ow_calls w) b \<or>
   (\<exists>h. ow_hash w = Some h \<and> ow_hash (snd (hash_finish env b w)) = Some h \<and> fst (hash_finish env b w) = ox_sha256 env h)"
  by (auto simp: hash_finish_def)

lemma hash_finish_works:
  "hash_works env \<Longrightarrow> ow_hash w \<noteq> None \<Longrightarrow> ow_hash (snd (hash_finish env b w)) \<noteq> None"
  by (simp add: hash_finish_def hash_works_def)

text \<open>What one connection leaves: some more bytes of the image, hashed and written.\<close>

definition grows :: "ota_env \<Rightarrow> sc_ota \<times> ota_world \<Rightarrow> sc_ota \<times> ota_world \<Rightarrow> string \<Rightarrow> nat \<Rightarrow> bool" where
  "grows env s s' x k \<longleftrightarrow>
     ot_params (fst s') = ot_params (fst s) \<and>
     same_link (ow_mqtt (snd s)) (ow_mqtt (snd s')) \<and> reports env (fst s) (ow_mqtt (snd s)) (ow_mqtt (snd s')) \<and>
     ow_flash (snd s') = ow_flash (snd s) @ x \<and> hash_grows env (ow_hash (snd s)) x (ow_hash (snd s')) \<and>
     (boots (ow_calls (snd s')) \<longrightarrow> boots (ow_calls (snd s))) \<and>
     connections (ow_calls (snd s')) = connections (ow_calls (snd s)) + k"

lemma grows_refl: "grows env s s [] 0"
  by (simp add: grows_def)

lemma grows_trans: "grows env s s1 x k \<Longrightarrow> grows env s1 s2 y l \<Longrightarrow> grows env s s2 (x @ y) (k + l)"
proof -
  assume g: "grows env s s1 x k" "grows env s1 s2 y l"
  then have "reports env (fst s) (ow_mqtt (snd s1)) (ow_mqtt (snd s2))"
    using reports_params [of "fst s1" "fst s" env] by (simp add: grows_def)
  with g show ?thesis
    by (auto simp: grows_def intro: same_link_trans hash_grows_trans reports_trans)
qed

lemma progress_report_grows:
  assumes "reads_ok env \<Longrightarrow> n \<le> ota_size (fst s)"
  shows "grows env s (progress_report env menv n s) [] 0 \<and>
    position (ow_calls (snd (progress_report env menv n s))) = position (ow_calls (snd s))"
proof -
  obtain ota w where s: "s = (ota, w)" by fastforce
  have "int (n * 100 div ota_size ota) < 2 ^ 31" if "reads_ok env"
  proof -
    have "n * 100 div ota_size ota \<le> ota_size ota * 100 div ota_size ota"
      using assms [OF that] s by (intro div_le_mono) simp
    also have "\<dots> \<le> 100" by (cases "ota_size ota = 0") simp_all
    finally show ?thesis by simp
  qed
  then have "reports env ota mq (ota_post menv ota ''downloading'' (int (n * 100 div ota_size ota)) None mq)" for mq
    by (intro reports_post) simp_all
  then show ?thesis using s by (simp add: progress_report_def grows_def Let_def del: of_nat_div)
qed

text \<open>One turn of the read loop, as a value: it stops with a result, or has read some bytes.\<close>

lemma read_loop_cases:
  obtains (stop) w' where "read_loop cfg env menv offset n (ota, w) = (int n, ota, w')"
      "grows env (ota, w) (ota, w') [] 0" "position (ow_calls w') = position (ow_calls w)"
  | (broken) w' where "read_loop cfg env menv offset n (ota, w) = (-2, ota, w')" "grows env (ota, w) (ota, w') [] 0"
  | (more) x s' want where "x \<noteq> []" "offset + n < ota_size ota" "want \<le> ota_size ota - offset - n"
      "ox_read env (ow_calls w @ [CheckCancel]) want = Some x"
      "grows env (ota, w) s' x 0" "position (ow_calls (snd s')) = map_option (\<lambda>p. p + length x) (position (ow_calls w))"
      "read_loop cfg env menv offset n (ota, w) = read_loop cfg env menv offset (n + length x) s'"
proof -
  let ?w1 = "ow_call CheckCancel w"
  let ?want = "min (ota_size ota - offset - n) (k_ota_http_buffer cfg)"
  let ?r = "ox_read env (ow_calls ?w1) ?want"
  let ?w2 = "ow_call (HttpRead ?want) ?w1"
  let ?w3 = "ow_call (FlashWrite (the ?r)) ?w2"
  let ?w4 = "hash_update env (the ?r) (?w3\<lparr>ow_flash := ow_flash ?w3 @ the ?r\<rparr>)"
  let ?s4 = "progress_report env menv (offset + (n + length (the ?r))) (ota, ?w4)"
  note u = read_loop.simps [of cfg env menv offset n "(ota, w)"]
  consider (a) "\<not> offset + n < ota_size ota" | (b) "offset + n < ota_size ota" "ox_cancel env (ow_calls w)"
    | (c) "offset + n < ota_size ota" "\<not> ox_cancel env (ow_calls w)" "?r = None \<or> ?r = Some []"
    | (d) "offset + n < ota_size ota" "\<not> ox_cancel env (ow_calls w)" "\<not> (?r = None \<or> ?r = Some [])"
      "ox_write env (ow_calls ?w2) \<noteq> ESP_OK"
    | (e) "offset + n < ota_size ota" "\<not> ox_cancel env (ow_calls w)" "\<not> (?r = None \<or> ?r = Some [])"
      "ox_write env (ow_calls ?w2) = ESP_OK" by blast
  then show thesis
  proof cases
    case a then show thesis using stop [of w] u by (simp add: grows_refl)
  next
    case b then show thesis using stop [of ?w1] u by (simp add: grows_def)
  next
    case c
    then have "read_loop cfg env menv offset n (ota, w) = (int n, ota, ?w2)" using u by (simp add: Let_def)
    then show thesis by (rule stop) (simp_all add: grows_def)
  next
    case d
    then have "read_loop cfg env menv offset n (ota, w) = (-2, ota, ?w3)" using u by (simp add: Let_def)
    then show thesis by (rule broken) (simp add: grows_def)
  next
    case e
    then obtain x where x: "?r = Some x" "x \<noteq> []" by (cases ?r) auto
    have "grows env (ota, w) (ota, ?w4) x 0" using x by (simp add: grows_def)
    moreover have "position (ow_calls ?w4) = map_option (\<lambda>p. p + length x) (position (ow_calls w))"
      using x by simp
    moreover have "read_loop cfg env menv offset n (ota, w) = read_loop cfg env menv offset (n + length x) ?s4"
      using u e x by (simp add: Let_def)
    moreover have "reads_ok env \<Longrightarrow> offset + (n + length x) \<le> ota_size ota"
      using x(1) e(1) by (fastforce simp: reads_ok_def)
    ultimately show thesis
      using more [of x ?want ?s4] e(1) x progress_report_grows [of env "offset + (n + length x)" "(ota, ?w4)" menv]
        grows_trans [of env "(ota, w)" "(ota, ?w4)" x 0 ?s4 "[]" 0] by simp
  qed
qed

lemma prefix_append_drop: "prefix x (drop p img) \<Longrightarrow> prefix y (drop (p + length x) img) \<Longrightarrow> prefix (x @ y) (drop p img)"
  by (auto simp: prefix_def) (metis append_eq_conv_conj drop_drop add.commute)

lemma read_loop_grows:
  assumes "read_loop cfg env menv offset n s = (r, s')"
  shows "\<exists>x. grows env s s' x 0 \<and> (r = -2 \<or> r = int (n + length x)) \<and>
    (reads_ok env \<longrightarrow> offset + n \<le> ota_size (fst s) \<longrightarrow> offset + n + length x \<le> ota_size (fst s)) \<and>
    (serves env img \<longrightarrow> (\<forall>p. position (ow_calls (snd s)) = Some p \<longrightarrow> prefix x (drop p img)))"
  using assms
proof (induction "ota_size (fst s) - (offset + n)" arbitrary: n s rule: less_induct)
  case less
  obtain ota w where s: "s = (ota, w)" by fastforce
  show ?case
  proof (cases rule: read_loop_cases [of cfg env menv offset n ota w])
    case (stop w')
    with less.prems s show ?thesis by (intro exI [of _ "[]"]) simp
  next
    case (broken w')
    with less.prems s show ?thesis by (intro exI [of _ "[]"]) simp
  next
    case (more x s1 want)
    have size: "ota_size (fst s1) = ota_size ota" using more(5) by (simp add: grows_def)
    have "read_loop cfg env menv offset (n + length x) s1 = (r, s')" using more(7) less.prems s by simp
    moreover have "ota_size (fst s1) - (offset + (n + length x)) < ota_size (fst s) - (offset + n)"
      using more(1,2) size s by (cases x) (auto intro: diff_less_mono2)
    ultimately obtain y where y: "grows env s1 s' y 0"
      "r = -2 \<or> r = int (n + length x + length y)"
      "reads_ok env \<longrightarrow> offset + (n + length x) \<le> ota_size ota \<longrightarrow> offset + (n + length x) + length y \<le> ota_size ota"
      "serves env img \<longrightarrow> (\<forall>p. position (ow_calls (snd s1)) = Some p \<longrightarrow> prefix y (drop p img))"
      using less.hyps [of s1 "n + length x"] size by (auto simp: add.assoc)
    have "serves env img \<Longrightarrow> position (ow_calls w) = Some p \<Longrightarrow> prefix x (drop p img)" for p
      using more(4) unfolding serves_def by (drule_tac x = "ow_calls w @ [CheckCancel]" in spec) simp
    moreover have "reads_ok env \<Longrightarrow> length x \<le> ota_size ota - offset - n"
      using more(3,4) by (fastforce simp: reads_ok_def)
    ultimately show ?thesis
      using y more(2,5,6) s grows_trans [OF more(5) y(1)]
      by (intro exI [of _ "x @ y"]) (auto intro: prefix_append_drop)
  qed
qed

text \<open>One connection, whole: it may fetch a part of what is missing, from the right place.\<close>

lemma download_from_grows:
  assumes d: "download_from cfg env menv offset s = (r, s')"
  shows "\<exists>x. grows env s s' x 1 \<and> (r = -2 \<or> r = -1 \<and> x = [] \<or> 0 < r \<and> r = int (length x)) \<and>
    (reads_ok env \<longrightarrow> offset \<le> ota_size (fst s) \<longrightarrow> offset + length x \<le> ota_size (fst s)) \<and>
    (serves env img \<longrightarrow> prefix x (drop offset img))"
proof -
  obtain ota w where s: "s = (ota, w)" by fastforce
  let ?w1 = "ow_call HttpInit w"
  let ?w2 = "if offset > 0 then ow_call (SetRange offset) ?w1 else ?w1"
  let ?w3 = "ow_call HttpOpen ?w2"
  let ?w4 = "ow_call HttpFetch ?w3"
  obtain st w5 where w5: "(if ox_open env (ow_calls ?w2) = ESP_OK
       then if ox_fetch env (ow_calls ?w3) \<ge> 0
            then (ox_status env (ow_calls ?w4), ow_call (HttpStatus (ox_status env (ow_calls ?w4))) ?w4) else (0, ?w4)
       else (0, ?w3)) = (st, w5)" by fastforce
  have g5: "grows env s (ota, w5) [] 1" using w5 s by (auto simp: grows_def split: if_splits)
  have p5: "position (ow_calls w5) = Some offset" if "if offset = 0 then st = 200 else st = 206"
    using w5 that by (auto split: if_splits)
  have d': "(if \<not> ox_http_init env (ow_calls w) then (-1, ota, ?w1)
      else if \<not> (if offset = 0 then st = 200 else st = 206) then (if st \<ge> 400 then -2 else -1, ota, ow_call HttpClose w5)
      else (case read_loop cfg env menv offset 0 (ota, w5) of
              (total_read, ota, w) \<Rightarrow> (if total_read = 0 then -1 else total_read, ota, ow_call HttpClose w))) = (r, s')"
    using d unfolding download_from_def s Let_def prod.case w5 by (simp split: if_splits)
  show ?thesis
  proof (cases "ox_http_init env (ow_calls w) \<and> (if offset = 0 then st = 200 else st = 206)")
    case False
    then have "r \<in> {-1, -2}" "grows env s s' [] 1"
      using d' g5 s by (auto simp: grows_def split: if_splits)
    then show ?thesis by (intro exI [of _ "[]"]) auto
  next
    case True
    obtain n ota' w' where l: "read_loop cfg env menv offset 0 (ota, w5) = (n, ota', w')" by (cases "read_loop cfg env menv offset 0 (ota, w5)")
    with d' True have r: "r = (if n = 0 then -1 else n)" "s' = (ota', ow_call HttpClose w')"
      by (cases "offset = 0"; simp)+
    obtain x where x: "grows env (ota, w5) (ota', w') x 0" "n = -2 \<or> n = int (length x)"
      "reads_ok env \<longrightarrow> offset \<le> ota_size ota \<longrightarrow> offset + length x \<le> ota_size ota"
      "serves env img \<longrightarrow> prefix x (drop offset img)"
      using read_loop_grows [OF l, of img] True p5 by auto
    have "grows env s s' x 1"
      using grows_trans [OF g5 x(1)] r(2) by (simp add: grows_def)
    then show ?thesis using x(2-4) r(1) s by (intro exI [of _ x]) auto
  qed
qed

subsection \<open>The whole download\<close>

lemma grows_call [simp]: "c \<notin> {HttpInit, SetBoot, Restart} \<Longrightarrow> grows env s (ota, ow_call c w) x k = grows env s (ota, w) x k"
  by (simp add: grows_def)

lemma grows_params: "grows env s s' x k \<Longrightarrow> ota_size (fst s') = ota_size (fst s)"
  by (simp add: grows_def)

text \<open>
  From any point of the image: the bytes that follow are fetched, in order; success means to the last
  one; and there are at most five connections for every missing byte.
\<close>

lemma download_loop_grows:
  assumes "download_loop cfg env menv offset attempts s = (ret, s')" and "attempts < MAX_ATTEMPTS"
  shows "\<exists>x k. grows env s s' x k \<and>
    (ret = ESP_OK \<and> ota_size (fst s) \<le> offset + length x
     \<or> ret \<in> {ESP_ERR_INVALID_STATE, ESP_ERR_INVALID_RESPONSE, ESP_ERR_TIMEOUT}) \<and>
    (reads_ok env \<longrightarrow> offset \<le> ota_size (fst s) \<longrightarrow> offset + length x \<le> ota_size (fst s)) \<and>
    (serves env img \<longrightarrow> prefix x (drop offset img)) \<and>
    (if offset < ota_size (fst s) then k + attempts \<le> 5 * (ota_size (fst s) - offset) else k = 0)"
    (is "\<exists>x k. ?P offset attempts s ret s' x k")
  using assms
proof (induction "5 * (ota_size (fst s) - offset) - attempts" arbitrary: offset attempts s rule: less_induct)
  case less
  obtain ota w where s: "s = (ota, w)" by fastforce
  let ?w1 = "ow_call CheckCancel w"
  obtain rl s1 where d: "download_from cfg env menv offset (ota, ?w1) = (rl, s1)"
    by (cases "download_from cfg env menv offset (ota, ?w1)")
  obtain x where x: "grows env s s1 x 1" "rl = -2 \<or> rl = -1 \<and> x = [] \<or> 0 < rl \<and> rl = int (length x)"
      "reads_ok env \<longrightarrow> offset \<le> ota_size ota \<longrightarrow> offset + length x \<le> ota_size ota"
      "serves env img \<longrightarrow> prefix x (drop offset img)"
    using download_from_grows [OF d, of img] s by (auto simp: grows_def)
  note u = less.prems(1) [unfolded s download_loop.simps [of cfg env menv offset attempts "(ota, w)"]]
  note size = grows_params [OF x(1)]
  consider (whole) "\<not> offset < ota_size ota" | (cancelled) "offset < ota_size ota" "ox_cancel env (ow_calls w)"
    | (progress) "offset < ota_size ota" "\<not> ox_cancel env (ow_calls w)" "rl > 0"
    | (lost) "offset < ota_size ota" "\<not> ox_cancel env (ow_calls w)" "rl = -2 \<or> rl = -1 \<and> attempts + 1 \<ge> MAX_ATTEMPTS"
    | (again) "offset < ota_size ota" "\<not> ox_cancel env (ow_calls w)" "rl = -1" "attempts + 1 < MAX_ATTEMPTS"
    using x(2) by fastforce
  then show ?case
  proof cases
    case whole
    with u s show ?thesis by (intro exI [of _ "[]"] exI [of _ 0]) (auto simp: grows_refl)
  next
    case cancelled
    then have "s' = (ota, ?w1)" "ret = ESP_ERR_INVALID_STATE" using u by simp_all
    with s cancelled(1) less.prems(2) show ?thesis
      by (intro exI [of _ "[]"] exI [of _ 0]) (simp add: grows_def MAX_ATTEMPTS_def)
  next
    case progress
    then have r: "download_loop cfg env menv (offset + length x) 0 s1 = (ret, s')" and l: "length x > 0"
      using u d x(2) by (auto simp: Let_def)
    have "5 * (ota_size (fst s1) - (offset + length x)) - 0 < 5 * (ota_size (fst s) - offset) - attempts"
      using progress(1) l size s less.prems(2) by (auto simp: MAX_ATTEMPTS_def simp del: length_greater_0_conv)
    from less.hyps [OF this r] obtain y k where y: "?P (offset + length x) 0 s1 ret s' y k"
      by (auto simp: MAX_ATTEMPTS_def)
    then have y: "grows env s1 s' y k"
        "ret = ESP_OK \<and> ota_size ota \<le> offset + length x + length y
          \<or> ret \<in> {ESP_ERR_INVALID_STATE, ESP_ERR_INVALID_RESPONSE, ESP_ERR_TIMEOUT}"
        "reads_ok env \<longrightarrow> offset + length x \<le> ota_size ota \<longrightarrow> offset + length x + length y \<le> ota_size ota"
        "serves env img \<longrightarrow> prefix y (drop (offset + length x) img)"
        "if offset + length x < ota_size ota then k + 0 \<le> 5 * (ota_size ota - (offset + length x)) else k = 0"
      unfolding size s fst_conv by blast+
    have "1 + k + attempts \<le> 5 * (ota_size ota - offset)"
      using y(5) progress(1) l less.prems(2) by (auto simp: MAX_ATTEMPTS_def simp del: length_greater_0_conv split: if_splits)
    moreover have "serves env img \<longrightarrow> prefix (x @ y) (drop offset img)"
      using x(4) y(4) prefix_append_drop by blast
    ultimately have "?P offset attempts s ret s' (x @ y) (1 + k)"
      using grows_trans [OF x(1) y(1)] y(2,3) x(3) s progress(1) by (auto simp: add.assoc)
    then show ?thesis by blast
  next
    case lost
    then have "s' = s1" "ret \<in> {ESP_ERR_INVALID_RESPONSE, ESP_ERR_TIMEOUT}"
      using u d less.prems(2) by (auto simp: Let_def split: if_splits)
    with x lost(1) s less.prems(2) have "?P offset attempts s ret s' x 1"
      by (auto simp: MAX_ATTEMPTS_def)
    then show ?thesis by blast
  next
    case again
    let ?s2 = "(fst s1, ow_call (Delay (1000 * (attempts + 1))) (snd s1))"
    have r: "download_loop cfg env menv offset (attempts + 1) ?s2 = (ret, s')"
      using u d again by (auto simp: Let_def)
    have "5 * (ota_size (fst ?s2) - offset) - (attempts + 1) < 5 * (ota_size (fst s) - offset) - attempts"
      using again(1,4) size s by (simp add: MAX_ATTEMPTS_def)
    from less.hyps [OF this r] obtain y k where y: "?P offset (attempts + 1) ?s2 ret s' y k"
      using again(4) by blast
    have "grows env s ?s2 [] 1" using x(1,2) again(3) by (auto simp: grows_def)
    with y have "?P offset attempts s ret s' y (1 + k)"
      using size s again(1) grows_trans [of env s ?s2 "[]" 1 s' y k] by (auto split: if_splits)
    then show ?thesis by blast
  qed
qed

definition download_errors :: "esp_err set" where
  "download_errors = {ESP_ERR_NO_MEM, ESP_FAIL, ESP_ERR_INVALID_STATE, ESP_ERR_INVALID_RESPONSE, ESP_ERR_TIMEOUT}"

text \<open>The result of the hash operation: the hash of what was written, or what a failing call left.\<close>

definition hashed :: "ota_env \<Rightarrow> u8 list \<Rightarrow> string \<Rightarrow> string option \<Rightarrow> bool" where
  "hashed env sha256 x h \<longleftrightarrow>
     (case h of None \<Rightarrow> \<not> hash_works env \<and> (\<exists>t. sha256 = ox_hash_left env t (replicate 32 0))
      | Some y \<Rightarrow> y = x \<and> sha256 = ox_sha256 env x)"

lemma finish_hashed:
  assumes "ow_hash w = None \<or> ow_hash w = Some x" and "hash_works env \<longrightarrow> ow_hash w \<noteq> None"
  shows "hashed env (fst (hash_finish env (replicate 32 0) w)) x (ow_hash (snd (hash_finish env (replicate 32 0) w)))"
  using hash_finish_cases [of env "replicate 32 0" w] hash_finish_works [of env w "replicate 32 0"] assms
  by (auto simp: hashed_def)

lemma download_grows:
  assumes d: "download cfg env menv s = (ret, sha256, s')"
  shows "\<exists>x k. ot_params (fst s') = ot_params (fst s) \<and>
    same_link (ow_mqtt (snd s)) (ow_mqtt (snd s')) \<and> reports env (fst s) (ow_mqtt (snd s)) (ow_mqtt (snd s')) \<and>
    ow_flash (snd s') = ow_flash (snd s) @ x \<and>
    (boots (ow_calls (snd s')) \<longrightarrow> boots (ow_calls (snd s))) \<and>
    connections (ow_calls (snd s')) = connections (ow_calls (snd s)) + k \<and> k \<le> 5 * ota_size (fst s) \<and>
    (ret = ESP_OK \<and> ota_size (fst s) \<le> length x \<and> hashed env sha256 x (ow_hash (snd s'))
      \<or> ret \<in> download_errors) \<and>
    (reads_ok env \<longrightarrow> length x \<le> ota_size (fst s)) \<and> (serves env img \<longrightarrow> prefix x img)"
proof -
  obtain ota w where s: "s = (ota, w)" by fastforce
  let ?w1 = "ow_call Malloc w"
  let ?w2 = "(ow_call HashSetup ?w1)\<lparr>ow_hash := Some []\<rparr>"
  show ?thesis
  proof (cases "ox_malloc env (ow_calls w) \<and> ox_hash_setup env (ow_calls ?w1)")
    case False
    then have "ret \<in> {ESP_ERR_NO_MEM, ESP_FAIL}" "ot_params (fst s') = ot_params ota" "ow_flash (snd s') = ow_flash w"
      "ow_mqtt (snd s') = ow_mqtt w" "boots (ow_calls (snd s')) \<longrightarrow> boots (ow_calls w)" "connections (ow_calls (snd s')) = connections (ow_calls w)"
      using d s by (auto simp: download_def Let_def split: if_splits)
    with s show ?thesis
      by (intro exI [of _ "[]"] exI [of _ 0]) (auto simp: download_errors_def)
  next
    case True
    obtain r ota3 w3 where l: "download_loop cfg env menv 0 0 (ota, ?w2) = (r, ota3, w3)"
      by (cases "download_loop cfg env menv 0 0 (ota, ?w2)")
    have d': "(if r = ESP_OK then (r, fst (hash_finish env (replicate 32 0) w3), ota3, snd (hash_finish env (replicate 32 0) w3))
        else (r, replicate 32 0, ota3, ow_call HashAbort w3)) = (ret, sha256, s')"
      using d l True by (cases "hash_finish env (replicate 32 0) w3"; cases "r = ESP_OK"; simp add: s download_def Let_def)
    obtain x k where x: "grows env (ota, ?w2) (ota3, w3) x k"
      "r = ESP_OK \<and> ota_size ota \<le> length x \<or> r \<in> {ESP_ERR_INVALID_STATE, ESP_ERR_INVALID_RESPONSE, ESP_ERR_TIMEOUT}"
      "reads_ok env \<longrightarrow> length x \<le> ota_size ota" "serves env img \<longrightarrow> prefix x img"
      "if 0 < ota_size ota then k \<le> 5 * ota_size ota else k = 0"
      using download_loop_grows [OF l, of img] by (simp add: MAX_ATTEMPTS_def cong: if_cong) blast
    have "hashed env (fst (hash_finish env (replicate 32 0) w3)) x (ow_hash (snd (hash_finish env (replicate 32 0) w3)))"
      by (rule finish_hashed) (use x(1) in \<open>auto simp: grows_def hash_grows_def\<close>)
    moreover have "ret = r" "sha256 = (if r = ESP_OK then fst (hash_finish env (replicate 32 0) w3) else replicate 32 0)"
      "s' = (ota3, if r = ESP_OK then snd (hash_finish env (replicate 32 0) w3) else ow_call HashAbort w3)"
      using d' by (auto split: if_splits)
    moreover have "k \<le> 5 * ota_size ota" using x(5) by (simp split: if_splits)
    ultimately show ?thesis
      using x(1-4) by (intro exI [of _ x] exI [of _ k], cases "r = ESP_OK") (simp_all add: grows_def download_errors_def s)
  qed
qed

lemma download_link:
  assumes "download cfg env menv s = (ret, sha256, s')"
  shows "ot_params (fst s') = ot_params (fst s)" "same_link (ow_mqtt (snd s)) (ow_mqtt (snd s'))"
    "reports env (fst s) (ow_mqtt (snd s)) (ow_mqtt (snd s'))"
    "connections (ow_calls (snd s')) \<le> connections (ow_calls (snd s)) + 5 * ota_size (fst s)"
  using download_grows [OF assms, of "[]"] by (elim exE conjE, simp)+

subsection \<open>The update\<close>

text \<open>The run of an update up to the end of its download, and what follows it.\<close>

definition verified :: "ota_env \<Rightarrow> sc_ota_params \<Rightarrow> string \<Rightarrow> bool" where
  "verified env ps flash \<longleftrightarrow> hex_text (take 32 (ox_sha256 env flash)) = cstr (op_sha256 ps)"

definition error_texts :: "ota_env \<Rightarrow> string set" where
  "error_texts env = {''no OTA partition'', ''image larger than the OTA partition'', ''cancelled'', ''SHA-256 mismatch''}
     \<union> range (ox_err_name env)"

lemma ota_run_cases:
  assumes run: "ota_run cfg env menv (ota, w) = (ret, ota', w')"
  obtains (refused) e where "e \<in> error_texts env" "ret \<noteq> ESP_OK" "ow_calls w' = ow_calls w @ [NextPartition]" "ow_flash w' = ow_flash w"
      "ow_mqtt w' = ota_post menv ota ''failed'' (-1) (Some e) (ow_mqtt w)"
  | (unopened) e where "e \<in> error_texts env" "ret \<noteq> ESP_OK" "ow_calls w' = ow_calls w @ [NextPartition, OtaBegin]" "ow_flash w' = []"
      "ow_mqtt w' = ota_post menv ota ''failed'' (-1) (Some e) (ota_post menv ota ''downloading'' 0 None (ow_mqtt w))"
  | (failed) sha256 ota1 w0 w1 e where "e \<in> error_texts env"
      "ow_calls w0 = ow_calls w @ [NextPartition, OtaBegin]" "ow_flash w0 = []"
      "ow_mqtt w0 = ota_post menv ota ''downloading'' 0 None (ow_mqtt w)"
      "download cfg env menv (ota, w0) = (ret, sha256, ota1, w1)" "ret \<noteq> ESP_OK"
      "ow_calls w' = ow_calls w1 @ [OtaAbort, CheckCancel]" "ow_flash w' = ow_flash w1"
      "ow_mqtt w' = ota_post menv ota1 ''failed'' (-1) (Some e) (ow_mqtt w1)"
  | (fetched) sha256 ota1 w0 w1 cs st p e where
      "ow_calls w0 = ow_calls w @ [NextPartition, OtaBegin]" "ow_flash w0 = []"
      "ow_mqtt w0 = ota_post menv ota ''downloading'' 0 None (ow_mqtt w)"
      "download cfg env menv (ota, w0) = (ESP_OK, sha256, ota1, w1)"
      "ow_calls w' = ow_calls w1 @ cs" "ow_flash w' = ow_flash w1"
      "ow_mqtt w' = ota_post menv ota1 st p e (ota_post menv ota1 ''verifying'' 100 None (ow_mqtt w1))"
      "if hex_text (take 32 sha256) \<noteq> cstr (op_sha256 (ot_params ota1)) then ret \<noteq> ESP_OK \<and> cs = [OtaAbort]
       else if ox_end env (ow_calls w1) \<noteq> ESP_OK then ret \<noteq> ESP_OK \<and> cs = [OtaEnd]
       else if ox_set_boot env (ow_calls w1 @ [OtaEnd]) \<noteq> ESP_OK then ret \<noteq> ESP_OK \<and> cs = [OtaEnd, SetBoot]
       else ret = ESP_OK \<and> cs = [OtaEnd, SetBoot, Delay RESTART_DELAY_MS, Restart]"
      "if ret = ESP_OK then st = ''rebooting'' \<and> p = 100 \<and> e = None else st = ''failed'' \<and> p = -1 \<and> e \<in> Some ` error_texts env" "ow_hash w' = ow_hash w1"
proof -
  let ?part = "ox_partition env (ow_calls w)"
  let ?w1 = "ow_call NextPartition w"
  let ?w2 = "ota_report menv ota ''downloading'' 0 None ?w1"
  let ?w3 = "(ow_call OtaBegin ?w2)\<lparr>ow_flash := []\<rparr>"
  obtain d sha256 ota1 w4 where d: "download cfg env menv (ota, ?w3) = (d, sha256, ota1, w4)"
    by (cases "download cfg env menv (ota, ?w3)")
  note u = run [unfolded ota_run_def Let_def prod.case]
  consider (a) "?part = None \<or> op_size (ot_params ota) > the ?part"
    | (b) "\<not> (?part = None \<or> op_size (ot_params ota) > the ?part)" "ox_begin env (ow_calls ?w2) \<noteq> ESP_OK"
    | (c) "\<not> (?part = None \<or> op_size (ot_params ota) > the ?part)" "ox_begin env (ow_calls ?w2) = ESP_OK" "d \<noteq> ESP_OK"
    | (f) "\<not> (?part = None \<or> op_size (ot_params ota) > the ?part)" "ox_begin env (ow_calls ?w2) = ESP_OK" "d = ESP_OK"
    by blast
  then show thesis
  proof cases
    case a
    with u show thesis
      by (intro refused [of "if ?part = None then ''no OTA partition'' else ''image larger than the OTA partition''"])
        (auto simp: error_texts_def split: if_splits)
  next
    case b
    with u show thesis by (intro unopened [of "ox_err_name env ret"]) (auto simp: error_texts_def)
  next
    case c
    with u d show thesis
      by (intro failed [of "if ox_cancel env (ow_calls w4 @ [OtaAbort]) then ''cancelled'' else ox_err_name env d" ?w3 sha256 ota1 w4])
        (auto simp: error_texts_def)
  next
    case f
    let ?post = "ota_report menv ota1 ''verifying'' 100 None w4"
    let ?ended = "ox_end env (ow_calls ?post)"
    let ?set = "ox_set_boot env (ow_calls (ow_call OtaEnd ?post))"
    consider (crc) "hex_text (take 32 sha256) \<noteq> cstr (op_sha256 (ot_params ota1))"
      | (endless) "hex_text (take 32 sha256) = cstr (op_sha256 (ot_params ota1))" "?ended \<noteq> ESP_OK"
      | (unset) "hex_text (take 32 sha256) = cstr (op_sha256 (ot_params ota1))" "?ended = ESP_OK" "?set \<noteq> ESP_OK"
      | (good) "hex_text (take 32 sha256) = cstr (op_sha256 (ot_params ota1))" "?ended = ESP_OK" "?set = ESP_OK"
      by blast
    then show thesis
    proof cases
      case crc
      with u d f show thesis
        by (intro fetched [of ?w3 sha256 ota1 w4 "[OtaAbort]" "''failed''" "-1" "Some ''SHA-256 mismatch''"]) (auto simp: error_texts_def)
    next
      case endless
      with u d f show thesis
        by (intro fetched [of ?w3 sha256 ota1 w4 "[OtaEnd]" "''failed''" "-1" "Some (ox_err_name env ?ended)"]) (auto simp: error_texts_def)
    next
      case unset
      with u d f show thesis
        by (intro fetched [of ?w3 sha256 ota1 w4 "[OtaEnd, SetBoot]" "''failed''" "-1" "Some (ox_err_name env ?set)"]) (auto simp: error_texts_def)
    next
      case good
      with u d f show thesis
        by (intro fetched [of ?w3 sha256 ota1 w4 "[OtaEnd, SetBoot, Delay RESTART_DELAY_MS, Restart]" "''rebooting''" 100 None]) auto
    qed
  qed
qed

subsection \<open>Properties\<close>

text \<open>
  C2: Only a verified image is booted, unless hashing fails. However the server, the flash and the
  network behave, an update reaches \<open>esp_ota_set_boot_partition\<close> only if at least \<open>size\<close> bytes were
  written and \<open>esp_ota_end\<close> accepted them. As long as no hash call fails, the hash of exactly the
  written bytes is moreover the announced SHA-256. The exception is the code's: it ignores the
  results of \<open>psa_hash_update\<close> and \<open>psa_hash_finish\<close>, so that after a failing one (\<open>ow_hash\<close> is None) what
  is compared with the announced hash is the content \<open>ox_hash_left\<close> of the zeroed result buffer, whatever was
  written. The device restarts if and only if all of it worked.
\<close>

theorem boot_only_verified:
  assumes "ota_run cfg env menv (ota, w) = (ret, ota', w')" and "\<not> boots (ow_calls w)"
  shows "(SetBoot \<in> set (ow_calls w') \<longrightarrow>
      ota_size ota \<le> length (ow_flash w') \<and>
      (hash_works env \<longrightarrow> ow_hash w' \<noteq> None) \<and>
      (if ow_hash w' \<noteq> None then verified env (ot_params ota) (ow_flash w')
       else \<exists>t. hex_text (take 32 (ox_hash_left env t (replicate 32 0))) = cstr (op_sha256 (ot_params ota))) \<and>
      (\<exists>t u. ow_calls w' = t @ OtaEnd # SetBoot # u \<and> ox_end env t = ESP_OK)) \<and>
    (Restart \<in> set (ow_calls w') \<longleftrightarrow> ret = ESP_OK) \<and> (ret = ESP_OK \<longrightarrow> SetBoot \<in> set (ow_calls w'))"
using assms(1)
proof (cases rule: ota_run_cases)
  case (refused e) with assms(2) show ?thesis by (auto simp: boots_def)
next
  case (unopened e) with assms(2) show ?thesis by (auto simp: boots_def)
next
  case (failed sha256 ota1 w0 w1 e)
  with download_grows [OF failed(5), of "[]"] assms(2) show ?thesis by (auto simp: boots_def)
next
  case (fetched sha256 ota1 w0 w1 cs st p e)
  from download_grows [OF fetched(4), of "[]"] fetched(1,2) assms(2) obtain x where
    x: "ot_params ota1 = ot_params ota" "ow_flash w1 = x" "\<not> boots (ow_calls w1)" "ota_size ota \<le> length x"
      "hashed env sha256 x (ow_hash w1)"
    by (auto simp: download_errors_def)
  from x(3) have n: "SetBoot \<notin> set (ow_calls w1)" "Restart \<notin> set (ow_calls w1)" by (simp_all add: boots_def)
  show ?thesis
  proof (cases "hex_text (take 32 sha256) = cstr (op_sha256 (ot_params ota)) \<and> ox_end env (ow_calls w1) = ESP_OK")
    case True
    then obtain u where cs: "cs = OtaEnd # SetBoot # u" "(Restart \<in> set u) = (ret = ESP_OK)"
      using fetched(8) x(1) by (auto split: if_splits)
    have "(hash_works env \<longrightarrow> ow_hash w' \<noteq> None) \<and>
      (if ow_hash w' \<noteq> None then verified env (ot_params ota) x
       else \<exists>t. hex_text (take 32 (ox_hash_left env t (replicate 32 0))) = cstr (op_sha256 (ot_params ota)))"
      using x(5) True unfolding hashed_def fetched(10) verified_def
      by (cases "ow_hash w1") (auto simp: eq_commute [of "cstr (op_sha256 (ot_params ota))"])
    then show ?thesis
      using x(1-4) cs True fetched(5,6) n by auto
  next
    case False
    then have "cs = [OtaAbort] \<or> cs = [OtaEnd]" "ret \<noteq> ESP_OK"
      using fetched(8) x(1) by (auto split: if_splits)
    with fetched(5) n show ?thesis by auto
  qed
qed

text \<open>
  C13: A download is exact across interruptions. If reads return no more than asked, and the bytes of
  the image from where the response starts, then whatever is interrupted, cancelled or retried, the
  partition holds a beginning of the image; and after a successful update exactly its first \<open>size\<close>
  bytes.
\<close>

theorem update_writes_image:
  assumes "ota_run cfg env menv (ota, w) = (ret, ota', w')" and "reads_ok env" and "serves env img"
  shows "(ow_flash w' = ow_flash w \<or> prefix (ow_flash w') img) \<and>
    (ret = ESP_OK \<longrightarrow> ota_size ota \<le> length img \<and> ow_flash w' = take (ota_size ota) img)"
using assms(1)
proof (cases rule: ota_run_cases)
  case (failed sha256 ota1 w0 w1 e)
  with download_grows [OF failed(5), of img] assms(2,3) show ?thesis by auto
next
  case (fetched sha256 ota1 w0 w1 cs st p e)
  from download_grows [OF fetched(4), of img] fetched(2) assms(2,3) obtain x where
    x: "ow_flash w1 = x" "prefix x img" "length x = ota_size ota"
    by (auto simp: download_errors_def)
  then show ?thesis using fetched(6) by (auto simp: prefix_def)
qed simp_all

text \<open>
  C23: An update always ends. The update task returns whatever happens, after at most five
  connections for every byte of the image, and the next update can then be started: \<open>running\<close> is
  clear again and \<open>start\<close> takes the new parameters.
\<close>

theorem update_ends:
  assumes "ota_task_handler cfg env menv (ota, w) = (ota', w')"
  shows "connections (ow_calls w') \<le> connections (ow_calls w) + 5 * ota_size ota \<and>
    ot_running ota' = False \<and> fst (ota_start True ps ota') = ESP_OK \<and> ot_params (snd (ota_start True ps ota')) = ps"
proof -
  obtain ret ota1 where r: "ota_run cfg env menv (ota, w) = (ret, ota1, w')" "ota' = ota1\<lparr>ot_running := False\<rparr>"
    using assms by (auto simp: ota_task_handler_def split: prod.splits)
  have "connections (ow_calls w') \<le> connections (ow_calls w) + 5 * ota_size ota"
    using r(1)
  proof (cases rule: ota_run_cases)
    case (failed sha256 ota1 w0 w1 e)
    with download_link(4) [OF failed(5)] show ?thesis by simp
  next
    case (fetched sha256 ota1 w0 w1 cs st p e)
    then have "connections cs = 0" by (auto split: if_splits)
    with fetched(1,5) download_link(4) [OF fetched(4)] show ?thesis by simp
  qed auto
  with r(2) show ?thesis by (simp add: ota_start_def Let_def)
qed

lemma report_lengths:
  "length (quoted ''taskId'') = 8" "length (quoted ''state'') = 7" "length (quoted ''progress'') = 10"
  "length (quoted ''error'') = 7" "length (quoted ''rebooting'') = 11" "length (quoted ''failed'') = 8"
  "length (dec_text 100) = 3" "length (quoted (cstr ''no OTA partition'')) \<le> 64"
  "length (quoted (cstr ''image larger than the OTA partition'')) \<le> 64"
  "length (quoted (cstr ''cancelled'')) \<le> 64" "length (quoted (cstr ''SHA-256 mismatch'')) \<le> 64"
  by code_simp+

text \<open>The event an update ends with fits its buffer.\<close>

lemma outcome_fits:
  assumes "length (quoted (cstr (op_task_id (ot_params ota)))) \<le> 150"
    and "\<And>e. length (quoted (cstr (ox_err_name env e))) \<le> 64"
  shows "length (render (ota_event_json (ota_event ota ''rebooting'' 100 None))) < 256"
    and "e \<in> error_texts env \<Longrightarrow> length (render (ota_event_json (ota_event ota ''failed'' (-1) (Some e)))) < 256"
proof -
  have k: "cstr s = s" if "s \<in> {''rebooting'', ''failed''}" for s using that by (auto intro: cstr_no_nul)
  show "length (render (ota_event_json (ota_event ota ''rebooting'' 100 None))) < 256"
    using assms(1) by (simp add: ota_event_json_def ota_event_def str_json_def k report_lengths)
  have "length (quoted (cstr e)) \<le> 64" if "e \<in> error_texts env"
    using that assms(2) report_lengths by (auto simp: error_texts_def)
  then show "e \<in> error_texts env \<Longrightarrow> length (render (ota_event_json (ota_event ota ''failed'' (-1) (Some e)))) < 256"
    using assms(1) by (fastforce simp: ota_event_json_def ota_event_def str_json_def k report_lengths)
qed

text \<open>What an update publishes, up to and with its last report.\<close>

lemma outcome_sent:
  assumes "env_takes menv" and "mq_connected mq0" and "NUL \<notin> set (mq_up mq0)" and "length (mq_up mq0) < 89"
    and "same_link mq0 mq" and "ot_params ota1 = ot_params ota" and "reports env ota mq0 mq" and "p < 2 ^ 31"
  shows "\<exists>ms. sent (ota_post menv ota1 st p e mq) = sent mq0 @ ms @ ota_posted (mq_up mq0) ota st p e \<and>
    (reads_ok env \<longrightarrow> set ms \<subseteq> progress_messages (mq_up mq0) ota)"
proof -
  have "sent (ota_post menv ota1 st p e mq) = sent mq @ ota_posted (mq_up mq0) ota st p e"
    using ota_post_takes [of menv mq p ota1 st e] assms(1-6,8)
    by (simp add: same_link_def ota_posted_params [OF assms(6)])
  with assms(7) show ?thesis by (auto simp: reports_def)
qed

text \<open>
  C24: The outcome of every update is reported, if its event fits. While the connection takes
  messages (it is up, every publish goes through, and the device's prefix, at most 31 characters long, leaves
  room for \<open>evt/ota\<close>), the last message of an update says \<open>rebooting\<close> if the device is about to
  restart into the new image, and \<open>failed\<close> with a reason in every other case; the messages before it
  report progress (if reads return no more than they were asked for). The exception is the code's: an event whose JSON needs 256 bytes or more is dropped
  silently (\<open>ota_posted\<close>). A task id of up to 39 characters that the JSON must escape can bring it there; by
  \<open>outcome_fits\<close>, one whose quoted form has at most 150 characters, such as a UUID, cannot, as long
  as the quoted error names of ESP-IDF have at most 64.
\<close>

theorem outcome_reported:
  assumes "ota_run cfg env menv (ota, w) = (ret, ota', w')"
    and "env_takes menv" and "mq_connected (ow_mqtt w)" and "NUL \<notin> set (mq_up (ow_mqtt w))"
    and "length (mq_up (ow_mqtt w)) < 89"
  shows "\<exists>ms e. e \<in> error_texts env \<and> sent (ow_mqtt w') = sent (ow_mqtt w) @ ms @
      (if ret = ESP_OK then ota_posted (mq_up (ow_mqtt w)) ota ''rebooting'' 100 None
       else ota_posted (mq_up (ow_mqtt w)) ota ''failed'' (-1) (Some e)) \<and>
    (reads_ok env \<longrightarrow> set ms \<subseteq> progress_messages (mq_up (ow_mqtt w)) ota)"
proof -
  note fits = outcome_sent [OF assms(2-5), of _ _ ota env]
  show ?thesis
    using assms(1)
  proof (cases rule: ota_run_cases)
    case (refused e)
    with fits [of "ow_mqtt w" ota "-1" "''failed''" "Some e"] show ?thesis by auto
  next
    case (unopened e)
    with fits [of "ota_post menv ota ''downloading'' 0 None (ow_mqtt w)" ota "-1" "''failed''" "Some e"]
    show ?thesis by auto
  next
    case (failed sha256 ota1 w0 w1 e)
    have "same_link (ow_mqtt w0) (ow_mqtt w1)" and o: "ot_params ota1 = ot_params ota" and "reports env ota (ow_mqtt w0) (ow_mqtt w1)"
      using download_link(1-3) [OF failed(5)] by simp_all
    moreover have "same_link (ow_mqtt w) (ow_mqtt w0)" "reports env ota (ow_mqtt w) (ow_mqtt w0)" by (simp_all add: failed(4))
    ultimately have l: "same_link (ow_mqtt w) (ow_mqtt w1)" "reports env ota (ow_mqtt w) (ow_mqtt w1)"
      using same_link_trans reports_trans by blast+
    have "(-1 :: int) < 2 ^ 31" by simp
    from fits [OF l(1) o l(2) this, of "''failed''" "Some e"] failed(1) show ?thesis
      unfolding failed(9) if_not_P [OF failed(6)] by blast
  next
    case (fetched sha256 ota1 w0 w1 cs st p e)
    let ?mq = "ota_post menv ota1 ''verifying'' 100 None (ow_mqtt w1)"
    have "same_link (ow_mqtt w0) (ow_mqtt w1)" and o: "ot_params ota1 = ot_params ota" and "reports env ota (ow_mqtt w0) (ow_mqtt w1)"
      using download_link(1-3) [OF fetched(4)] by simp_all
    moreover have "same_link (ow_mqtt w) (ow_mqtt w0)" "reports env ota (ow_mqtt w) (ow_mqtt w0)" by (simp_all add: fetched(3))
    ultimately have l1: "same_link (ow_mqtt w) (ow_mqtt w1)" "reports env ota (ow_mqtt w) (ow_mqtt w1)"
      using same_link_trans reports_trans by blast+
    have "reports env ota (ow_mqtt w1) ?mq"
      unfolding reports_params [OF o, symmetric] by (rule reports_post) simp_all
    then have l: "same_link (ow_mqtt w) ?mq" "reports env ota (ow_mqtt w) ?mq"
      using l1 same_link_trans [OF l1(1) same_link_post] reports_trans by blast+
    have "p < 2 ^ 31" using fetched(9) by (simp split: if_splits)
    from fits [OF l(1) o l(2) this, of st e] have "\<exists>ms. sent (ow_mqtt w') = sent (ow_mqtt w) @ ms @ ota_posted (mq_up (ow_mqtt w)) ota st p e \<and>
        (reads_ok env \<longrightarrow> set ms \<subseteq> progress_messages (mq_up (ow_mqtt w)) ota)"
      unfolding fetched(7) .
    moreover have "''cancelled'' \<in> error_texts env" by (simp add: error_texts_def)
    ultimately show ?thesis using fetched(9) by (cases "ret = ESP_OK") (simp, blast, clarsimp, blast)
  qed
qed

subsection \<open>A sample update\<close>

text \<open>
  A server whose first connection breaks after one read: it has a three byte image, answers 200 to
  the whole and 206 to a range, and hashes to itself.
\<close>

definition sample_env :: "bool \<Rightarrow> ota_env" where
  "sample_env good = \<lparr>ox_partition = (\<lambda>_. Some 4096), ox_begin = (\<lambda>_. ESP_OK), ox_end = (\<lambda>_. ESP_OK),
     ox_set_boot = (\<lambda>_. ESP_OK), ox_malloc = (\<lambda>_. True), ox_hash_setup = (\<lambda>_. True),
     ox_hash_update = (\<lambda>_. True), ox_hash_finish = (\<lambda>_. True), ox_hash_left = (\<lambda>_ b. b), ox_http_init = (\<lambda>_. True),
     ox_open = (\<lambda>_. ESP_OK), ox_fetch = (\<lambda>_. 3), ox_status = (\<lambda>t. if fst (server t) = 0 then 200 else 206),
     ox_read = (\<lambda>t want. case position t of None \<Rightarrow> None
       | Some p \<Rightarrow> if p = 2 \<and> connections t = 1 then None else Some (take (min want 2) (drop p ''abc''))),
     ox_write = (\<lambda>_. ESP_OK), ox_time = (\<lambda>_. 0), ox_cancel = (\<lambda>_. \<not> good),
     ox_sha256 = (\<lambda>x. map of_char x), ox_err_name = (\<lambda>_. ''ERR'')\<rparr>"

definition sample_ota :: sc_ota where
  "sample_ota = ota_init\<lparr>ot_params := \<lparr>op_url = ''https://x'', op_sha256 = ''616263'', op_size = 3, op_version = ''2'',
     op_task_id = ''t1''\<rparr>\<rparr>"

definition sample_world :: ota_world where
  "sample_world = \<lparr>ow_calls = [], ow_flash = [], ow_hash = None, ow_mqtt = (mqtt_init ''1'')\<lparr>mq_connected := True\<rparr>\<rparr>"

lemma ota_report_eq: "ota_report menv ota st p e w = w\<lparr>ow_mqtt := ota_post menv ota st p e (ow_mqtt w)\<rparr>"
  by (rule ota_world.equality) simp_all

lemma sample_server:
  "server [] = (0, None)" "server (c # t) = fold server_step t (server_step c (0, None))"
  by (simp_all add: server_def)

lemmas sample_defs = sample_env_def sample_ota_def sample_world_def ota_init_def ota_params_init_def kconfig_default_def
  ota_report_eq ow_call_def sample_server server_step_def progress_report_def hash_update_def hash_finish_def download_from_def download_def
  download_loop.simps read_loop.simps Let_def MAX_ATTEMPTS_def

lemma sample_hash: "hex_text [97, 98, 99] = cstr ''616263''"
  by code_simp

lemma sample_run: "\<exists>ota' w'. ota_run kconfig_default (sample_env True) env_ok (sample_ota, sample_world) = (ESP_OK, ota', w')"
  by (simp add: ota_run_def sample_defs sample_hash)

lemma sample_reads: "reads_ok (sample_env good)"
  by (auto simp: reads_ok_def sample_env_def split: option.splits if_splits)

lemma sample_serves: "serves (sample_env good) ''abc''"
  by (auto simp: serves_def sample_env_def take_is_prefix split: option.splits if_splits)

theorem boot_only_verified_witness:
  "\<exists>ota' w'. ota_run kconfig_default (sample_env True) env_ok (sample_ota, sample_world) = (ESP_OK, ota', w') \<and>
    SetBoot \<in> set (ow_calls w') \<and> Restart \<in> set (ow_calls w') \<and> 3 \<le> length (ow_flash w') \<and>
    verified (sample_env True) (ot_params sample_ota) (ow_flash w')"
proof -
  obtain ota' w' where r: "ota_run kconfig_default (sample_env True) env_ok (sample_ota, sample_world) = (ESP_OK, ota', w')"
    using sample_run by blast
  have "ota_size sample_ota = 3" by (simp add: sample_ota_def)
  moreover have "hash_works (sample_env True)" by (simp add: hash_works_def sample_env_def)
  ultimately show ?thesis using r boot_only_verified [OF r] by (auto simp: sample_world_def)
qed

text \<open>
  The exception occurs: \<open>psa_hash_finish\<close> fails and leaves the zeroed buffer alone, 64 zeros were
  announced, and the device boots an image with another hash.
\<close>

lemma failed_hash_boots:
  fixes env ota
  defines "env \<equiv> (sample_env True)\<lparr>ox_hash_finish := \<lambda>_. False\<rparr>"
    and "ota \<equiv> sample_ota\<lparr>ot_params := (ot_params sample_ota)\<lparr>op_sha256 := replicate 64 CHR ''0''\<rparr>\<rparr>"
  shows "\<exists>ota' w'. ota_run kconfig_default env env_ok (ota, sample_world) = (ESP_OK, ota', w') \<and>
    SetBoot \<in> set (ow_calls w') \<and> ow_flash w' = ''abc'' \<and> \<not> verified env (ot_params ota) ''abc''"
proof -
  have "hex_text (replicate 32 0) = cstr (replicate 64 CHR ''0'')" "hex_text [97, 98, 99] \<noteq> cstr (replicate 64 CHR ''0'')"
    by code_simp+
  then show ?thesis
    by (simp add: env_def ota_def ota_run_def verified_def sample_defs)
qed

theorem update_writes_image_witness:
  "\<exists>ota' w'. ota_run kconfig_default (sample_env True) env_ok (sample_ota, sample_world) = (ESP_OK, ota', w') \<and>
    ow_flash w' = ''abc''"
proof -
  obtain ota' w' where r: "ota_run kconfig_default (sample_env True) env_ok (sample_ota, sample_world) = (ESP_OK, ota', w')"
    using sample_run by blast
  from update_writes_image [OF r sample_reads sample_serves] r show ?thesis by (simp add: sample_ota_def)
qed

theorem update_ends_witness:
  "\<exists>ota' w'. ota_task_handler kconfig_default (sample_env True) env_ok (sample_ota, sample_world) = (ota', w') \<and>
    connections (ow_calls w') \<le> 15 \<and> \<not> ot_running ota'"
proof -
  obtain ota' w' where r: "ota_task_handler kconfig_default (sample_env True) env_ok (sample_ota, sample_world) = (ota', w')"
    by (cases "ota_task_handler kconfig_default (sample_env True) env_ok (sample_ota, sample_world)")
  from update_ends [OF r] r show ?thesis by (simp add: sample_ota_def sample_world_def)
qed

theorem outcome_reported_witness:
  "\<exists>ota' w' ms. ota_run kconfig_default (sample_env True) env_ok (sample_ota, sample_world) = (ESP_OK, ota', w') \<and>
    sent (ow_mqtt w') = ms @ [ota_message ''d/1/up/'' sample_ota ''rebooting'' 100 None] \<and>
    set ms \<subseteq> progress_messages ''d/1/up/'' sample_ota"
proof -
  obtain ota' w' where r: "ota_run kconfig_default (sample_env True) env_ok (sample_ota, sample_world) = (ESP_OK, ota', w')"
    using sample_run by blast
  have up: "mq_up (ow_mqtt sample_world) = ''d/1/up/''" "mq_connected (ow_mqtt sample_world)" "sent (ow_mqtt sample_world) = []"
    by (simp_all add: sample_world_def mqtt_init_def snprintf_def sent_def List.map_filter_def)
  have "length (render (ota_event_json (ota_event sample_ota ''rebooting'' 100 None))) < 256"
    by (simp add: sample_ota_def) code_simp
  with outcome_reported [OF r env_ok_takes] up r sample_reads show ?thesis by (auto simp: ota_posted_def)
qed

text \<open>
  The exception occurs: with an accepted task id of 39 control characters no event fits, and the
  update, which succeeds, publishes nothing.
\<close>

lemma outcome_dropped:
  fixes ota
  defines "ota \<equiv> sample_ota\<lparr>ot_params := (ot_params sample_ota)\<lparr>op_task_id := replicate 39 (CHR 0x01)\<rparr>\<rparr>"
  shows "\<exists>ota' w'. ota_run kconfig_default (sample_env True) env_ok (ota, sample_world) = (ESP_OK, ota', w') \<and>
    sent (ow_mqtt w') = []"
proof -
  have "length (quoted (cstr (replicate 39 (CHR 0x01)))) = 236" by code_simp
  then have "ota_post menv ota st p None mq = mq"
    if "p < 2 ^ 31" "op_task_id (ot_params ota) = replicate 39 (CHR 0x01)" for ota st p menv and mq
    using that report_lengths by (auto simp: ota_post_eq ota_event_json_def ota_event_def str_json_def)
  moreover have "sent (mqtt_init ''1''\<lparr>mq_connected := True\<rparr>) = []"
    by (simp add: mqtt_init_def sent_def List.map_filter_def)
  ultimately show ?thesis
    by (simp add: ota_run_def sample_defs sample_hash ota_def)
qed

end
