(* ===== verification/Log_Uplink.thy ===== *)
theory Log_Uplink
  imports Json_Writer Mqtt_Link
begin

text \<open>
  \<open>sc_log_uplink\<close> (\<open>src/sc_log_uplink.hpp\<close>, \<open>src/sc_log_uplink.cpp\<close>): log packets and lines
  wait in two ring buffers; the upload task packs them into batches.

  The FreeRTOS ring buffers (one item per send, first in first out) are values of an arbitrary type
  \<open>'r\<close> used through \<open>ring_api\<close>; what they hold is read by an abstraction function. The packet format
  of on9log is a parameter, \<open>on9log_api\<close>: the length of a header, the payload length a header
  announces, the bytes of a header with given fields, and the closing packet that
  \<open>on9log_encode_time_sync\<close> writes, which may differ at every call.
\<close>

subsection \<open>The ring buffers and on9log\<close>

text \<open>
  \<open>xRingbufferSendAcquire\<close> returns a buffer of the given length, with any content; the item is
  received only after \<open>xRingbufferSendComplete\<close>.
\<close>

record 'r ring_api =
  ra_send :: "string \<Rightarrow> 'r \<Rightarrow> 'r option"
  ra_acquire :: "nat \<Rightarrow> 'r \<Rightarrow> (string \<times> 'r) option"
  ra_complete :: "string \<Rightarrow> 'r \<Rightarrow> 'r"
  ra_receive :: "'r \<Rightarrow> (string \<times> 'r) option"
  ra_return :: "'r \<Rightarrow> 'r"

definition ring_ok :: "'r ring_api \<Rightarrow> ('r \<Rightarrow> string list) \<Rightarrow> bool" where
  "ring_ok api items \<longleftrightarrow>
     (\<forall>r x. case ra_send api x r of None \<Rightarrow> True | Some r' \<Rightarrow> items r' = items r @ [x]) \<and>
     (\<forall>r n. case ra_acquire api n r of None \<Rightarrow> True | Some (b, r') \<Rightarrow> length b = n \<and> items r' = items r) \<and>
     (\<forall>r x. items (ra_complete api x r) = items r @ [x]) \<and>
     (\<forall>r. case items r of [] \<Rightarrow> ra_receive api r = None
        | x # xs \<Rightarrow> \<exists>r'. ra_receive api r = Some (x, r') \<and> items r' = xs) \<and>
     (\<forall>r. items (ra_return api r) = items r)"

record on9log_api =
  oa_header_len :: nat
  oa_payload_len :: "string \<Rightarrow> nat"
  oa_dropped_header :: "u32 \<Rightarrow> string"
  oa_time_sync :: "mqtt_call list \<Rightarrow> u32 \<Rightarrow> string"

definition TIME_SYNC_LEN :: nat where "TIME_SYNC_LEN = 22"

text \<open>What the calls to on9log promise about lengths.\<close>

definition on9log_ok :: "on9log_api \<Rightarrow> bool" where
  "on9log_ok oa \<longleftrightarrow> (\<forall>t. length (oa_dropped_header oa t) = oa_header_len oa) \<and> oa_header_len oa \<le> 64 \<and>
     (\<forall>t b. length (oa_time_sync oa t b) \<le> TIME_SYNC_LEN)"

subsection \<open>State\<close>

text \<open>
  \<open>lu_item\<close> is the acquired item the sink is writing, with its content so far; \<open>lu_locked\<close> says
  whether \<open>sink_lock\<close> is held.
\<close>

record 'r log_uplink =
  lu_boot_id :: u32
  lu_bin_ring :: 'r
  lu_text_ring :: 'r
  lu_batch :: string
  lu_text_enabled :: bool
  lu_bin_enabled :: bool
  lu_bin_dropped :: u32
  lu_text_dropped :: u32
  lu_locked :: bool
  lu_item :: "string option"
  lu_item_len :: nat
  lu_item_pos :: nat

text \<open>\<open>init\<close>: the two rings, the batch buffer, and whether the calls it makes succeed.\<close>

definition log_init ::
    "kconfig \<Rightarrow> bool \<Rightarrow> bool \<Rightarrow> bool \<Rightarrow> u32 \<Rightarrow> 'r \<Rightarrow> 'r \<Rightarrow> string \<Rightarrow> esp_err \<times> 'r log_uplink" where
  "log_init cfg allocated task_created sink_added boot_id bin_ring text_ring batch =
     (let lu = \<lparr>lu_boot_id = boot_id, lu_bin_ring = bin_ring, lu_text_ring = text_ring, lu_batch = batch,
            lu_text_enabled = True, lu_bin_enabled = True, lu_bin_dropped = 0, lu_text_dropped = 0,
            lu_locked = False, lu_item = None, lu_item_len = 0, lu_item_pos = 0\<rparr> in
      if \<not> allocated then (ESP_ERR_NO_MEM, lu)
      else if \<not> task_created then (ESP_ERR_NO_MEM, lu)
      else if k_log_bin cfg \<and> \<not> sink_added then (ESP_FAIL, lu)
      else (ESP_OK, lu))"

definition set_text_enabled :: "bool \<Rightarrow> 'r log_uplink \<Rightarrow> 'r log_uplink" where
  "set_text_enabled enabled lu = lu\<lparr>lu_text_enabled := enabled\<rparr>"

definition set_bin_enabled :: "bool \<Rightarrow> 'r log_uplink \<Rightarrow> 'r log_uplink" where
  "set_bin_enabled enabled lu = lu\<lparr>lu_bin_enabled := enabled\<rparr>"

subsection \<open>The on9log sink\<close>

definition sink_start ::
    "on9log_api \<Rightarrow> 'r ring_api \<Rightarrow> string option \<Rightarrow> 'r log_uplink \<Rightarrow> 'r log_uplink" where
  "sink_start oa api header lu =
     (let lu = lu\<lparr>lu_locked := True, lu_item := None\<rparr> in
      case header of
        None \<Rightarrow> lu
      | Some h \<Rightarrow>
          if length h \<noteq> oa_header_len oa \<or> \<not> lu_bin_enabled lu then lu
          else
            let whole = length h + oa_payload_len oa h in
            (case ra_acquire api whole (lu_bin_ring lu) of
               None \<Rightarrow> lu\<lparr>lu_bin_dropped := lu_bin_dropped lu + 1\<rparr>
             | Some (item, ring) \<Rightarrow>
                 lu\<lparr>lu_bin_ring := ring, lu_item := Some (memcpy item 0 h), lu_item_len := whole,
                    lu_item_pos := length h\<rparr>))"

definition sink_payload :: "string \<Rightarrow> 'r log_uplink \<Rightarrow> 'r log_uplink" where
  "sink_payload payload lu =
     (case lu_item lu of
        None \<Rightarrow> lu
      | Some item \<Rightarrow>
          let room = lu_item_len lu - lu_item_pos lu;
              copy_len = (if length payload < room then length payload else room) in
          lu\<lparr>lu_item := Some (memcpy item (lu_item_pos lu) (take copy_len payload)),
             lu_item_pos := lu_item_pos lu + copy_len\<rparr>)"

definition sink_end :: "'r ring_api \<Rightarrow> 'r log_uplink \<Rightarrow> 'r log_uplink" where
  "sink_end api lu =
     (let lu = (case lu_item lu of
            None \<Rightarrow> lu
          | Some item \<Rightarrow> lu\<lparr>lu_bin_ring := ra_complete api item (lu_bin_ring lu), lu_item := None\<rparr>)
      in lu\<lparr>lu_locked := False\<rparr>)"

subsection \<open>The text hook\<close>

text \<open>
  \<open>s\<close> is the formatted line (what \<open>vsnprintf\<close> would print in full). The previous hook is always
  called with the same arguments, so only what is stored is modelled.
\<close>

definition cut_line :: "kconfig \<Rightarrow> string \<Rightarrow> string" where
  "cut_line cfg s =
     (let line = take (k_log_line_max cfg - 1) s in
      if length s < k_log_line_max cfg then line else line[k_log_line_max cfg - 2 := CHR 0x0A])"

definition text_vprintf ::
    "kconfig \<Rightarrow> 'r ring_api \<Rightarrow> bool \<Rightarrow> string \<Rightarrow> 'r log_uplink \<Rightarrow> 'r log_uplink" where
  "text_vprintf cfg api own_task s lu =
     (if lu_text_enabled lu \<and> \<not> own_task \<and> length s > 0
      then (case ra_send api (cut_line cfg s) (lu_text_ring lu) of
              None \<Rightarrow> lu\<lparr>lu_text_dropped := lu_text_dropped lu + 1\<rparr>
            | Some ring \<Rightarrow> lu\<lparr>lu_text_ring := ring\<rparr>)
      else lu)"

subsection \<open>Uploading\<close>

definition bin_props :: sc_publish_props where
  "bin_props = \<lparr>pp_content_type = Some ''application/octet-stream'', pp_correlation = [], pp_response_topic = None\<rparr>"

definition publish_batch ::
    "kconfig \<Rightarrow> mqtt_env \<Rightarrow> string \<Rightarrow> string \<Rightarrow> string \<Rightarrow> nat \<Rightarrow> sc_mqtt \<Rightarrow> sc_mqtt" where
  "publish_batch cfg env sub_topic content_type batch len mq =
     snd (publish env sub_topic (take len batch) (if k_log_qos1 cfg then 1 else 0)
       (Some \<lparr>pp_content_type = Some content_type, pp_correlation = [], pp_response_topic = None\<rparr>) mq)"

text \<open>A \<open>uint32_t\<close> in memory: the devices are little-endian.\<close>

definition le32 :: "u32 \<Rightarrow> string" where
  "le32 x = map (\<lambda>k. char_of (unat (drop_bit (8 * k) x) mod 256)) [0, 1, 2, 3]"

text \<open>Closing a binary batch: the TIME_SYNC packet is appended and the batch published.\<close>

definition close_batch ::
    "kconfig \<Rightarrow> on9log_api \<Rightarrow> mqtt_env \<Rightarrow> u32 \<Rightarrow> string \<Rightarrow> nat \<Rightarrow> sc_mqtt \<Rightarrow> string \<times> sc_mqtt" where
  "close_batch cfg oa env boot_id batch len mq =
     (let sync = oa_time_sync oa (mq_calls mq) boot_id;
          batch = memcpy batch len sync
      in (batch, publish_batch cfg env ''log/bin'' ''application/octet-stream'' batch (len + length sync) mq))"

text \<open>One item received from the binary ring.\<close>

definition take_packet ::
    "kconfig \<Rightarrow> on9log_api \<Rightarrow> mqtt_env \<Rightarrow> u32 \<Rightarrow> string \<Rightarrow> string \<times> nat \<times> sc_mqtt \<Rightarrow> string \<times> nat \<times> sc_mqtt" where
  "take_packet cfg oa env boot_id item s =
     (case s of (batch, len, mq) \<Rightarrow>
        let cap = k_log_batch_size cfg - TIME_SYNC_LEN;
            (batch, len, mq) =
              (if len + length item > cap \<and> len > 0
               then let (batch, mq) = close_batch cfg oa env boot_id batch len mq in (batch, 0, mq)
               else (batch, len, mq))
        in if length item > cap
           then (batch, len, snd (publish env ''log/bin'' item 0 (Some bin_props) mq))
           else (memcpy batch len item, len + length item, mq))"

text \<open>The receive loop of \<open>upload_bin\<close>; it ends when the ring is empty.\<close>

partial_function (option) bin_loop ::
    "kconfig \<Rightarrow> on9log_api \<Rightarrow> 'r ring_api \<Rightarrow> mqtt_env \<Rightarrow> u32 \<Rightarrow> 'r \<Rightarrow> string \<times> nat \<times> sc_mqtt \<Rightarrow>
     ('r \<times> string \<times> nat \<times> sc_mqtt) option" where
  "bin_loop cfg oa api env boot_id ring s =
     (case ra_receive api ring of
        None \<Rightarrow> Some (ring, s)
      | Some (item, ring) \<Rightarrow> bin_loop cfg oa api env boot_id (ra_return api ring) (take_packet cfg oa env boot_id item s))"

text \<open>\<open>now\<close> is \<open>esp_timer_get_time()\<close>.\<close>

definition upload_bin ::
    "kconfig \<Rightarrow> on9log_api \<Rightarrow> 'r ring_api \<Rightarrow> mqtt_env \<Rightarrow> int \<Rightarrow> 'r log_uplink \<times> sc_mqtt \<Rightarrow>
     ('r log_uplink \<times> sc_mqtt) option" where
  "upload_bin cfg oa api env now s =
     (case s of (lu, mq) \<Rightarrow>
        let dropped = lu_bin_dropped lu;
            (batch, len) =
              (if dropped > 0
               then let hdr = oa_dropped_header oa (word_of_int (now div 1000)) in
                    (memcpy (memcpy (lu_batch lu) 0 hdr) (length hdr) (le32 dropped), length hdr + 4)
               else (lu_batch lu, 0))
        in (case bin_loop cfg oa api env (lu_boot_id lu) (lu_bin_ring lu) (batch, len, mq) of
              None \<Rightarrow> None
            | Some (ring, batch, len, mq) \<Rightarrow>
                let (batch, mq) = (if len > 0 then close_batch cfg oa env (lu_boot_id lu) batch len mq else (batch, mq))
                in Some (lu\<lparr>lu_bin_dropped := 0, lu_bin_ring := ring, lu_batch := batch\<rparr>, mq)))"

definition take_line :: "kconfig \<Rightarrow> mqtt_env \<Rightarrow> string \<Rightarrow> string \<times> nat \<times> sc_mqtt \<Rightarrow> string \<times> nat \<times> sc_mqtt" where
  "take_line cfg env item s =
     (case s of (batch, len, mq) \<Rightarrow>
        let (len, mq) =
              (if len + length item > k_log_batch_size cfg
               then (0, publish_batch cfg env ''log/text'' ''text/plain'' batch len mq) else (len, mq))
        in (memcpy batch len item, len + length item, mq))"

partial_function (option) text_loop ::
    "kconfig \<Rightarrow> 'r ring_api \<Rightarrow> mqtt_env \<Rightarrow> 'r \<Rightarrow> string \<times> nat \<times> sc_mqtt \<Rightarrow> ('r \<times> string \<times> nat \<times> sc_mqtt) option" where
  "text_loop cfg api env ring s =
     (case ra_receive api ring of
        None \<Rightarrow> Some (ring, s)
      | Some (item, ring) \<Rightarrow> text_loop cfg api env (ra_return api ring) (take_line cfg env item s))"

definition dropped_line :: "int \<Rightarrow> u32 \<Rightarrow> string" where
  "dropped_line now dropped =
     ''W ('' @ dec_text (now div 1000) @ '') soulcloud: '' @ dec_text (uint dropped) @ '' log lines dropped'' @ [CHR 0x0A]"

definition upload_text ::
    "kconfig \<Rightarrow> 'r ring_api \<Rightarrow> mqtt_env \<Rightarrow> int \<Rightarrow> 'r log_uplink \<times> sc_mqtt \<Rightarrow> ('r log_uplink \<times> sc_mqtt) option" where
  "upload_text cfg api env now s =
     (case s of (lu, mq) \<Rightarrow>
        let dropped = lu_text_dropped lu;
            (batch, len) =
              (if dropped > 0
               then (memcpy (lu_batch lu) 0 (snprintf (k_log_batch_size cfg) (dropped_line now dropped) @ [NUL]),
                     length (dropped_line now dropped))
               else (lu_batch lu, 0))
        in (case text_loop cfg api env (lu_text_ring lu) (batch, len, mq) of
              None \<Rightarrow> None
            | Some (ring, batch, len, mq) \<Rightarrow>
                let mq = (if len > 0 then publish_batch cfg env ''log/text'' ''text/plain'' batch len mq else mq)
                in Some (lu\<lparr>lu_text_dropped := 0, lu_text_ring := ring, lu_batch := batch\<rparr>, mq)))"

text \<open>One turn of the upload task.\<close>

definition log_turn ::
    "kconfig \<Rightarrow> on9log_api \<Rightarrow> 'r ring_api \<Rightarrow> mqtt_env \<Rightarrow> int \<Rightarrow> 'r log_uplink \<times> sc_mqtt \<Rightarrow>
     ('r log_uplink \<times> sc_mqtt) option" where
  "log_turn cfg oa api env now s =
     (if \<not> mq_connected (snd s) then Some s
      else case upload_bin cfg oa api env now s of None \<Rightarrow> None | Some s \<Rightarrow> upload_text cfg api env now s)"

end
