(* ===== verification/Log_Batches.thy ===== *)
theory Log_Batches
  imports Log_Uplink Json_Lookup
begin

text \<open>
  What the log uplink guarantees: a packet is stored whole or counted as dropped, and never written
  outside its reservation; an upload empties its ring, in order, into batches that fit the batch
  buffer.
\<close>

subsection \<open>Draining a ring\<close>

text \<open>A loop that receives items until there is none, and what it comes to.\<close>

locale draining =
  fixes ok :: bool
    and items :: "'r \<Rightarrow> string list"
    and receive :: "'r \<Rightarrow> (string \<times> 'r) option"
    and release :: "'r \<Rightarrow> 'r"
    and step :: "string \<Rightarrow> 's \<Rightarrow> 's"
    and drain :: "'r \<Rightarrow> 's \<Rightarrow> ('r \<times> 's) option"
  assumes law_empty: "ok \<Longrightarrow> items r = [] \<Longrightarrow> receive r = None"
    and law_item: "ok \<Longrightarrow> items r = x # xs \<Longrightarrow> \<exists>r'. receive r = Some (x, r') \<and> items (release r') = xs"
    and law_loop: "drain r s = (case receive r of None \<Rightarrow> Some (r, s) | Some (x, r') \<Rightarrow> drain (release r') (step x s))"
begin

lemma drains: "ok \<Longrightarrow> \<exists>r'. drain r s = Some (r', fold step (items r) s) \<and> items r' = []"
proof (induction "items r" arbitrary: r s)
  case Nil
  then show ?case using law_empty law_loop [of r s] by simp
next
  case (Cons x xs)
  from law_item [OF Cons.prems Cons.hyps(2) [symmetric]] obtain r' where
    r: "receive r = Some (x, r')" "items (release r') = xs" by blast
  from Cons.hyps(1) [OF r(2) [symmetric] Cons.prems, of "step x s"] r Cons.hyps(2) [symmetric] law_loop [of r s]
  show ?case by simp
qed

end

lemma ring_empty: "ring_ok api items \<Longrightarrow> items r = [] \<Longrightarrow> ra_receive api r = None"
  unfolding ring_ok_def by (auto dest!: spec [of _ r])

lemma ring_item: "ring_ok api items \<Longrightarrow> items r = x # xs \<Longrightarrow>
    \<exists>r'. ra_receive api r = Some (x, r') \<and> items (ra_return api r') = xs"
proof -
  assume ok: "ring_ok api items" and r: "items r = x # xs"
  have "case items r of [] \<Rightarrow> ra_receive api r = None
      | x # xs \<Rightarrow> \<exists>r'. ra_receive api r = Some (x, r') \<and> items r' = xs" "\<And>r. items (ra_return api r) = items r"
    using ok unfolding ring_ok_def by blast+
  with r show ?thesis by auto
qed

interpretation bin: draining "ring_ok api items" items "ra_receive api" "ra_return api"
    "take_packet cfg oa env boot_id" "bin_loop cfg oa api env boot_id"
  for api :: "'r ring_api" and items cfg oa env boot_id
  by unfold_locales (fact ring_empty ring_item bin_loop.simps)+

interpretation lines: draining "ring_ok api items" items "ra_receive api" "ra_return api"
    "take_line cfg env" "text_loop cfg api env"
  for api :: "'r ring_api" and items cfg env
  by unfold_locales (fact ring_empty ring_item text_loop.simps)+

subsection \<open>Batches\<close>

text \<open>
  A batch of whole items, or an item on its own. \<open>seg_ok\<close>: a batch carries something and fits, an
  item goes on its own only if it does not.
\<close>

datatype segment = Batch (seg_items: "string list") | Alone (seg_item: string)

fun seg_of :: "segment \<Rightarrow> string list" where
  "seg_of (Batch xs) = xs"
| "seg_of (Alone x) = [x]"

fun seg_ok :: "nat \<Rightarrow> segment \<Rightarrow> bool" where
  "seg_ok cap (Batch xs) \<longleftrightarrow> 0 < length (concat xs) \<and> length (concat xs) \<le> cap"
| "seg_ok cap (Alone x) \<longleftrightarrow> cap < length x"

text \<open>
  Segments are posted if each becomes a message, in order; when the connection takes messages, all of
  them are sent, otherwise some may be lost.
\<close>

type_synonym message = "string \<times> string \<times> int"

definition link_takes :: "mqtt_env \<Rightarrow> sc_mqtt \<Rightarrow> bool" where
  "link_takes env mq \<longleftrightarrow> env_takes env \<and> mq_connected mq \<and> NUL \<notin> set (mq_up mq) \<and> length (mq_up mq) \<le> 80"

definition posted :: "mqtt_env \<Rightarrow> (string \<Rightarrow> segment \<Rightarrow> message \<Rightarrow> bool) \<Rightarrow> sc_mqtt \<Rightarrow> segment list \<Rightarrow> sc_mqtt \<Rightarrow> bool" where
  "posted env becomes mq segs mq' \<longleftrightarrow> mq_up mq' = mq_up mq \<and> mq_connected mq' = mq_connected mq \<and>
     (\<exists>ms ns. list_all2 (becomes (mq_up mq)) segs ms \<and> sent mq' = sent mq @ ns \<and> subseq ns ms \<and>
        (link_takes env mq \<longrightarrow> ns = ms))"

lemma posted_refl: "posted env b mq [] mq"
  by (simp add: posted_def)

lemma posted_trans:
  assumes "posted env b mq xs mq1" and "posted env b mq1 ys mq2"
  shows "posted env b mq (xs @ ys) mq2"
proof -
  have l: "link_takes env mq1 = link_takes env mq" using assms(1) by (simp add: posted_def link_takes_def)
  from assms(1) obtain ms ns where 1: "list_all2 (b (mq_up mq)) xs ms" "sent mq1 = sent mq @ ns" "subseq ns ms"
    "link_takes env mq \<longrightarrow> ns = ms" "mq_up mq1 = mq_up mq" "mq_connected mq1 = mq_connected mq"
    by (auto simp: posted_def)
  from assms(2) 1(5) obtain ms' ns' where 2: "list_all2 (b (mq_up mq)) ys ms'" "sent mq2 = sent mq1 @ ns'" "subseq ns' ms'"
    "link_takes env mq1 \<longrightarrow> ns' = ms'" "mq_up mq2 = mq_up mq1" "mq_connected mq2 = mq_connected mq1"
    by (auto simp: posted_def)
  show ?thesis
    unfolding posted_def
    using 1 2 l by (intro conjI exI [of _ "ms @ ms'"] exI [of _ "ns @ ns'"]) (auto intro: list_all2_appendI list_emb_append_mono)
qed

lemma concat_empty: "\<forall>y \<in> set ys. y \<noteq> [] \<Longrightarrow> concat ys = [] \<Longrightarrow> ys = []"
  by (cases ys) auto

text \<open>
  A packer takes items one by one into a buffer of \<open>room\<close> bytes, at most \<open>cap\<close> of them pending.
\<close>

locale packer =
  fixes ok :: bool
    and room cap :: nat
    and fits :: "string \<Rightarrow> bool"
    and posts :: "'s \<Rightarrow> segment list \<Rightarrow> 's \<Rightarrow> bool"
    and pack :: "string \<Rightarrow> string \<times> nat \<times> 's \<Rightarrow> string \<times> nat \<times> 's"
    and flush :: "string \<Rightarrow> nat \<Rightarrow> 's \<Rightarrow> string \<times> 's"
  assumes law_fits: "fits x \<Longrightarrow> x \<noteq> []"
    and law_cap: "cap \<le> room"
    and law_flush: "ok \<Longrightarrow> length buf = room \<Longrightarrow> len \<le> cap \<Longrightarrow> take len buf = concat pending \<Longrightarrow>
      flush buf len s = (buf', s') \<Longrightarrow> length buf' = room \<and> posts s [Batch pending] s'"
    and law_none: "posts s [] s"
    and law_more: "posts s xs s1 \<Longrightarrow> posts s1 ys s2 \<Longrightarrow> posts s (xs @ ys) s2"
    and law_pack: "ok \<Longrightarrow> length buf = room \<Longrightarrow> len \<le> cap \<Longrightarrow> take len buf = concat pending \<Longrightarrow> \<forall>y \<in> set (pending @ [x]). fits y \<Longrightarrow>
      \<exists>buf' len' s' segs pending'. pack x (buf, len, s) = (buf', len', s') \<and> length buf' = room \<and> len' \<le> cap \<and>
        take len' buf' = concat pending' \<and> posts s segs s' \<and> concat (map seg_of segs) @ pending' = pending @ [x] \<and>
        (\<forall>seg \<in> set segs. seg_ok cap seg)"
begin

lemma packs:
  assumes ok and "length buf = room" "len \<le> cap" "take len buf = concat pending" "\<forall>x \<in> set (pending @ xs). fits x"
  shows "\<exists>buf' len' s' segs pending'. fold pack xs (buf, len, s) = (buf', len', s') \<and> length buf' = room \<and> len' \<le> cap \<and>
        take len' buf' = concat pending' \<and> posts s segs s' \<and> concat (map seg_of segs) @ pending' = pending @ xs \<and>
        (\<forall>seg \<in> set segs. seg_ok cap seg)"
  using assms(2-)
proof (induction xs arbitrary: buf len s pending)
  case Nil
  then show ?case using law_none by (intro exI [of _ buf] exI [of _ len] exI [of _ s] exI [of _ "[]"] exI [of _ pending]) simp
next
  case (Cons x xs)
  from law_pack [OF assms(1) Cons.prems(1-3), of x s] Cons.prems(4) obtain buf1 len1 s1 segs1 pending1 where
    1: "pack x (buf, len, s) = (buf1, len1, s1)" "length buf1 = room" "len1 \<le> cap" "take len1 buf1 = concat pending1"
      "posts s segs1 s1" "concat (map seg_of segs1) @ pending1 = pending @ [x]" "\<forall>seg \<in> set segs1. seg_ok cap seg"
    by auto
  have "\<forall>y \<in> set (pending1 @ xs). fits y"
    using Cons.prems(4) arg_cong [OF 1(6), of set] by auto
  from Cons.IH [OF 1(2-4) this, of s1] obtain buf2 len2 s2 segs2 pending2 where
    2: "fold pack xs (buf1, len1, s1) = (buf2, len2, s2)" "length buf2 = room" "len2 \<le> cap"
      "take len2 buf2 = concat pending2" "posts s1 segs2 s2" "concat (map seg_of segs2) @ pending2 = pending1 @ xs"
      "\<forall>seg \<in> set segs2. seg_ok cap seg"
    by auto
  have "concat (map seg_of (segs1 @ segs2)) @ pending2 = pending @ x # xs"
    using 1(6) 2(6) by (metis append.assoc append_Cons append_Nil concat_append map_append)
  with 1 2 law_more [OF 1(5) 2(5)] show ?case
    by (intro exI [of _ buf2] exI [of _ len2] exI [of _ s2] exI [of _ "segs1 @ segs2"] exI [of _ pending2]) auto
qed

text \<open>With what is left flushed at the end, everything is posted.\<close>

lemma packs_all:
  assumes ok and "length buf = room" "len \<le> cap" "take len buf = concat pending" "\<forall>x \<in> set (pending @ xs). fits x"
    and "fold pack xs (buf, len, s) = (buf1, len1, s1)"
    and "(if len1 > 0 then flush buf1 len1 s1 else (buf1, s1)) = (buf2, s2)"
  shows "length buf2 = room \<and> (\<exists>segs. concat (map seg_of segs) = pending @ xs \<and> (\<forall>seg \<in> set segs. seg_ok cap seg) \<and> posts s segs s2)"
proof -
  from packs [OF assms(1-5), of s] assms(6) obtain segs pending' where
    p: "length buf1 = room" "len1 \<le> cap" "take len1 buf1 = concat pending'" "posts s segs s1"
      "concat (map seg_of segs) @ pending' = pending @ xs" "\<forall>seg \<in> set segs. seg_ok cap seg"
    by auto
  have len: "len1 = length (concat pending')"
    using p(1-3) law_cap by (metis le_trans length_take min.absorb2)
  show ?thesis
  proof (cases "len1 > 0")
    case True
    with assms(7) law_flush [OF assms(1) p(1-3)] have "length buf2 = room" "posts s1 [Batch pending'] s2" by auto
    with True len p(2,5,6) law_more [OF p(4)] show ?thesis
      by (intro conjI exI [of _ "segs @ [Batch pending']"]) auto
  next
    case False
    have "set pending' \<subseteq> set (pending @ xs)" using p(5) by (metis set_append Un_upper2)
    then have "\<forall>y \<in> set pending'. y \<noteq> []" using assms(5) law_fits by blast
    moreover have "concat pending' = []" using False len by simp
    ultimately have "pending' = []" by (rule concat_empty)
    with False p assms(7) show ?thesis by auto
  qed
qed

end

subsection \<open>Binary batches\<close>

fun bin_becomes :: "kconfig \<Rightarrow> on9log_api \<Rightarrow> u32 \<Rightarrow> string \<Rightarrow> segment \<Rightarrow> message \<Rightarrow> bool" where
  "bin_becomes cfg oa boot_id up (Batch xs) m \<longleftrightarrow>
     (\<exists>t. m = (up @ ''log/bin'', concat xs @ oa_time_sync oa t boot_id, if k_log_qos1 cfg then 1 else 0))"
| "bin_becomes cfg oa boot_id up (Alone x) m \<longleftrightarrow> m = (up @ ''log/bin'', x, 0)"

fun text_becomes :: "kconfig \<Rightarrow> string \<Rightarrow> segment \<Rightarrow> message \<Rightarrow> bool" where
  "text_becomes cfg up (Batch xs) m \<longleftrightarrow> m = (up @ ''log/text'', concat xs, if k_log_qos1 cfg then 1 else 0)"
| "text_becomes cfg up (Alone x) m \<longleftrightarrow> False"

lemma publish_posts:
  assumes "publish env t data qos (Some p) mq = (e, mq')" and "becomes (mq_up mq) seg (mq_up mq @ t, data, qos)"
    and "length t < 16" and "NUL \<notin> set t"
  shows "posted env becomes mq [seg] mq'"
proof -
  from assms(3,4) have "link_takes env mq \<Longrightarrow> e = ESP_OK"
    using assms(1) publish_takes [of env mq t data qos p] by (auto simp: link_takes_def)
  moreover obtain ns where "sent mq' = sent mq @ ns" "ns = [] \<or> ns = [(mq_up mq @ t, data, qos)]"
      "e = ESP_OK \<longrightarrow> ns = [(mq_up mq @ t, data, qos)]"
    using publish_sent(1,2) [OF assms(1)] by (metis append_Nil2)
  ultimately show ?thesis
    unfolding posted_def using publish_sent(3,4) [OF assms(1)] assms(2)
    by (intro conjI exI [of _ "[(mq_up mq @ t, data, qos)]"] exI [of _ ns]) auto
qed

lemma publish_batch_posts:
  assumes "becomes (mq_up mq) seg (mq_up mq @ t, take len batch, if k_log_qos1 cfg then 1 else 0)"
    and "length t < 16" and "NUL \<notin> set t"
  shows "posted env becomes mq [seg] (publish_batch cfg env t ct batch len mq)"
  unfolding publish_batch_def
  by (rule publish_posts [OF prod.collapse [symmetric]]) (use assms in simp_all)

lemma close_batch_posts:
  assumes "close_batch cfg oa env boot_id batch len mq = (batch', mq')" and "length batch = k_log_batch_size cfg"
    and "len \<le> k_log_batch_size cfg - TIME_SYNC_LEN" and "take len batch = concat pending"
    and "kconfig_ok cfg" and "on9log_ok oa"
  shows "length batch' = k_log_batch_size cfg \<and> posted env (bin_becomes cfg oa boot_id) mq [Batch pending] mq'"
proof -
  let ?sync = "oa_time_sync oa (mq_calls mq) boot_id"
  have "length ?sync \<le> TIME_SYNC_LEN" using assms(6) by (simp add: on9log_ok_def)
  then have fit: "len + length ?sync \<le> length batch"
    using assms(2,3,5) by (auto simp: kconfig_ok_def TIME_SYNC_LEN_def)
  have "bin_becomes cfg oa boot_id (mq_up mq) (Batch pending)
      (mq_up mq @ ''log/bin'', take (len + length ?sync) (memcpy batch len ?sync), if k_log_qos1 cfg then 1 else 0)"
    using take_memcpy [of len batch ?sync] fit assms(4) by auto
  from publish_batch_posts [where becomes = "bin_becomes cfg oa boot_id" and seg = "Batch pending", OF this]
  show ?thesis
    using assms(1) fit assms(2) by (auto simp: close_batch_def Let_def)
qed

lemma take_packet_alone:
  assumes ok: "kconfig_ok cfg" and batch: "length batch = k_log_batch_size cfg" "len \<le> k_log_batch_size cfg - TIME_SYNC_LEN"
      "take len batch = concat pending" and fits: "\<forall>y \<in> set (pending @ [x]). y \<noteq> []"
    and stay: "\<not> (len + length x > k_log_batch_size cfg - TIME_SYNC_LEN \<and> len > 0)"
  shows "\<exists>batch' len' mq' segs pending'. take_packet cfg oa env boot_id x (batch, len, mq) = (batch', len', mq') \<and>
    length batch' = k_log_batch_size cfg \<and> len' \<le> k_log_batch_size cfg - TIME_SYNC_LEN \<and>
    take len' batch' = concat pending' \<and> posted env (bin_becomes cfg oa boot_id) mq segs mq' \<and>
    concat (map seg_of segs) @ pending' = pending @ [x] \<and>
    (\<forall>seg \<in> set segs. seg_ok (k_log_batch_size cfg - TIME_SYNC_LEN) seg)"
proof (cases "length x > k_log_batch_size cfg - TIME_SYNC_LEN")
  case True
  then have "len = 0" using stay by simp
  then have "pending = []" using batch(3) fits by (intro concat_empty) auto
  have "posted env (bin_becomes cfg oa boot_id) mq [Alone x] (snd (publish env ''log/bin'' x 0 (Some bin_props) mq))"
    by (rule publish_posts [OF prod.collapse [symmetric]]) simp_all
  with True \<open>len = 0\<close> \<open>pending = []\<close> batch(1) show ?thesis
    by (intro exI [of _ batch] exI [of _ 0] exI [of _ "snd (publish env ''log/bin'' x 0 (Some bin_props) mq)"]
        exI [of _ "[Alone x]"] exI [of _ "[]"]) (simp add: take_packet_def)
next
  case False
  then have fit: "len + length x \<le> k_log_batch_size cfg - TIME_SYNC_LEN" using stay by (cases "len > 0") auto
  then have "len + length x \<le> length batch" using batch(1) by simp
  with take_memcpy [of len batch x] batch(3) have "take (len + length x) (memcpy batch len x) = concat (pending @ [x])" by simp
  with False fit stay batch(1) \<open>len + length x \<le> length batch\<close> show ?thesis
    by (intro exI [of _ "memcpy batch len x"] exI [of _ "len + length x"] exI [of _ mq]
        exI [of _ "[]"] exI [of _ "pending @ [x]"]) (simp add: take_packet_def posted_refl)
qed

lemma take_packet_packs:
  assumes ok: "kconfig_ok cfg \<and> on9log_ok oa" and batch: "length batch = k_log_batch_size cfg"
      "len \<le> k_log_batch_size cfg - TIME_SYNC_LEN" "take len batch = concat pending"
    and fits: "\<forall>y \<in> set (pending @ [x]). y \<noteq> []"
  shows "\<exists>batch' len' mq' segs pending'. take_packet cfg oa env boot_id x (batch, len, mq) = (batch', len', mq') \<and>
    length batch' = k_log_batch_size cfg \<and> len' \<le> k_log_batch_size cfg - TIME_SYNC_LEN \<and>
    take len' batch' = concat pending' \<and> posted env (bin_becomes cfg oa boot_id) mq segs mq' \<and>
    concat (map seg_of segs) @ pending' = pending @ [x] \<and>
    (\<forall>seg \<in> set segs. seg_ok (k_log_batch_size cfg - TIME_SYNC_LEN) seg)"
proof (cases "len + length x > k_log_batch_size cfg - TIME_SYNC_LEN \<and> len > 0")
  case False
  then show ?thesis using take_packet_alone [OF conjunct1 [OF ok] batch fits] by blast
next
  case True
  obtain batch1 mq1 where c: "close_batch cfg oa env boot_id batch len mq = (batch1, mq1)" by fastforce
  from close_batch_posts [OF c batch] ok have 1: "length batch1 = k_log_batch_size cfg"
    "posted env (bin_becomes cfg oa boot_id) mq [Batch pending] mq1" by simp_all
  have "len = length (concat pending)"
    using batch by (metis diff_le_self le_trans length_take min.absorb2)
  then have s1: "seg_ok (k_log_batch_size cfg - TIME_SYNC_LEN) (Batch pending)" using True batch(2) by simp
  from take_packet_alone [OF conjunct1 [OF ok] 1(1), of 0 "[]" x oa env boot_id mq1] fits
  obtain batch' len' mq' segs pending' where 2: "take_packet cfg oa env boot_id x (batch1, 0, mq1) = (batch', len', mq')"
    "length batch' = k_log_batch_size cfg" "len' \<le> k_log_batch_size cfg - TIME_SYNC_LEN"
    "take len' batch' = concat pending'" "posted env (bin_becomes cfg oa boot_id) mq1 segs mq'"
    "concat (map seg_of segs) @ pending' = [x]" "\<forall>seg \<in> set segs. seg_ok (k_log_batch_size cfg - TIME_SYNC_LEN) seg"
    by auto
  have "take_packet cfg oa env boot_id x (batch, len, mq) = (batch', len', mq')"
    using 2(1) c True by (simp add: take_packet_def)
  with 2 s1 posted_trans [OF 1(2) 2(5)] show ?thesis
    by (intro exI [of _ batch'] exI [of _ len'] exI [of _ mq'] exI [of _ "Batch pending # segs"] exI [of _ pending']) simp
qed

interpretation bin_packer: packer "kconfig_ok cfg \<and> on9log_ok oa" "k_log_batch_size cfg"
    "k_log_batch_size cfg - TIME_SYNC_LEN" "\<lambda>x. x \<noteq> []" "posted env (bin_becomes cfg oa boot_id)"
    "take_packet cfg oa env boot_id" "close_batch cfg oa env boot_id"
  for cfg oa env boot_id
proof (unfold_locales, assumption, simp)
  fix batch len pending s batch' s'
  assume "kconfig_ok cfg \<and> on9log_ok oa" "length batch = k_log_batch_size cfg" "len \<le> k_log_batch_size cfg - TIME_SYNC_LEN"
    "take len batch = concat pending" "close_batch cfg oa env boot_id batch len s = (batch', s')"
  then show "length batch' = k_log_batch_size cfg \<and> posted env (bin_becomes cfg oa boot_id) s [Batch pending] s'"
    using close_batch_posts by blast
qed (fact posted_refl posted_trans take_packet_packs)+

subsection \<open>Text batches\<close>

lemma take_line_packs:
  assumes ok: "kconfig_ok cfg" and batch: "length batch = k_log_batch_size cfg" "len \<le> k_log_batch_size cfg"
      "take len batch = concat pending" and fits: "\<forall>y \<in> set (pending @ [x]). y \<noteq> [] \<and> length y < k_log_batch_size cfg"
  shows "\<exists>batch' len' mq' segs pending'. take_line cfg env x (batch, len, mq) = (batch', len', mq') \<and>
    length batch' = k_log_batch_size cfg \<and> len' \<le> k_log_batch_size cfg \<and>
    take len' batch' = concat pending' \<and> posted env (text_becomes cfg) mq segs mq' \<and>
    concat (map seg_of segs) @ pending' = pending @ [x] \<and> (\<forall>seg \<in> set segs. seg_ok (k_log_batch_size cfg) seg)"
proof (cases "len + length x > k_log_batch_size cfg")
  case False
  then have fit: "len + length x \<le> length batch" using batch(1) by simp
  with take_memcpy [of len batch x] batch(3) have "take (len + length x) (memcpy batch len x) = concat (pending @ [x])" by simp
  with False fit batch(1) show ?thesis
    by (intro exI [of _ "memcpy batch len x"] exI [of _ "len + length x"] exI [of _ mq]
        exI [of _ "[]"] exI [of _ "pending @ [x]"]) (simp add: take_line_def posted_refl)
next
  case True
  let ?mq = "publish_batch cfg env ''log/text'' ''text/plain'' batch len mq"
  have x: "length x < k_log_batch_size cfg" using fits by auto
  have len: "len = length (concat pending)" using batch by (metis length_take min.absorb2)
  have "posted env (text_becomes cfg) mq [Batch pending] ?mq"
    using batch(3) by (intro publish_batch_posts) simp_all
  moreover have "take (length x) (memcpy batch 0 x) = x"
    using take_memcpy [of 0 batch x] by simp
  moreover have "take_line cfg env x (batch, len, mq) = (memcpy batch 0 x, length x, ?mq)"
    using True by (simp add: take_line_def)
  moreover have "0 < length (concat pending)" using x True len by linarith
  ultimately show ?thesis
    using x len batch(1,2)
    by (intro exI [of _ "memcpy batch 0 x"] exI [of _ "length x"] exI [of _ ?mq]
        exI [of _ "[Batch pending]"] exI [of _ "[x]"]) auto
qed

interpretation line_packer: packer "kconfig_ok cfg" "k_log_batch_size cfg" "k_log_batch_size cfg"
    "\<lambda>x. x \<noteq> [] \<and> length x < k_log_batch_size cfg" "posted env (text_becomes cfg)" "take_line cfg env"
    "\<lambda>batch len mq. (batch, publish_batch cfg env ''log/text'' ''text/plain'' batch len mq)"
  for cfg env
proof (unfold_locales, simp, simp)
  fix batch len pending s batch' s'
  assume "length batch = k_log_batch_size cfg" "take len batch = concat pending"
    "(batch, publish_batch cfg env ''log/text'' ''text/plain'' batch len s) = (batch', s')"
  then show "length batch' = k_log_batch_size cfg \<and> posted env (text_becomes cfg) s [Batch pending] s'"
    by (auto intro!: publish_batch_posts)
qed (fact posted_refl posted_trans take_line_packs)+

subsection \<open>How an upload starts\<close>

text \<open>What an upload starts its first batch with: the count of the dropped entries, if there are any.\<close>

definition dropped_packets :: "on9log_api \<Rightarrow> int \<Rightarrow> u32 \<Rightarrow> string list" where
  "dropped_packets oa now n = (if n > 0 then [oa_dropped_header oa (word_of_int (now div 1000)) @ le32 n] else [])"

definition dropped_lines :: "int \<Rightarrow> u32 \<Rightarrow> string list" where
  "dropped_lines now n = (if n > 0 then [dropped_line now n] else [])"

lemma length_le32 [simp]: "length (le32 x) = 4"
  by (simp add: le32_def)

lemma le32_not_Nil [simp]: "le32 x \<noteq> []"
  using length_le32 [of x] by (metis list.size(3) zero_neq_numeral)

lemma bin_start:
  assumes "kconfig_ok cfg" and "on9log_ok oa" and "length batch = k_log_batch_size cfg"
    and "(if n > 0 then (memcpy (memcpy batch 0 (oa_dropped_header oa t)) (length (oa_dropped_header oa t)) (le32 n),
      length (oa_dropped_header oa t) + 4) else (batch, 0)) = (b, l)" and "t = word_of_int (now div 1000)"
  shows "length b = k_log_batch_size cfg" and "l \<le> k_log_batch_size cfg - TIME_SYNC_LEN"
    and "take l b = concat (dropped_packets oa now n)"
proof -
  let ?hdr = "oa_dropped_header oa t" and ?b = "memcpy batch 0 (oa_dropped_header oa t)"
  have hdr: "length ?hdr \<le> 64" and cap: "68 \<le> k_log_batch_size cfg - TIME_SYNC_LEN"
    using assms(1,2) by (auto simp: on9log_ok_def kconfig_ok_def TIME_SYNC_LEN_def)
  then have l: "length ?b = k_log_batch_size cfg" using assms(3) by simp
  have "take (length ?hdr + length (le32 n)) (memcpy ?b (length ?hdr) (le32 n)) = take (length ?hdr) ?b @ le32 n"
    using hdr cap l by (intro take_memcpy) simp
  then have "take (length ?hdr + 4) (memcpy ?b (length ?hdr) (le32 n)) = ?hdr @ le32 n"
    using take_memcpy [of 0 batch ?hdr] by simp
  then show "length b = k_log_batch_size cfg" "l \<le> k_log_batch_size cfg - TIME_SYNC_LEN"
      "take l b = concat (dropped_packets oa now n)"
    using l hdr cap assms(3-5) by (auto simp: dropped_packets_def split: if_splits)
qed

lemma length_dropped_line:
  assumes "0 \<le> now" and "now < 2 ^ 63"
  shows "length (dropped_line now n) \<le> 80"
proof -
  have "length (dec_text (now div 1000)) \<le> 20" "length (dec_text (uint n)) \<le> 20"
    using assms uint_lt2p [of n] order_trans [OF _ unsigned_greater_eq [of n], of "- 9223372036854775808 :: int"]
    by (auto intro!: length_dec_text64)
  then show ?thesis by (simp add: dropped_line_def)
qed

lemma text_start:
  assumes "kconfig_ok cfg" and "0 \<le> now" and "now < 2 ^ 63" and "length batch = k_log_batch_size cfg"
    and "(if n > 0 then (memcpy batch 0 (snprintf (k_log_batch_size cfg) (dropped_line now n) @ [NUL]), length (dropped_line now n))
      else (batch, 0)) = (b, l)"
  shows "length b = k_log_batch_size cfg" and "l \<le> k_log_batch_size cfg" and "take l b = concat (dropped_lines now n)"
proof -
  have l: "length (dropped_line now n) \<le> 80" "512 \<le> k_log_batch_size cfg"
    using assms(1) length_dropped_line [OF assms(2,3)] by (auto simp: kconfig_ok_def)
  then have "snprintf (k_log_batch_size cfg) (dropped_line now n) = dropped_line now n" by (simp add: snprintf_def)
  then show "length b = k_log_batch_size cfg" "l \<le> k_log_batch_size cfg" "take l b = concat (dropped_lines now n)"
    using l assms(4,5) by (auto simp: dropped_lines_def memcpy_def split: if_splits)
qed

subsection \<open>What the sink and the hook store\<close>

definition storing :: "string \<Rightarrow> nat \<Rightarrow> 'r log_uplink \<Rightarrow> bool" where
  "storing packet n lu \<longleftrightarrow> lu_item_len lu = n \<and> lu_item_pos lu = min (length packet) n \<and>
     (\<exists>item. lu_item lu = Some item \<and> length item = n \<and> take (lu_item_pos lu) item = take n packet)"

lemma sink_payload_storing:
  assumes "storing packet n lu"
  shows "storing (packet @ payload) n (sink_payload payload lu) \<and>
    lu_bin_ring (sink_payload payload lu) = lu_bin_ring lu \<and>
    lu_bin_dropped (sink_payload payload lu) = lu_bin_dropped lu"
proof -
  obtain item where i: "lu_item_len lu = n" "lu_item_pos lu = min (length packet) n" "lu_item lu = Some item"
    "length item = n" "take (lu_item_pos lu) item = take n packet"
    using assms by (auto simp: storing_def)
  define data where "data = take (min (length payload) (n - lu_item_pos lu)) payload"
  have p: "sink_payload payload lu = lu\<lparr>lu_item := Some (memcpy item (lu_item_pos lu) data),
      lu_item_pos := lu_item_pos lu + length data\<rparr>"
    using i by (auto simp: sink_payload_def Let_def data_def min_def)
  have pos: "lu_item_pos lu + length data = min (length (packet @ payload)) n" using i(2) by (auto simp: data_def)
  have "take n packet @ data = take n (packet @ payload)" using i(2) by (auto simp: data_def min_def)
  then have "take (lu_item_pos lu + length data) (memcpy item (lu_item_pos lu) data) = take n (packet @ payload)"
    using i take_memcpy [of "lu_item_pos lu" item data] by simp
  with p pos i show ?thesis by (auto simp: storing_def)
qed

lemma sink_payloads_storing:
  "storing packet n lu \<Longrightarrow> storing (packet @ concat ps) n (fold sink_payload ps lu) \<and>
    lu_bin_ring (fold sink_payload ps lu) = lu_bin_ring lu \<and> lu_bin_dropped (fold sink_payload ps lu) = lu_bin_dropped lu"
proof (induction ps arbitrary: packet lu)
  case (Cons p ps)
  from sink_payload_storing [OF Cons.prems, of p] Cons.IH [of "packet @ p" "sink_payload p lu"] show ?case by simp
qed simp

lemma sink_idle: "lu_item lu = None \<Longrightarrow> fold sink_payload ps lu = lu"
  by (induction ps) (simp_all add: sink_payload_def)

subsection \<open>Properties\<close>

text \<open>
  C15: Binary logs are uploaded in order, in batches that fit. An upload always ends, leaves the ring
  empty and the count of dropped packets zero, and never writes outside the batch buffer. The report
  of dropped packets and the packets of the ring, in their order and each exactly once, are split into
  segments: batches of at most \<open>LOG_BATCH_SIZE - TIME_SYNC_LEN\<close> bytes, published with a closing
  TIME_SYNC, and packets larger than that, published on their own. While the connection takes messages
  all of them are sent.
\<close>

theorem bin_logs_uploaded:
  assumes "ring_ok api items" and "kconfig_ok cfg" and "on9log_ok oa"
    and "length (lu_batch lu) = k_log_batch_size cfg" and "[] \<notin> set (items (lu_bin_ring lu))"
  shows "\<exists>lu' mq' segs. upload_bin cfg oa api env now (lu, mq) = Some (lu', mq') \<and>
    items (lu_bin_ring lu') = [] \<and> lu_bin_dropped lu' = 0 \<and> length (lu_batch lu') = k_log_batch_size cfg \<and>
    concat (map seg_of segs) = dropped_packets oa now (lu_bin_dropped lu) @ items (lu_bin_ring lu) \<and>
    (\<forall>seg \<in> set segs. seg_ok (k_log_batch_size cfg - TIME_SYNC_LEN) seg) \<and>
    posted env (bin_becomes cfg oa (lu_boot_id lu)) mq segs mq'"
proof -
  let ?hdr = "oa_dropped_header oa (word_of_int (now div 1000))" and ?boot = "lu_boot_id lu"
  obtain b0 l0 where s0: "(if lu_bin_dropped lu > 0
      then (memcpy (memcpy (lu_batch lu) 0 ?hdr) (length ?hdr) (le32 (lu_bin_dropped lu)), length ?hdr + 4)
      else (lu_batch lu, 0)) = (b0, l0)" by fastforce
  note start = bin_start [OF assms(2-4) s0 refl]
  obtain b l mq1 where f: "fold (take_packet cfg oa env ?boot) (items (lu_bin_ring lu)) (b0, l0, mq) = (b, l, mq1)"
    by (cases "fold (take_packet cfg oa env ?boot) (items (lu_bin_ring lu)) (b0, l0, mq)")
  obtain b2 mq2 where c: "(if l > 0 then close_batch cfg oa env ?boot b l mq1 else (b, mq1)) = (b2, mq2)" by fastforce
  have "\<forall>y \<in> set (dropped_packets oa now (lu_bin_dropped lu) @ items (lu_bin_ring lu)). y \<noteq> []"
    using assms(5) by (auto simp: dropped_packets_def)
  with bin_packer.packs_all [OF _ start(1-3) _ f c] assms(2,3) obtain segs where
    "length b2 = k_log_batch_size cfg" "posted env (bin_becomes cfg oa ?boot) mq segs mq2"
    "concat (map seg_of segs) = dropped_packets oa now (lu_bin_dropped lu) @ items (lu_bin_ring lu)"
    "\<forall>seg \<in> set segs. seg_ok (k_log_batch_size cfg - TIME_SYNC_LEN) seg" by auto
  moreover from bin.drains [OF assms(1), of cfg oa env ?boot "lu_bin_ring lu" "(b0, l0, mq)"] f obtain r' where
    d: "bin_loop cfg oa api env ?boot (lu_bin_ring lu) (b0, l0, mq) = Some (r', b, l, mq1)" "items r' = []" by auto
  moreover have "upload_bin cfg oa api env now (lu, mq) =
      Some (lu\<lparr>lu_bin_dropped := 0, lu_bin_ring := r', lu_batch := b2\<rparr>, mq2)"
    unfolding upload_bin_def Let_def prod.case s0 d(1) option.case c ..
  ultimately show ?thesis by (intro exI conjI) auto
qed

text \<open>
  C33: Text logs are uploaded in order, in batches that fit. As for binary logs: the report of dropped
  lines and the lines of the ring, in their order and each exactly once, are split into batches of at
  most \<open>LOG_BATCH_SIZE\<close> bytes, and nothing is written outside the batch buffer.
\<close>

theorem text_logs_uploaded:
  assumes "ring_ok api items" and "kconfig_ok cfg" and "0 \<le> now" and "now < 2 ^ 63"
    and "length (lu_batch lu) = k_log_batch_size cfg"
    and "\<forall>x \<in> set (items (lu_text_ring lu)). x \<noteq> [] \<and> length x < k_log_line_max cfg"
  shows "\<exists>lu' mq' segs. upload_text cfg api env now (lu, mq) = Some (lu', mq') \<and>
    items (lu_text_ring lu') = [] \<and> lu_text_dropped lu' = 0 \<and> length (lu_batch lu') = k_log_batch_size cfg \<and>
    concat (map seg_of segs) = dropped_lines now (lu_text_dropped lu) @ items (lu_text_ring lu) \<and>
    (\<forall>seg \<in> set segs. seg_ok (k_log_batch_size cfg) seg) \<and> posted env (text_becomes cfg) mq segs mq'"
proof -
  obtain b0 l0 where s0: "(if lu_text_dropped lu > 0
      then (memcpy (lu_batch lu) 0 (snprintf (k_log_batch_size cfg) (dropped_line now (lu_text_dropped lu)) @ [NUL]),
        length (dropped_line now (lu_text_dropped lu)))
      else (lu_batch lu, 0)) = (b0, l0)" by fastforce
  note start = text_start [OF assms(2-5) s0]
  obtain b l mq1 where f: "fold (take_line cfg env) (items (lu_text_ring lu)) (b0, l0, mq) = (b, l, mq1)"
    by (cases "fold (take_line cfg env) (items (lu_text_ring lu)) (b0, l0, mq)")
  let ?flush = "\<lambda>batch len mq. (batch, publish_batch cfg env ''log/text'' ''text/plain'' batch len mq)"
  define mq2 where "mq2 = (if l > 0 then publish_batch cfg env ''log/text'' ''text/plain'' b l mq1 else mq1)"
  have c: "(if l > 0 then ?flush b l mq1 else (b, mq1)) = (b, mq2)" by (simp add: mq2_def)
  have "dropped_line now n \<noteq> []" "length (dropped_line now n) < k_log_batch_size cfg" for n
    using length_dropped_line [OF assms(3,4), of n] assms(2) by (auto simp: dropped_line_def kconfig_ok_def)
  then have "\<forall>y \<in> set (dropped_lines now (lu_text_dropped lu) @ items (lu_text_ring lu)). y \<noteq> [] \<and> length y < k_log_batch_size cfg"
    using assms(2,6) by (auto simp: dropped_lines_def kconfig_ok_def)
  with line_packer.packs_all [OF assms(2) start(1-3) _ f c] obtain segs where
    "length b = k_log_batch_size cfg" "posted env (text_becomes cfg) mq segs mq2"
    "concat (map seg_of segs) = dropped_lines now (lu_text_dropped lu) @ items (lu_text_ring lu)"
    "\<forall>seg \<in> set segs. seg_ok (k_log_batch_size cfg) seg" by auto
  moreover from lines.drains [OF assms(1), of cfg env "lu_text_ring lu" "(b0, l0, mq)"] f obtain r' where
    d: "text_loop cfg api env (lu_text_ring lu) (b0, l0, mq) = Some (r', b, l, mq1)" "items r' = []" by auto
  moreover have "upload_text cfg api env now (lu, mq) =
      Some (lu\<lparr>lu_text_dropped := 0, lu_text_ring := r', lu_batch := b\<rparr>, mq2)"
    unfolding upload_text_def Let_def prod.case s0 d(1) option.case mq2_def ..
  ultimately show ?thesis by (intro exI conjI) auto
qed

text \<open>
  C34: A log packet is stored whole or counted. From \<open>sink_start\<close> to \<open>sink_end\<close>, if \<open>xRingbufferSendAcquire\<close> gives
  room for the header and the payload it announces, they become exactly one item of the ring, of
  this length whatever length the payloads have (nothing is written outside the reservation), and
  nothing is counted; if the payloads have the announced length, the item is the packet. If the ring has
  no room, it stays as it is and the packet is counted as dropped. While binary logs are
  disabled, and for a header that is missing or of a foreign length, nothing is stored or counted.
  The lock is released in every case.
\<close>

theorem sink_stores_packet:
  assumes "ring_ok api items"
    and "lu' = sink_end api (fold sink_payload ps (sink_start oa api header lu))"
  shows "\<not> lu_locked lu' \<and> lu_item lu' = None \<and>
    (case header of
       None \<Rightarrow> lu_bin_ring lu' = lu_bin_ring lu \<and> lu_bin_dropped lu' = lu_bin_dropped lu
     | Some h \<Rightarrow>
         if length h \<noteq> oa_header_len oa \<or> \<not> lu_bin_enabled lu
         then lu_bin_ring lu' = lu_bin_ring lu \<and> lu_bin_dropped lu' = lu_bin_dropped lu
         else if ra_acquire api (length h + oa_payload_len oa h) (lu_bin_ring lu) = None
         then lu_bin_ring lu' = lu_bin_ring lu \<and> lu_bin_dropped lu' = lu_bin_dropped lu + 1
         else \<exists>item. items (lu_bin_ring lu') = items (lu_bin_ring lu) @ [item] \<and> lu_bin_dropped lu' = lu_bin_dropped lu \<and>
           length item = length h + oa_payload_len oa h \<and> prefix (take (length item) (h @ concat ps)) item \<and>
           (length (concat ps) = oa_payload_len oa h \<longrightarrow> item = h @ concat ps))"
proof -
  consider (idle) "header = None" | (skipped) h where "header = Some h" "length h \<noteq> oa_header_len oa \<or> \<not> lu_bin_enabled lu"
    | (full) h where "header = Some h" "length h = oa_header_len oa" "lu_bin_enabled lu"
        "ra_acquire api (length h + oa_payload_len oa h) (lu_bin_ring lu) = None"
    | (room) h b r where "header = Some h" "length h = oa_header_len oa" "lu_bin_enabled lu"
        "ra_acquire api (length h + oa_payload_len oa h) (lu_bin_ring lu) = Some (b, r)"
    by (metis option.exhaust surj_pair)
  then show ?thesis
  proof cases
    case idle
    then show ?thesis using assms(2) by (simp add: sink_start_def sink_idle sink_end_def)
  next
    case skipped
    then show ?thesis using assms(2) by (auto simp: sink_start_def sink_idle sink_end_def)
  next
    case full
    let ?lu = "lu\<lparr>lu_locked := True, lu_item := None, lu_bin_dropped := lu_bin_dropped lu + 1\<rparr>"
    have "sink_start oa api header lu = ?lu" using full by (simp add: sink_start_def)
    with full assms(2) show ?thesis by (simp add: sink_idle sink_end_def)
  next
    case room
    let ?n = "length h + oa_payload_len oa h"
    have acq: "\<forall>r n. case ra_acquire api n r of None \<Rightarrow> True | Some (b, r') \<Rightarrow> length b = n \<and> items r' = items r"
      and com: "\<And>r x. items (ra_complete api x r) = items r @ [x]"
      using assms(1) unfolding ring_ok_def by blast+
    from acq room(4) have r: "length b = ?n" "items r = items (lu_bin_ring lu)"
      by (auto dest!: spec [of _ "lu_bin_ring lu"] spec [of _ ?n])
    let ?lu1 = "sink_start oa api header lu"
    have s: "storing h ?n ?lu1" "lu_bin_ring ?lu1 = r" "lu_bin_dropped ?lu1 = lu_bin_dropped lu"
      using room r(1) take_memcpy [of 0 b h] by (auto simp: sink_start_def storing_def)
    let ?lu2 = "fold sink_payload ps ?lu1"
    from sink_payloads_storing [OF s(1), of ps] s(2,3) obtain item where
      i: "lu_item ?lu2 = Some item" "length item = ?n" "take (min (length (h @ concat ps)) ?n) item = take ?n (h @ concat ps)"
        "lu_bin_ring ?lu2 = r" "lu_bin_dropped ?lu2 = lu_bin_dropped lu"
      by (auto simp: storing_def)
    have "prefix (take (length item) (h @ concat ps)) item"
      using i(2,3) by (metis take_is_prefix)
    moreover have "length (concat ps) = oa_payload_len oa h \<Longrightarrow> item = h @ concat ps"
      using i(2,3) by simp
    ultimately show ?thesis
      using room assms(2) i(1,2,4,5) com r(2) by (simp add: sink_end_def)
  qed
qed

text \<open>A text line is stored, cut below the line limit and then still ended, or counted.\<close>

lemma text_line_kept:
  assumes "ring_ok api items" and "kconfig_ok cfg" and "lu_text_enabled lu" and "s \<noteq> []"
    and "lu' = text_vprintf cfg api False s lu"
  shows "(items (lu_text_ring lu') = items (lu_text_ring lu) @ [cut_line cfg s] \<and> lu_text_dropped lu' = lu_text_dropped lu \<or>
      lu_text_ring lu' = lu_text_ring lu \<and> lu_text_dropped lu' = lu_text_dropped lu + 1) \<and>
    cut_line cfg s \<noteq> [] \<and> length (cut_line cfg s) < k_log_line_max cfg \<and>
    (length s < k_log_line_max cfg \<longrightarrow> cut_line cfg s = s) \<and>
    (k_log_line_max cfg \<le> length s \<longrightarrow> last (cut_line cfg s) = CHR 0x0A)"
proof -
  have send: "\<forall>r x. case ra_send api x r of None \<Rightarrow> True | Some r' \<Rightarrow> items r' = items r @ [x]"
    using assms(1) unfolding ring_ok_def by blast
  have m: "64 \<le> k_log_line_max cfg" using assms(2) by (simp add: kconfig_ok_def)
  have "last ((take (k_log_line_max cfg - 1) s)[k_log_line_max cfg - 2 := CHR 0x0A]) = CHR 0x0A"
    if "k_log_line_max cfg \<le> length s"
  proof -
    let ?l = "(take (k_log_line_max cfg - 1) s)[k_log_line_max cfg - 2 := CHR 0x0A]"
    have "length ?l - 1 = k_log_line_max cfg - 2" "k_log_line_max cfg - 2 < length (take (k_log_line_max cfg - 1) s)"
      using that m by auto
    then show ?thesis by (metis last_conv_nth length_list_update length_greater_0_conv less_nat_zero_code neq0_conv nth_list_update_eq)
  qed
  then show ?thesis
    using send [THEN spec, THEN spec, of "lu_text_ring lu" "cut_line cfg s"] assms(3-5) m
    by (auto simp: text_vprintf_def cut_line_def Let_def split: option.splits)
qed

subsection \<open>Samples\<close>

text \<open>A ring that is a list; an item that is being written is not in it yet.\<close>

definition list_ring :: "string list ring_api" where
  "list_ring = \<lparr>ra_send = (\<lambda>x r. if length r < 8 then Some (r @ [x]) else None),
     ra_acquire = (\<lambda>n r. if length r < 8 then Some (replicate n NUL, r) else None),
     ra_complete = (\<lambda>x r. r @ [x]), ra_receive = (\<lambda>r. case r of [] \<Rightarrow> None | x # xs \<Rightarrow> Some (x, xs)),
     ra_return = (\<lambda>r. r)\<rparr>"

lemma list_ring_ok: "ring_ok list_ring (\<lambda>r. r)"
  by (simp add: ring_ok_def list_ring_def split: list.split)

definition sample_on9log :: on9log_api where
  "sample_on9log = \<lparr>oa_header_len = 2, oa_payload_len = (\<lambda>h. byte (h ! 1)), oa_dropped_header = (\<lambda>t. ''D'' @ [CHR 0x04]),
     oa_time_sync = (\<lambda>t b. ''S'')\<rparr>"

lemma sample_on9log_ok: "on9log_ok sample_on9log"
  by (simp add: on9log_ok_def sample_on9log_def TIME_SYNC_LEN_def)

definition sample_log :: "string list \<Rightarrow> string list \<Rightarrow> string list log_uplink" where
  "sample_log bin text_lines = snd (log_init kconfig_default True True True 7 bin text_lines (replicate 2048 NUL))"

lemma sample_log_state:
  "lu_bin_ring (sample_log b t) = b" "lu_text_ring (sample_log b t) = t" "lu_bin_enabled (sample_log b t)"
  "lu_bin_dropped (sample_log b t) = 0" "lu_text_dropped (sample_log b t) = 0"
  "length (lu_batch (sample_log b t)) = k_log_batch_size kconfig_default" "lu_boot_id (sample_log b t) = 7"
  by (simp_all add: sample_log_def log_init_def Let_def kconfig_default_def)

lemma sample_link: "link_takes env_ok ((mqtt_init ''1'')\<lparr>mq_connected := True\<rparr>)"
  by (simp add: link_takes_def env_ok_takes mqtt_init_def snprintf_def)

definition full_ring :: "string list ring_api" where
  "full_ring = list_ring\<lparr>ra_acquire := \<lambda>n r. None\<rparr>"

theorem bin_logs_uploaded_witness:
  "\<exists>lu' mq' segs. upload_bin kconfig_default sample_on9log list_ring env_ok 5000
      (sample_log [''A1'', ''B2''] [], (mqtt_init ''1'')\<lparr>mq_connected := True\<rparr>) = Some (lu', mq') \<and>
    lu_bin_ring lu' = [] \<and> concat (map seg_of segs) = [''A1'', ''B2''] \<and>
    posted env_ok (bin_becomes kconfig_default sample_on9log 7) ((mqtt_init ''1'')\<lparr>mq_connected := True\<rparr>) segs mq'"
  using bin_logs_uploaded [OF list_ring_ok kconfig_default_ok sample_on9log_ok, where lu = "sample_log [''A1'', ''B2''] []"
      and now = 5000 and env = env_ok and mq = "(mqtt_init ''1'')\<lparr>mq_connected := True\<rparr>"]
  by (auto simp: sample_log_state dropped_packets_def)

theorem text_logs_uploaded_witness:
  "\<exists>lu' mq' segs. upload_text kconfig_default list_ring env_ok 5000
      (sample_log [] [''a line''], (mqtt_init ''1'')\<lparr>mq_connected := True\<rparr>) = Some (lu', mq') \<and>
    lu_text_ring lu' = [] \<and> concat (map seg_of segs) = [''a line''] \<and>
    posted env_ok (text_becomes kconfig_default) ((mqtt_init ''1'')\<lparr>mq_connected := True\<rparr>) segs mq'"
proof -
  have "length ''a line'' < k_log_line_max kconfig_default" by (simp add: kconfig_default_def)
  with text_logs_uploaded [OF list_ring_ok kconfig_default_ok, where now = 5000 and lu = "sample_log [] [''a line'']"
      and env = env_ok and mq = "(mqtt_init ''1'')\<lparr>mq_connected := True\<rparr>"]
  show ?thesis by (auto simp: sample_log_state dropped_lines_def)
qed

text \<open>A packet stored behind another one, and the same packet when the ring is full.\<close>

theorem sink_stores_packet_witness:
  "\<exists>lu' lu2. lu' = sink_end list_ring (fold sink_payload [''x'', ''yz''] (sink_start sample_on9log list_ring
      (Some [CHR ''H'', CHR 0x03]) (sample_log [''A1''] []))) \<and>
    lu_bin_ring lu' = [''A1'', [CHR ''H'', CHR 0x03] @ ''xyz''] \<and> lu_bin_dropped lu' = 0 \<and>
    lu2 = sink_end full_ring (fold sink_payload [''x'', ''yz''] (sink_start sample_on9log full_ring
      (Some [CHR ''H'', CHR 0x03]) (sample_log [''A1''] []))) \<and>
    lu_bin_ring lu2 = [''A1''] \<and> lu_bin_dropped lu2 = 1"
proof -
  let ?h = "[CHR ''H'', CHR 0x03]"
  have h: "length ?h = oa_header_len sample_on9log" "oa_payload_len sample_on9log ?h = 3"
    by (simp_all add: sample_on9log_def)
  have room: "(ra_acquire list_ring n [''A1''] = None) = False" "ra_acquire full_ring n r = None" for n r
    by (simp_all add: list_ring_def full_ring_def)
  have "ring_ok full_ring (\<lambda>r. r)" by (simp add: ring_ok_def full_ring_def list_ring_def split: list.split)
  from sink_stores_packet [OF list_ring_ok refl, of "[''x'', ''yz'']" sample_on9log "Some ?h" "sample_log [''A1''] []"]
    sink_stores_packet [OF this refl, of "[''x'', ''yz'']" sample_on9log "Some ?h" "sample_log [''A1''] []"]
  show ?thesis by (simp add: sample_log_state room h(1) [symmetric] h(2))
qed

end
