(* ===== verification/Rpc_Call.thy ===== *)
theory Rpc_Call
  imports Rpc_Answer
begin

text \<open>
  The device's own calls to the platform: what a call publishes, which deliveries on \<open>down/res\<close>
  it takes for its answer, and what it returns; and the table of methods.
\<close>

subsection \<open>Deliveries\<close>

text \<open>One call of \<open>deliver_response\<close>: correlation data, payload bytes, offset and total length.\<close>

record delivery =
  dl_correlation :: string
  dl_data :: string
  dl_offset :: nat
  dl_total :: nat

definition deliver :: "delivery \<Rightarrow> ('q, 'w) sc_rpc \<Rightarrow> ('q, 'w) sc_rpc" where
  "deliver d = deliver_response (dl_correlation d) (dl_data d) (dl_offset d) (dl_total d)"

text \<open>A message with correlation data \<open>c\<close>, as esp-mqtt hands it over in consecutive fragments.\<close>

fun fragments :: "string \<Rightarrow> nat \<Rightarrow> nat \<Rightarrow> string list \<Rightarrow> delivery list" where
  "fragments c whole off [] = []"
| "fragments c whole off (x # xs) =
     \<lparr>dl_correlation = c, dl_data = x, dl_offset = off, dl_total = whole\<rparr> # fragments c whole (off + length x) xs"

lemma deliver_foreign: "dl_correlation d \<noteq> rp_call_correlation rp \<Longrightarrow> deliver d rp = rp"
  by (simp add: deliver_def deliver_response_def)

lemma deliver_none: "rp_call_correlation rp = [] \<Longrightarrow> deliver d rp = rp"
  by (simp add: deliver_def deliver_response_def)

lemma deliver_correlation [simp]: "rp_call_correlation (deliver d rp) = rp_call_correlation rp"
  by (simp add: deliver_def deliver_response_def Let_def)

text \<open>Where the reassembly of an answer stands: the first part of the body is in the buffer.\<close>

definition collecting :: "string \<Rightarrow> string \<Rightarrow> ('q, 'w) sc_rpc \<Rightarrow> bool" where
  "collecting c x rp \<longleftrightarrow>
     rp_call_correlation rp = c \<and> c \<noteq> [] \<and> length (rp_call_buf rp) = CALL_BUF_SIZE \<and>
     (rp_call_overflow rp \<longleftrightarrow> length x \<ge> CALL_BUF_SIZE) \<and>
     (\<not> rp_call_overflow rp \<longrightarrow> rp_call_len rp = length x \<and> take (length x) (rp_call_buf rp) = x)"

lemma collecting_step:
  assumes "collecting c x rp" and "dl_correlation d = c" and "dl_offset d = length x"
  shows "collecting c (x @ dl_data d) (deliver d rp) \<and>
    rp_signals (deliver d rp) = rp_signals rp @ (if length (x @ dl_data d) \<ge> dl_total d then [SetCall] else [])"
proof (cases "length x + length (dl_data d) < CALL_BUF_SIZE")
  case True
  then have "take (length x + length (dl_data d)) (memcpy (rp_call_buf rp) (length x) (dl_data d)) = x @ dl_data d"
    using assms(1) take_memcpy [of "length x" "rp_call_buf rp" "dl_data d"] by (simp add: collecting_def)
  with True assms show ?thesis
    by (auto simp: collecting_def deliver_def deliver_response_def Let_def)
next
  case False
  with assms show ?thesis by (auto simp: collecting_def deliver_def deliver_response_def Let_def)
qed

lemma collecting_all:
  assumes "collecting c x rp" and "List.filter (\<lambda>d. dl_correlation d = c) ds = fragments c whole (length x) chunks"
    and "length x + length (concat chunks) = whole" and "[] \<notin> set chunks"
  shows "collecting c (x @ concat chunks) (fold deliver ds rp) \<and>
    rp_signals (fold deliver ds rp) = rp_signals rp @ (if chunks = [] then [] else [SetCall])"
  using assms
proof (induction ds arbitrary: x chunks rp)
  case Nil
  then have "chunks = []" by (cases chunks) auto
  with Nil show ?case by simp
next
  case (Cons d ds)
  show ?case
  proof (cases "dl_correlation d = c")
    case False
    then have "deliver d rp = rp" using Cons.prems(1) by (intro deliver_foreign) (simp add: collecting_def)
    with Cons False show ?thesis by simp
  next
    case True
    with Cons.prems(2) obtain y ys where ch: "chunks = y # ys" by (cases chunks) auto
    with Cons.prems(2) True have d: "dl_data d = y" "dl_offset d = length x" "dl_total d = whole"
      and rest: "List.filter (\<lambda>d. dl_correlation d = c) ds = fragments c whole (length (x @ y)) ys"
      by (auto simp: add.commute)
    note step = collecting_step [OF Cons.prems(1) True d(2)]
    have ih: "collecting c ((x @ y) @ concat ys) (fold deliver ds (deliver d rp)) \<and>
        rp_signals (fold deliver ds (deliver d rp)) = rp_signals (deliver d rp) @ (if ys = [] then [] else [SetCall])"
      by (rule Cons.IH [OF _ rest]) (use step d Cons.prems(3,4) ch in auto)
    have "length (x @ y) \<ge> whole \<longleftrightarrow> ys = []"
      using Cons.prems(3,4) ch by (cases ys) auto
    with ih step d ch show ?thesis by simp
  qed
qed

subsection \<open>Correlation data\<close>

definition correlation_of :: "u32 \<Rightarrow> string" where
  "correlation_of n = CHR ''c'' # dec_text (uint n)"

lemma correlation_inject: "correlation_of m = correlation_of n \<Longrightarrow> m = n"
proof -
  assume "correlation_of m = correlation_of n"
  then have "dec_digits (nat (uint m)) = dec_digits (nat (uint n))"
    by (simp add: correlation_of_def dec_text_def)
  then have "int (nat (uint m)) = int (nat (uint n))" by (metis dec_val_digits)
  then have "uint m = uint n" by simp
  then show "m = n" by (rule word_uint_eqI)
qed

lemma correlation_fits: "snprintf 16 (correlation_of n) = correlation_of n"
proof -
  have "unat n < 10 ^ 10" using unsigned_less [of n, where 'a = nat] by simp
  then have "length (dec_digits (nat (uint n))) \<le> 10" by (intro length_dec_digits) simp_all
  then show ?thesis by (simp add: snprintf_def correlation_of_def dec_text_def)
qed

lemma call_begin_state:
  assumes "call_begin env meth params rp mq = (e, rp1, mq1)"
  shows "rp1 = rp\<lparr>rp_call_counter := rp_call_counter rp + 1,
    rp_call_correlation := correlation_of (rp_call_counter rp + 1), rp_call_len := 0,
    rp_call_overflow := False, rp_signals := rp_signals rp @ [ClearCall]\<rparr>"
  using assms correlation_fits [of "rp_call_counter rp + 1"]
  by (simp add: call_begin_def correlation_of_def Let_def split: prod.splits)

lemma call_begin_collecting:
  "call_begin env meth params rp mq = (e, rp1, mq1) \<Longrightarrow> length (rp_call_buf rp) = CALL_BUF_SIZE \<Longrightarrow>
    collecting (correlation_of (rp_call_counter rp + 1)) [] rp1"
  by (drule call_begin_state) (simp add: collecting_def correlation_of_def CALL_BUF_SIZE_def)

text \<open>What \<open>call\<close> returns for a complete answer.\<close>

lemma call_end_object:
  assumes "collecting c (render (JObj ms)) rp" and "json_size (JObj ms) \<le> rd_max_tokens doc"
    and "length (render (JObj ms)) < CALL_BUF_SIZE"
  shows "\<exists>doc'. node doc' 0 (JObj ms) \<and>
    call_end ESP_OK True doc rp =
     (if map_of ms ''ok'' = Some (JBool True)
      then (ESP_OK, doc', Some (find doc' 0 ''result''), rp\<lparr>rp_call_correlation := []\<rparr>)
      else (ESP_FAIL, doc', None, rp\<lparr>rp_call_correlation := []\<rparr>))"
proof -
  from reader_parse_render [OF assms(2)] obtain doc' where
    parse: "reader_parse (render (JObj ms)) doc = (ESP_OK, doc')" and root: "node doc' 0 (JObj ms)" by blast
  have "plain_key ''ok''" by (simp add: plain_key_def escape_char_def)
  from reader.law_flag [OF root this]
  have "get_bool doc' 0 ''ok'' = Some True \<longleftrightarrow> map_of ms ''ok'' = Some (JBool True)"
    by (simp add: json_bool_def json_member_def split: option.split json.split)
  with assms parse root show ?thesis
    by (intro exI [of _ doc']) (simp add: call_end_def collecting_def Let_def del: render.simps)
qed

subsection \<open>The table of methods\<close>

text \<open>A sequence of registrations that stops at the first error, \<open>ret = ret ?: add_method(...)\<close>.\<close>

fun add_methods :: "(string \<times> 'w rpc_handler) list \<Rightarrow> ('q, 'w) sc_rpc \<Rightarrow> esp_err \<times> ('q, 'w) sc_rpc" where
  "add_methods [] rp = (ESP_OK, rp)"
| "add_methods ((n, h) # regs) rp =
     (let (ret, rp) = add_method (Some n) (Some h) rp in
      if ret \<noteq> ESP_OK then (ret, rp) else add_methods regs rp)"

lemma add_methods_puts:
  "names_table.puts regs (rp_methods rp) = Some ms \<Longrightarrow> add_methods regs rp = (ESP_OK, rp\<lparr>rp_methods := ms\<rparr>)"
proof (induction regs arbitrary: rp)
  case (Cons r regs)
  obtain n h where r: "r = (n, h)" by (cases r)
  from Cons.prems r obtain ms1 where "put_entry n h (rp_methods rp) = Some ms1" "names_table.puts regs ms1 = Some ms"
    by (auto split: option.splits)
  with Cons.IH [of "rp\<lparr>rp_methods := ms1\<rparr>"] r show ?case by (simp add: add_method_def)
qed simp

subsection \<open>Properties\<close>

text \<open>
  C28: A call sends its request. While the broker takes what is published and the topic fits,
  \<open>call\<close> publishes the parameters once, at QoS 1, on \<open>up/req/<method>\<close> with the dots of the method
  as topic levels; the message carries the call's correlation data and asks for the answer on
  \<open>down/res\<close>.
\<close>

theorem call_request_published:
  assumes "env_takes env" and "mq_connected mq" and "NUL \<notin> set (mq_up mq)" and "NUL \<notin> set meth"
    and "length meth < 60" and "length (mq_up mq) < 32"
    and "call_begin env meth params rp mq = (e, rp1, mq1)"
  shows "e = ESP_OK \<and> mq1 = mq\<lparr>mq_calls := mq_calls mq @
    [TakeLock,
     SetProps \<lparr>pp_content_type = Some ''application/json'',
       pp_correlation = correlation_of (rp_call_counter rp + 1),
       pp_response_topic = Some (take 47 (mq_down mq @ ''res''))\<rparr>,
     Publish (mq_up mq @ ''req/'' @ map (\<lambda>c. if c = CHR ''.'' then CHR ''/'' else c) meth) params 1,
     GiveLock]\<rparr>"
proof -
  let ?meth = "map (\<lambda>c. if c = CHR ''.'' then CHR ''/'' else c) meth"
  have topic: "call_topic meth = ''req/'' @ ?meth"
    using assms(5) by (simp add: call_topic_def snprintf_def)
  have "NUL \<notin> set (mq_up mq @ ''req/'' @ ?meth)" using assms(3,4) by auto
  from publish_topic_takes [OF assms(1,2) this assms(3)] topic assms(5-7)
    correlation_fits [of "rp_call_counter rp + 1"]
  show ?thesis
    by (auto simp: call_begin_def publish_def CONTENT_TYPE_def correlation_of_def snprintf_def Let_def)
qed

theorem call_request_published_witness:
  "\<exists>rp1 mq1. call_begin env_ok ''ota.check'' ''{}'' ping_rpc online = (ESP_OK, rp1, mq1) \<and>
    sent mq1 = [(''d/1/up/req/ota/check'', ''{}'', 1)]"
proof -
  obtain e rp1 mq1 where c: "call_begin env_ok ''ota.check'' ''{}'' ping_rpc online = (e, rp1, mq1)"
    by (metis prod_cases3)
  from call_request_published [OF env_ok_takes _ _ _ _ _ c] online_facts(3) c show ?thesis
    by (simp add: sent_def List.map_filter_def)
qed

text \<open>
  C10: A call gets its own answer. Whatever else arrives on \<open>down/res\<close> in between, once the fragments
  of a message with the call's correlation data have arrived in order, the waiting task has been
  woken exactly once; a message that does not fit the buffer is reported as
  \<open>ESP_ERR_INVALID_SIZE\<close>; otherwise, when its text is an object with \<open>"ok":true\<close>, \<open>call\<close> returns
  \<open>ESP_OK\<close>, the document parsed from the whole message and the token of its \<open>result\<close>; and
  \<open>ESP_FAIL\<close> when \<open>ok\<close> is missing or anything else.
\<close>

theorem call_answered:
  assumes "call_begin env meth params rp mq = (ESP_OK, rp1, mq1)" and "length (rp_call_buf rp) = CALL_BUF_SIZE"
    and "List.filter (\<lambda>d. dl_correlation d = rp_call_correlation rp1) ds =
      fragments (rp_call_correlation rp1) (length body) 0 chunks"
    and "concat chunks = body" and "[] \<notin> set chunks" and "body = render (JObj ms)"
    and "json_size (JObj ms) \<le> rd_max_tokens doc"
  shows "rp_signals (fold deliver ds rp1) = rp_signals rp1 @ [SetCall] \<and>
    (case call_end ESP_OK True doc (fold deliver ds rp1) of (e, doc', tok, rp2) \<Rightarrow>
      rp_call_correlation rp2 = [] \<and>
      (if length body \<ge> CALL_BUF_SIZE then e = ESP_ERR_INVALID_SIZE \<and> doc' = doc \<and> tok = None
       else node doc' 0 (JObj ms) \<and>
         (if map_of ms ''ok'' = Some (JBool True) then e = ESP_OK \<and> tok = Some (find doc' 0 ''result'')
          else e = ESP_FAIL \<and> tok = None)))"
proof -
  let ?c = "correlation_of (rp_call_counter rp + 1)" and ?rp = "fold deliver ds rp1"
  have c: "rp_call_correlation rp1 = ?c" using call_begin_state [OF assms(1)] by simp
  have "chunks \<noteq> []" using assms(4,6) by auto
  with collecting_all [OF call_begin_collecting [OF assms(1,2)], of ds "length body" chunks] assms(3-5) c
  have all: "collecting ?c body ?rp" "rp_signals ?rp = rp_signals rp1 @ [SetCall]" by simp_all
  show ?thesis
  proof (cases "length body \<ge> CALL_BUF_SIZE")
    case True
    with all(1) have "rp_call_overflow ?rp" by (simp add: collecting_def)
    with True all(2) show ?thesis by (simp add: call_end_def Let_def)
  next
    case False
    with all(1) assms(6,7) call_end_object [of ?c ms ?rp doc] obtain doc' where n: "node doc' 0 (JObj ms)"
      and e: "call_end ESP_OK True doc ?rp =
        (if map_of ms ''ok'' = Some (JBool True)
         then (ESP_OK, doc', Some (find doc' 0 ''result''), ?rp\<lparr>rp_call_correlation := []\<rparr>)
         else (ESP_FAIL, doc', None, ?rp\<lparr>rp_call_correlation := []\<rparr>))" by (auto simp del: render.simps)
    with all(2) False show ?thesis
      by (cases "map_of ms ''ok'' = Some (JBool True)") (simp_all only: if_True if_False prod.case; simp)+
  qed
qed

theorem call_answered_witness:
  "\<exists>rp1 mq1. call_begin env_ok ''time'' ''{}'' ping_rpc online = (ESP_OK, rp1, mq1) \<and>
    rp_signals (fold deliver [\<lparr>dl_correlation = ''c0'', dl_data = ''old'', dl_offset = 0, dl_total = 3\<rparr>,
      \<lparr>dl_correlation = ''c1'', dl_data = render (JObj [(''ok'', JBool True)]), dl_offset = 0,
       dl_total = length (render (JObj [(''ok'', JBool True)]))\<rparr>] rp1) = [ClearCall, SetCall]"
proof -
  let ?ms = "[(''ok'', JBool True)]"
  let ?ds = "[\<lparr>dl_correlation = ''c0'', dl_data = ''old'', dl_offset = 0, dl_total = 3\<rparr>,
    \<lparr>dl_correlation = ''c1'', dl_data = render (JObj ?ms), dl_offset = 0, dl_total = length (render (JObj ?ms))\<rparr>]"
  obtain rp1 mq1 where c: "call_begin env_ok ''time'' ''{}'' ping_rpc online = (ESP_OK, rp1, mq1)"
    using call_request_published [OF env_ok_takes, of online "''time''" "''{}''" ping_rpc]
    by (cases "call_begin env_ok ''time'' ''{}'' ping_rpc online") auto
  have "correlation_of 1 = ''c1''" by code_simp
  then have st: "rp_call_correlation rp1 = ''c1''" "rp_signals rp1 = [ClearCall]"
    using call_begin_state [OF c] by (simp_all add: ping_rpc_def)
  have f: "List.filter (\<lambda>d. dl_correlation d = rp_call_correlation rp1) ?ds =
      fragments (rp_call_correlation rp1) (length (render (JObj ?ms))) 0 [render (JObj ?ms)]"
    by (simp add: st(1) del: render.simps)
  have "length (rp_call_buf ping_rpc) = CALL_BUF_SIZE" by (simp add: ping_rpc_def CALL_BUF_SIZE_def)
  from call_answered [OF c this f _ _ refl, of "sc_json_doc 8"] st(2) c show ?thesis
    by (auto simp: sc_json_doc_def simp del: render.simps) (simp add: sc_json_doc_def)
qed

text \<open>
  C27: No call takes another call's answer. After a call has begun, a delivery with the correlation
  data of any of the other \<open>2 ^ 32 - 1\<close> counter values changes nothing at all; once it has ended
  (answered, timed out or not even sent), no delivery does, and a time-out is reported as such.
\<close>

theorem stale_answers_ignored:
  assumes "call_begin env meth params rp mq = (e, rp1, mq1)"
  shows "(n \<noteq> rp_call_counter rp + 1 \<longrightarrow> deliver_response (correlation_of n) data off whole rp1 = rp1) \<and>
    (case call_end e2 answered doc rp2 of (e3, doc', tok, rp3) \<Rightarrow>
      deliver_response corr data off whole rp3 = rp3 \<and>
      (e2 = ESP_OK \<longrightarrow> \<not> answered \<longrightarrow> e3 = ESP_ERR_TIMEOUT) \<and> (e2 \<noteq> ESP_OK \<longrightarrow> e3 = e2))"
proof -
  have "rp_call_correlation rp1 = correlation_of (rp_call_counter rp + 1)"
    using call_begin_state [OF assms] by simp
  then have "n \<noteq> rp_call_counter rp + 1 \<Longrightarrow> deliver_response (correlation_of n) data off whole rp1 = rp1"
    using correlation_inject [of n "rp_call_counter rp + 1"] by (auto simp: deliver_response_def Let_def)
  moreover have "deliver_response corr data off whole (rp2\<lparr>rp_call_correlation := []\<rparr>) = rp2\<lparr>rp_call_correlation := []\<rparr>"
    by (simp add: deliver_response_def)
  ultimately show ?thesis
    by (auto simp: call_end_def Let_def split: prod.split)
qed

theorem stale_answers_ignored_witness:
  "\<exists>e rp1 mq1. call_begin env_ok ''time'' ''{}'' ping_rpc online = (e, rp1, mq1) \<and>
    deliver_response ''c7'' ''{}'' 0 2 rp1 = rp1"
proof -
  obtain e rp1 mq1 where c: "call_begin env_ok ''time'' ''{}'' ping_rpc online = (e, rp1, mq1)"
    by (metis prod_cases3)
  have "correlation_of 7 = ''c7''" by code_simp
  moreover have "7 \<noteq> rp_call_counter ping_rpc + 1" by (simp add: ping_rpc_def)
  ultimately have "deliver_response ''c7'' ''{}'' 0 2 rp1 = rp1"
    using stale_answers_ignored [OF c, where n = 7 and data = "''{}''" and off = 0 and whole = 2,
        THEN conjunct1] by simp
  with c show ?thesis by (intro exI) (rule conjI)
qed

text \<open>
  C29: The method table. From any table with distinct names, registering any list of methods
  succeeds as long as there are at most 24 names in all; then a lookup finds the handler registered
  last under exactly that name, and methods not registered again keep theirs. A single registration
  is refused only for a null name, an empty handler or when the table is full, and then changes
  nothing.
\<close>

theorem methods_registered:
  assumes "table_wf MAX_METHODS (rp_methods rp)"
    and "card (set (entry_names (rp_methods rp)) \<union> fst ` set regs) \<le> MAX_METHODS"
  shows "(\<exists>ms. add_methods regs rp = (ESP_OK, rp\<lparr>rp_methods := ms\<rparr>) \<and> table_wf MAX_METHODS ms \<and>
      (\<forall>name. find_method name (rp\<lparr>rp_methods := ms\<rparr>) =
        (case map_of (rev regs) name of None \<Rightarrow> find_method name rp | Some h \<Rightarrow> Some h))) \<and>
    (fst (add_method name handler rp) \<noteq> ESP_OK \<longrightarrow> snd (add_method name handler rp) = rp \<and>
      (name = None \<or> handler = None \<or>
       (card (set (entry_names (rp_methods rp))) = MAX_METHODS \<and> find_method (the name) rp = None)))"
proof -
  obtain ms where ms: "names_table.puts regs (rp_methods rp) = Some ms"
    using names_table.puts_fit [OF assms] by blast
  from names_table.get_puts [OF ms] names_table.wf_puts [OF assms(1) ms] add_methods_puts [OF ms]
  have "\<exists>ms. add_methods regs rp = (ESP_OK, rp\<lparr>rp_methods := ms\<rparr>) \<and> table_wf MAX_METHODS ms \<and>
      (\<forall>name. find_method name (rp\<lparr>rp_methods := ms\<rparr>) =
        (case map_of (rev regs) name of None \<Rightarrow> find_method name rp | Some h \<Rightarrow> Some h))"
    by (intro exI [of _ ms]) (simp add: find_method_def split: option.split)
  moreover have "put_entry n h (rp_methods rp) = None \<Longrightarrow>
      card (set (entry_names (rp_methods rp))) = MAX_METHODS \<and> find_method n rp = None" for n h
    using names_table.law_room [OF assms(1)] put_entry_full by (fastforce simp: find_method_def)
  ultimately show ?thesis by (auto simp: add_method_def split: option.splits)
qed

theorem methods_registered_witness:
  "\<exists>ms. add_methods [(''a'', ping_handler), (''b'', ping_handler)] (ping_rpc\<lparr>rp_methods := replicate 24 None\<rparr>) =
    (ESP_OK, ping_rpc\<lparr>rp_methods := ms\<rparr>) \<and> find_method ''b'' (ping_rpc\<lparr>rp_methods := ms\<rparr>) = Some ping_handler"
proof -
  let ?rp = "ping_rpc\<lparr>rp_methods := replicate 24 None\<rparr>"
  have names: "entry_names (replicate 24 None :: (string \<times> unit rpc_handler) option list) = []"
    by (rule entry_names_None) (simp add: list_all_iff)
  have "table_wf MAX_METHODS (rp_methods ?rp)"
    using table_wf_init [of MAX_METHODS] by (simp add: MAX_METHODS_def)
  from methods_registered [OF this, of "[(''a'', ping_handler), (''b'', ping_handler)]" None None, THEN conjunct1]
  show ?thesis by (auto simp: names MAX_METHODS_def simp del: add_methods.simps)
qed

end
