(* ===== verification/Shell.thy ===== *)
theory Shell
  imports Registry Json_Text
begin

text \<open>
  The remote shell: \<open>sc_shell_out\<close> of \<open>include/soulcloud.hpp\<close> and \<open>sc_shell\<close> of \<open>src/sc_shell.cpp\<close>.

  A \<open>printf\<close> takes the text that its format produces (None: \<open>vsnprintf\<close> reports an error). A
  handler transforms the output and the world \<open>'w\<close> outside the shell, and returns an exit code.
\<close>

subsection \<open>Command output\<close>

record sc_shell_out =
  so_buf :: string
  so_cap :: nat
  so_pos :: nat
  so_full :: bool

definition sc_shell_out :: "string \<Rightarrow> nat \<Rightarrow> sc_shell_out" where
  "sc_shell_out buf cap =
     \<lparr>so_buf = (if cap > 0 then buf[0 := NUL] else buf), so_cap = cap, so_pos = 0, so_full = False\<rparr>"

definition so_write :: "string \<Rightarrow> sc_shell_out \<Rightarrow> sc_shell_out" where
  "so_write str out =
     (if so_cap out = 0 \<or> so_full out then out
      else let room = so_cap out - 1 - so_pos out;
               cut = length str > room;
               len = (if cut then room else length str);
               pos = so_pos out + len
           in out\<lparr>so_full := cut, so_pos := pos,
                  so_buf := (memcpy (so_buf out) (so_pos out) (take len str))[pos := NUL]\<rparr>)"

definition so_printf :: "string option \<Rightarrow> sc_shell_out \<Rightarrow> sc_shell_out" where
  "so_printf formatted out =
     (if so_cap out = 0 \<or> so_full out then out
      else case formatted of
        None \<Rightarrow> out\<lparr>so_buf := (so_buf out)[so_pos out := NUL]\<rparr>
      | Some text \<Rightarrow>
          let room = so_cap out - so_pos out;
              stored = take (room - 1) text;
              buf = (memcpy (so_buf out) (so_pos out) stored)[so_pos out + length stored := NUL]
          in if length text \<ge> room
             then out\<lparr>so_full := True, so_pos := so_cap out - 1, so_buf := buf\<rparr>
             else out\<lparr>so_pos := so_pos out + length text, so_buf := buf\<rparr>)"

definition so_c_str :: "sc_shell_out \<Rightarrow> string" where
  "so_c_str out = cstr (so_buf out)"

definition so_len :: "sc_shell_out \<Rightarrow> nat" where
  "so_len out = so_pos out"

definition so_truncated :: "sc_shell_out \<Rightarrow> bool" where
  "so_truncated out = so_full out"

subsection \<open>Commands\<close>

definition count_words :: "string \<Rightarrow> u8" where
  "count_words name = 1 + of_nat (length (List.filter (\<lambda>c. c = CHR '' '') name))"

text \<open>The loop over the words of a command name and of the command line.\<close>

fun name_matches :: "string \<Rightarrow> string list \<Rightarrow> bool" where
  "name_matches name [] = False"
| "name_matches name (a # argv) =
     (let word = takeWhile (\<lambda>c. c \<noteq> CHR '' '') name in
      if a \<noteq> word then False
      else if length word = length name then True
      else name_matches (drop (length word + 1) name) argv)"

datatype sh_builtin =
    CmdHelp | CmdUptime | CmdAppDesc | CmdElfSha256 | CmdUniqueId | CmdChip | CmdFreeHeap
  | CmdPartitions | CmdResetReason | CmdTime | CmdDnsResolve

type_synonym 'w app_handler = "string list \<Rightarrow> sc_shell_out \<Rightarrow> 'w \<Rightarrow> int \<times> sc_shell_out \<times> 'w"

datatype 'w sh_handler = Builtin sh_builtin | AppCmd "'w app_handler"

record 'w sh_entry =
  sh_help :: "string option"
  sh_handler :: "'w sh_handler"
  sh_words :: u8

type_synonym 'w sc_shell = "(string \<times> 'w sh_entry) option list"

text \<open>\<open>add\<close>: a null name or an empty \<open>std::function\<close> is None.\<close>

definition sh_add ::
    "string option \<Rightarrow> string option \<Rightarrow> 'w sh_handler option \<Rightarrow> 'w sc_shell \<Rightarrow> esp_err \<times> 'w sc_shell" where
  "sh_add name help handler cmds =
     (case (name, handler) of
        (Some n, Some h) \<Rightarrow>
          if n = [] then (ESP_ERR_INVALID_ARG, cmds)
          else (case put_entry n \<lparr>sh_help = help, sh_handler = h, sh_words = count_words n\<rparr> cmds of
                  None \<Rightarrow> (ESP_ERR_NO_MEM, cmds)
                | Some cmds' \<Rightarrow> (ESP_OK, cmds'))
      | _ \<Rightarrow> (ESP_ERR_INVALID_ARG, cmds))"

text \<open>The words \<open>strtok_r\<close> yields on a C string.\<close>

definition is_delim :: "char \<Rightarrow> bool" where
  "is_delim c \<longleftrightarrow> c \<in> {CHR 0x20, CHR 0x09, CHR 0x0D, CHR 0x0A}"

function strtok_words :: "string \<Rightarrow> string list" where
  "strtok_words s =
     (let s' = dropWhile is_delim s in
      if s' = [] then []
      else takeWhile (\<lambda>c. \<not> is_delim c) s' # strtok_words (dropWhile (\<lambda>c. \<not> is_delim c) s'))"
  by pat_completeness auto
termination
proof (relation "measure length")
  fix s x :: string
  assume x: "x = dropWhile is_delim s" "x \<noteq> []"
  then have "\<not> is_delim (hd x)" using hd_dropWhile by blast
  then have "length (dropWhile (\<lambda>c. \<not> is_delim c) x) < length x"
    using x(2) by (cases x) (simp_all add: le_imp_less_Suc length_dropWhile_le)
  moreover have "length x \<le> length s" by (simp add: x(1) length_dropWhile_le)
  ultimately show "(dropWhile (\<lambda>c. \<not> is_delim c) x, s) \<in> measure length" by simp
qed simp

declare strtok_words.simps [simp del]

definition MAX_ARGS :: nat where "MAX_ARGS = 16"

definition best_cmd ::
    "'w sc_shell \<Rightarrow> string list \<Rightarrow> (string \<times> 'w sh_entry) option" where
  "best_cmd cmds argv =
     fold (\<lambda>cmd best.
        case cmd of
          None \<Rightarrow> best
        | Some (name, e) \<Rightarrow>
            if (case best of None \<Rightarrow> True | Some (_, b) \<Rightarrow> sh_words e > sh_words b) \<and> name_matches name argv
            then Some (name, e) else best)
       cmds None"

text \<open>
  \<open>run\<close>, given how a handler is executed: \<open>exec handler argv out w\<close>.
\<close>

definition sh_run ::
    "('w sh_handler \<Rightarrow> 'w app_handler) \<Rightarrow> 'w sc_shell \<Rightarrow> string \<Rightarrow> sc_shell_out \<Rightarrow> 'w \<Rightarrow>
     int \<times> sc_shell_out \<times> 'w" where
  "sh_run exec cmds line out w =
     (let argv = take MAX_ARGS (strtok_words (cstr line)) in
      if argv = [] then (0, out, w)
      else case best_cmd cmds argv of
        None \<Rightarrow> (127, so_printf (Some (''Unknown command '' @ [QUOTE] @ hd argv @ [QUOTE] @
                   ''; try '' @ [QUOTE] @ ''help'' @ [QUOTE] @ [CHR 0x0A])) out, w)
      | Some (name, e) \<Rightarrow> exec (sh_handler e) (drop (unat (sh_words e)) argv) out w)"

subsection \<open>The built-in commands\<close>

text \<open>What the built-in commands read from ESP-IDF and lwIP, as the calls return it.\<close>

record shell_part =
  pt_label :: string
  pt_address :: u32
  pt_size :: u32
  pt_version :: "string option"
  pt_running :: bool
  pt_boot :: bool

record heap_info =
  hi_free :: u32
  hi_min_free :: u32
  hi_largest :: u32

record shell_env =
  ev_time_us :: int
  ev_project :: string
  ev_version :: string
  ev_date :: string
  ev_time :: string
  ev_idf_ver :: string
  ev_elf_sha256 :: "u8 list"
  ev_mac :: "u8 list"
  ev_target :: string
  ev_revision :: nat
  ev_cores :: nat
  ev_internal :: heap_info
  ev_external :: heap_info
  ev_psram_total :: u32
  ev_parts :: "shell_part list"
  ev_reset_reason :: nat
  ev_utc :: string
  ev_getaddrinfo :: "string \<Rightarrow> int \<times> string option list"

definition pad_left :: "nat \<Rightarrow> char \<Rightarrow> string \<Rightarrow> string" where
  "pad_left n c s = replicate (n - length s) c @ s"

definition pad_right :: "nat \<Rightarrow> string \<Rightarrow> string" where
  "pad_right n s = s @ replicate (n - length s) CHR '' ''"

fun hex_digits :: "nat \<Rightarrow> string" where
  "hex_digits n = (if n < 16 then [hex_digit n] else hex_digits (n div 16) @ [hex_digit (n mod 16)])"

declare hex_digits.simps [simp del]

definition NL :: string where "NL = [CHR 0x0A]"

definition u32_text :: "u32 \<Rightarrow> string" where "u32_text v = dec_text (uint v)"

definition reset_reason_name :: "nat \<Rightarrow> string" where
  "reset_reason_name reason =
     (let names = [''unknown'', ''power_on'', ''external'', ''software'', ''panic'', ''int_wdt'',
        ''task_wdt'', ''other_wdt'', ''deep_sleep'', ''brownout'', ''sdio'', ''usb'', ''jtag'', ''efuse'',
        ''power_glitch'', ''cpu_lockup''] in
      if reason < length names then names ! reason else ''other'')"

definition print_heap :: "string \<Rightarrow> heap_info \<Rightarrow> sc_shell_out \<Rightarrow> sc_shell_out" where
  "print_heap label h out = so_printf (Some (label @ '': free '' @ u32_text (hi_free h) @ '', min free '' @
     u32_text (hi_min_free h) @ '', largest block '' @ u32_text (hi_largest h) @ NL)) out"

definition mac_text :: "u8 list \<Rightarrow> string" where
  "mac_text mac = concat (map (\<lambda>(i, b). (if i = (0 :: nat) then [] else '':'') @ hex_text [b]) (enumerate 0 mac))"

definition print_part :: "shell_part \<Rightarrow> sc_shell_out \<Rightarrow> sc_shell_out" where
  "print_part p out = so_printf (Some (pad_right 8 (pt_label p) @ '' 0x'' @
     pad_left 6 CHR ''0'' (hex_digits (unat (pt_address p))) @ '' '' @
     pad_left 4 CHR '' '' (u32_text (pt_size p div 1024)) @ '' KiB '' @
     pad_right 8 (case pt_version p of None \<Rightarrow> ''-'' | Some v \<Rightarrow> v) @
     (if pt_running p then '' running'' else []) @ (if pt_boot p then '' boot'' else []) @ NL)) out"

fun exec_builtin ::
    "shell_env \<Rightarrow> 'w sc_shell \<Rightarrow> sh_builtin \<Rightarrow> string list \<Rightarrow> sc_shell_out \<Rightarrow> int \<times> sc_shell_out" where
  "exec_builtin ev cmds CmdHelp argv out =
     (0, fold (\<lambda>cmd o'. case cmd of
                 None \<Rightarrow> o'
               | Some (name, e) \<Rightarrow> so_printf (Some (pad_right 24 name @ '' '' @
                   (case sh_help e of None \<Rightarrow> [] | Some h \<Rightarrow> h) @ NL)) o') cmds out)"
| "exec_builtin ev cmds CmdUptime argv out =
     (0, so_printf (Some (''uptime= '' @ dec_text (ev_time_us ev div 1000) @ '' ms'' @ NL)) out)"
| "exec_builtin ev cmds CmdAppDesc argv out =
     (0, so_printf (Some (''Project name: '' @ ev_project ev @ '', App version: '' @ ev_version ev @
        '', Compile time: '' @ ev_date ev @ '' '' @ ev_time ev @ '', ESP-IDF: '' @ ev_idf_ver ev @ NL)) out)"
| "exec_builtin ev cmds CmdElfSha256 argv out =
     (0, so_write NL (fold (\<lambda>b. so_printf (Some (hex_text [b]))) (take 32 (ev_elf_sha256 ev)) out))"
| "exec_builtin ev cmds CmdUniqueId argv out =
     (0, so_printf (Some (mac_text (take 6 (ev_mac ev)) @ NL)) out)"
| "exec_builtin ev cmds CmdChip argv out =
     (0, so_printf (Some (ev_target ev @ '' rev '' @ dec_text (int (ev_revision ev div 100)) @ ''.'' @
        dec_text (int (ev_revision ev mod 100)) @ '', '' @ dec_text (int (ev_cores ev)) @ '' cores'' @ NL)) out)"
| "exec_builtin ev cmds CmdFreeHeap argv out =
     (let internal = argv = [] \<or> hd argv = ''internal'';
          external = argv = [] \<or> hd argv = ''external'' in
      if \<not> internal \<and> \<not> external
      then (1, so_printf (Some (''Usage: get free_heap [internal|external]'' @ NL)) out)
      else let out1 = (if internal then print_heap ''internal'' (ev_internal ev) out else out);
               out2 = (if external
                       then if ev_psram_total ev = 0
                            then so_printf (Some (''external: no PSRAM'' @ NL)) out1
                            else print_heap ''external'' (ev_external ev) out1
                       else out1)
           in (0, out2))"
| "exec_builtin ev cmds CmdPartitions argv out = (0, fold print_part (ev_parts ev) out)"
| "exec_builtin ev cmds CmdResetReason argv out =
     (0, so_printf (Some (reset_reason_name (ev_reset_reason ev) @ NL)) out)"
| "exec_builtin ev cmds CmdTime argv out = (0, so_printf (Some (ev_utc ev @ NL)) out)"
| "exec_builtin ev cmds CmdDnsResolve argv out =
     (if argv = [] then (1, so_printf (Some (''Usage: dns_resolve <host>'' @ NL)) out)
      else let (err, items) = ev_getaddrinfo ev (hd argv) in
           if err \<noteq> 0 \<or> items = []
           then (1, so_printf (Some (''getaddrinfo error: '' @ dec_text err @ NL)) out)
           else (0, fold (\<lambda>item. so_printf (Some (''Host: '' @ hd argv @ '', IP: '' @
                      (case item of None \<Rightarrow> [] | Some addr \<Rightarrow> addr) @ NL))) items out))"

definition sh_exec :: "shell_env \<Rightarrow> 'w sc_shell \<Rightarrow> 'w sh_handler \<Rightarrow> 'w app_handler" where
  "sh_exec ev cmds h argv out w =
     (case h of
        Builtin b \<Rightarrow> (let (code, out') = exec_builtin ev cmds b argv out in (code, out', w))
      | AppCmd f \<Rightarrow> f argv out w)"

text \<open>\<open>run\<close> on the shell's own table.\<close>

definition run :: "shell_env \<Rightarrow> 'w sc_shell \<Rightarrow> string \<Rightarrow> sc_shell_out \<Rightarrow> 'w \<Rightarrow> int \<times> sc_shell_out \<times> 'w" where
  "run ev cmds = sh_run (sh_exec ev cmds) cmds"

definition builtin_cmds :: "(string \<times> string \<times> sh_builtin) list" where
  "builtin_cmds =
     [(''help'', ''List commands'', CmdHelp),
      (''status uptime'', ''Time since boot'', CmdUptime),
      (''get app_desc'', ''Firmware description'', CmdAppDesc),
      (''get elf_sha256'', ''SHA-256 of the running firmware'' @ [CHR 0x27] @ ''s ELF'', CmdElfSha256),
      (''get unique_id'', ''Base MAC address'', CmdUniqueId),
      (''get chip'', ''Chip model, revision and cores'', CmdChip),
      (''get free_heap'', ''Heap usage [internal|external]'', CmdFreeHeap),
      (''get partitions'', ''App partitions and OTA state'', CmdPartitions),
      (''get reset_reason'', ''Why the chip last restarted'', CmdResetReason),
      (''get time'', ''Wall-clock time (UTC)'', CmdTime),
      (''dns_resolve'', ''Resolve a host name'', CmdDnsResolve)]"

definition add_builtins :: "'w sc_shell \<Rightarrow> 'w sc_shell" where
  "add_builtins cmds =
     fold (\<lambda>(name, help, b) t. snd (sh_add (Some name) (Some help) (Some (Builtin b)) t)) builtin_cmds cmds"

subsection \<open>The output is the text, cut at the end of the buffer\<close>

datatype so_call = SoWrite string | SoPrintf "string option"

fun so_do :: "so_call \<Rightarrow> sc_shell_out \<Rightarrow> sc_shell_out" where
  "so_do (SoWrite s) out = so_write s out"
| "so_do (SoPrintf t) out = so_printf t out"

fun so_text :: "so_call \<Rightarrow> string \<Rightarrow> string" where
  "so_text (SoWrite s) a = a @ s"
| "so_text (SoPrintf t) a = a @ (case t of None \<Rightarrow> [] | Some s \<Rightarrow> s)"

definition so_shows :: "sc_shell_out \<Rightarrow> string \<Rightarrow> bool" where
  "so_shows out a \<longleftrightarrow>
     0 < so_cap out \<and> length (so_buf out) = so_cap out \<and>
     so_pos out = min (length a) (so_cap out - 1) \<and>
     take (so_pos out) (so_buf out) = take (so_cap out - 1) a \<and>
     so_buf out ! so_pos out = NUL \<and> (so_full out \<longleftrightarrow> length a \<ge> so_cap out)"

lemma so_shows_init:
  "length buf = cap \<Longrightarrow> 0 < cap \<Longrightarrow> so_shows (sc_shell_out buf cap) []"
  by (simp add: so_shows_def sc_shell_out_def)

lemma so_shows_append:
  assumes "so_shows out a" and "\<not> so_full out"
  defines "m \<equiv> so_cap out - 1 - so_pos out"
  shows "so_shows (out\<lparr>so_full := length s > m, so_pos := so_pos out + length (take m s),
      so_buf := (memcpy (so_buf out) (so_pos out) (take m s))[so_pos out + length (take m s) := NUL]\<rparr>) (a @ s)"
proof -
  have cap: "0 < so_cap out" "length (so_buf out) = so_cap out" and pos: "so_pos out = length a"
    and lt: "length a < so_cap out" and buf: "take (length a) (so_buf out) = a"
    using assms(1,2) by (auto simp: so_shows_def)
  let ?t = "take m s"
  have fits: "so_pos out + length ?t < length (so_buf out)" using cap pos lt by (simp add: m_def)
  then have len: "length (memcpy (so_buf out) (so_pos out) ?t) = so_cap out" using cap by simp
  have "take (so_pos out + length ?t) (memcpy (so_buf out) (so_pos out) ?t) = a @ ?t"
    using fits buf by (subst take_memcpy) (simp_all add: pos)
  moreover have "take (so_cap out - 1) (a @ s) = a @ ?t" using lt by (simp add: m_def pos)
  ultimately show ?thesis
    using cap len fits lt by (auto simp: so_shows_def pos m_def)
qed

lemma so_shows_full: "so_shows out a \<Longrightarrow> so_full out \<Longrightarrow> so_shows out (a @ s)"
  by (auto simp: so_shows_def)

lemma so_shows_write:
  assumes "so_shows out a" shows "so_shows (so_write s out) (a @ s)"
proof (cases "so_full out")
  case True
  with assms so_shows_full show ?thesis by (simp add: so_write_def)
next
  case False
  have "so_cap out \<noteq> 0" using assms by (simp add: so_shows_def)
  with False so_shows_append [OF assms False, of s] show ?thesis
    by (cases "length s > so_cap out - 1 - so_pos out") (simp_all add: so_write_def Let_def)
qed

lemma so_shows_printf:
  assumes "so_shows out a"
  shows "so_shows (so_printf t out) (a @ (case t of None \<Rightarrow> [] | Some s \<Rightarrow> s))"
proof (cases "so_full out")
  case True
  with assms so_shows_full show ?thesis by (auto simp: so_printf_def)
next
  case False
  have cap: "so_cap out \<noteq> 0" and pos: "so_pos out < so_cap out"
    using assms by (auto simp: so_shows_def)
  show ?thesis
  proof (cases t)
    case None
    with False cap assms show ?thesis by (auto simp: so_printf_def so_shows_def)
  next
    case (Some s)
    have room: "so_cap out - so_pos out - 1 = so_cap out - 1 - so_pos out" by simp
    have ge: "length s \<ge> so_cap out - so_pos out \<longleftrightarrow> length s > so_cap out - 1 - so_pos out"
      using pos by linarith
    show ?thesis
    proof (cases "length s > so_cap out - 1 - so_pos out")
      case True
      then have "so_pos out + length (take (so_cap out - 1 - so_pos out) s) = so_cap out - 1"
        using pos by simp
      with False cap so_shows_append [OF assms False, of s] Some True show ?thesis
        by (simp add: so_printf_def Let_def room ge)
    next
      case fits: False
      have "out\<lparr>so_full := False, so_pos := p, so_buf := b\<rparr> = out\<lparr>so_pos := p, so_buf := b\<rparr>" for p b
        using False by (cases out) simp
      with fits False cap so_shows_append [OF assms False, of s] Some show ?thesis
        by (simp add: so_printf_def Let_def room ge)
    qed
  qed
qed

lemma so_shows_do: "so_shows out a \<Longrightarrow> so_shows (so_do c out) (so_text c a)"
  by (cases c) (simp_all add: so_shows_write so_shows_printf)

interpretation shell_text: simulation so_do so_text so_shows
  by unfold_locales (rule so_shows_do)

subsection \<open>Dispatch\<close>

text \<open>The words of a command name; names are separated by single spaces.\<close>

function name_words :: "string \<Rightarrow> string list" where
  "name_words name =
     (let word = takeWhile (\<lambda>c. c \<noteq> CHR '' '') name in
      if length word = length name then [word] else word # name_words (drop (length word + 1) name))"
  by pat_completeness auto
termination
proof (relation "measure length")
  fix name x :: string
  assume "x = takeWhile (\<lambda>c. c \<noteq> CHR '' '') name" "length x \<noteq> length name"
  then have "name \<noteq> []" by auto
  then show "(drop (length x + 1) name, name) \<in> measure length" by simp
qed simp

declare name_words.simps [simp del]

lemma name_words_not_Nil [simp]: "name_words name \<noteq> []"
  by (simp add: name_words.simps [of name] Let_def)

lemma name_matches_words:
  "name_matches name argv \<longleftrightarrow> take (length (name_words name)) argv = name_words name"
proof (induction name arbitrary: argv rule: name_words.induct)
  case (1 name)
  show ?case
  proof (cases argv)
    case (Cons a as)
    with 1 show ?thesis by (auto simp: name_words.simps [of name] Let_def)
  qed (simp add: name_words_not_Nil [THEN not_sym])
qed

lemma drop_append_Cons: "xs = w @ c # r \<Longrightarrow> drop (length w + 1) xs = r"
  by simp

lemma length_name_words:
  "length (name_words name) = 1 + length (List.filter (\<lambda>c. c = CHR '' '') name)"
proof (induction name rule: name_words.induct)
  case (1 name)
  let ?word = "takeWhile (\<lambda>c. c \<noteq> CHR '' '') name"
  have none: "List.filter (\<lambda>c. c = CHR '' '') ?word = []"
    by (auto simp: filter_empty_conv dest: set_takeWhileD)
  show ?case
  proof (cases "length ?word = length name")
    case True
    then have "?word = name" by (metis order_refl take_all takeWhile_eq_take)
    then have "name_words name = [name]"
      unfolding name_words.simps [of name] Let_def if_P [OF True] by (simp only:)
    moreover have "List.filter (\<lambda>c. c = CHR '' '') name = []" using none \<open>?word = name\<close> by simp
    ultimately show ?thesis by simp
  next
    case False
    note td = takeWhile_dropWhile_id [of "\<lambda>c. c \<noteq> CHR '' ''" name]
    have ne: "dropWhile (\<lambda>c. c \<noteq> CHR '' '') name \<noteq> []"
    proof
      assume "dropWhile (\<lambda>c. c \<noteq> CHR '' '') name = []"
      with td have "?word = name" by (simp only: append_Nil2)
      with False show False by (simp only:)
    qed
    then obtain rest where "dropWhile (\<lambda>c. c \<noteq> CHR '' '') name = CHR '' '' # rest"
      using hd_dropWhile [OF ne] by (cases "dropWhile (\<lambda>c. c \<noteq> CHR '' '') name") auto
    with td have split: "name = ?word @ CHR '' '' # rest" by (simp only:)
    then have "drop (length ?word + 1) name = rest" by (rule drop_append_Cons)
    moreover have "List.filter (\<lambda>c. c = CHR '' '') name = CHR '' '' # List.filter (\<lambda>c. c = CHR '' '') rest"
      by (subst split) (simp add: none)
    ultimately show ?thesis using 1 [OF refl False] False by (simp add: name_words.simps [of name] Let_def)
  qed
qed

text \<open>A command with at most 255 words: its counter has not wrapped around.\<close>

lemma unat_count_words:
  assumes "length (name_words name) < 256"
  shows "unat (count_words name) = length (name_words name)"
proof -
  have "count_words name = of_nat (length (name_words name))"
    by (simp add: count_words_def length_name_words)
  with assms show ?thesis by (simp add: unat_of_nat)
qed

definition shell_wf :: "'w sc_shell \<Rightarrow> bool" where
  "shell_wf cmds \<longleftrightarrow>
     distinct (entry_names cmds) \<and> packed cmds \<and>
     (\<forall>n e. Some (n, e) \<in> set cmds \<longrightarrow> n \<noteq> [] \<and> sh_words e = count_words n)"

lemma put_entry_set:
  "put_entry n e t = Some t' \<Longrightarrow> set t' \<subseteq> insert (Some (n, e)) (set t)"
  by (induction n e t arbitrary: t' rule: put_entry.induct) (auto split: if_split_asm option.splits)

lemma shell_wf_add: "shell_wf cmds \<Longrightarrow> shell_wf (snd (sh_add name help h cmds))"
proof (cases name; cases h)
  fix n f assume wf: "shell_wf cmds" and nh: "name = Some n" "h = Some f"
  let ?e = "\<lparr>sh_help = help, sh_handler = f, sh_words = count_words n\<rparr>"
  show ?thesis
  proof (cases "n = [] \<or> put_entry n ?e cmds = None")
    case True
    with wf nh show ?thesis by (auto simp: sh_add_def)
  next
    case False
    then obtain t where t: "put_entry n ?e cmds = Some t" and ne: "n \<noteq> []" by auto
    have names: "packed t \<and> distinct (entry_names t)"
      using put_entry_names [OF t] wf by (auto simp: shell_wf_def)
    have "m \<noteq> [] \<and> sh_words e = count_words m" if "Some (m, e) \<in> set t" for m e
      using put_entry_set [OF t] that wf ne by (auto simp: shell_wf_def)
    with names t ne nh show ?thesis by (simp add: sh_add_def shell_wf_def)
  qed
qed (simp_all add: sh_add_def)

lemma shell_wf_empty: "shell_wf (replicate n None :: 'w sc_shell)"
proof -
  have "table_wf n (replicate n None :: 'w sc_shell)" by (rule table_wf_init)
  then show ?thesis by (simp add: shell_wf_def table_wf_def)
qed

definition best_ok ::
    "(string \<times> 'w sh_entry) option list \<Rightarrow> string list \<Rightarrow> (string \<times> 'w sh_entry) option \<Rightarrow> bool" where
  "best_ok seen argv best \<longleftrightarrow>
     (case best of
        None \<Rightarrow> \<forall>n e. Some (n, e) \<in> set seen \<longrightarrow> \<not> name_matches n argv
      | Some (m, b) \<Rightarrow> Some (m, b) \<in> set seen \<and> name_matches m argv \<and>
          (\<forall>n e. Some (n, e) \<in> set seen \<longrightarrow> name_matches n argv \<longrightarrow> sh_words e \<le> sh_words b))"

lemma best_cmd_ok: "best_ok cmds argv (best_cmd cmds argv)"
proof -
  let ?f = "\<lambda>cmd best. case cmd of
          None \<Rightarrow> best
        | Some (name, e) \<Rightarrow>
            if (case best of None \<Rightarrow> True | Some (_, b) \<Rightarrow> sh_words e > sh_words b) \<and> name_matches name argv
            then Some (name, e) else best"
  have step: "best_ok (seen @ [x]) argv (?f x best)" if ok: "best_ok seen argv best" for seen x best
  proof (cases x)
    case None
    with ok show ?thesis by (auto simp: best_ok_def split: option.splits)
  next
    case (Some ne)
    obtain n e where "x = Some (n, e)" using Some by (cases ne) simp
    with ok show ?thesis
      by (cases best) (auto simp: best_ok_def not_less split: prod.splits,
        (metis order.trans order.strict_implies_order)?)
  qed
  have "best_ok (seen @ xs) argv (fold ?f xs best)" if "best_ok seen argv best" for seen xs best
    using that
  proof (induction xs arbitrary: seen best)
    case (Cons x xs)
    from Cons.IH [OF step [OF Cons.prems]] show ?case by simp
  qed simp
  from this [of "[]" None cmds] show ?thesis by (simp add: best_cmd_def best_ok_def)
qed

subsection \<open>Properties\<close>

text \<open>
  C40: The shell's output is exactly the text the command wrote, cut at the end of the buffer: after
  every sequence of writes and printfs on a buffer of any positive size, the buffer keeps its size,
  \<open>c_str()\<close> holds the first \<open>cap - 1\<close> characters of the whole text (up to a NUL in it), \<open>len()\<close> is
  their number, and \<open>truncated()\<close> is true exactly when the text was longer.
\<close>

theorem shell_output_text:
  assumes "length buf = cap" and "0 < cap"
  shows "let out = fold so_do cs (sc_shell_out buf cap); a = fold so_text cs [] in
    length (so_buf out) = cap \<and> so_c_str out = cstr (take (cap - 1) a) \<and>
    so_len out = min (length a) (cap - 1) \<and> (so_truncated out \<longleftrightarrow> length a > cap - 1)"
proof -
  let ?out = "fold so_do cs (sc_shell_out buf cap)"
  let ?a = "fold so_text cs []"
  have s: "so_shows ?out ?a" by (rule shell_text.run_rel [OF so_shows_init [OF assms]])
  have "so_cap (so_do c out) = so_cap out" for c out
    by (cases c) (simp_all add: so_write_def so_printf_def Let_def split: option.split)
  then have "so_cap (fold so_do cs out) = so_cap out" for cs out by (induction cs arbitrary: out) simp_all
  then have cap: "so_cap ?out = cap" by (simp add: sc_shell_out_def)
  have lt: "so_pos ?out < length (so_buf ?out)" and nul: "so_buf ?out ! so_pos ?out = NUL"
    using s by (auto simp: so_shows_def)
  have "so_buf ?out = take (so_pos ?out) (so_buf ?out) @ NUL # drop (Suc (so_pos ?out)) (so_buf ?out)"
    using id_take_nth_drop [OF lt] unfolding nul .
  moreover have "take (so_pos ?out) (so_buf ?out) = take (cap - 1) ?a"
    using s unfolding so_shows_def cap by blast
  ultimately have "cstr (so_buf ?out) = cstr (take (cap - 1) ?a)"
    by (metis cstr_append_NUL)
  with s cap assms(2) show ?thesis by (auto simp: Let_def so_shows_def so_c_str_def so_len_def so_truncated_def)
qed

theorem shell_output_text_witness:
  "let out = fold so_do [SoWrite ''abc'', SoPrintf (Some ''defgh''), SoWrite ''x''] (sc_shell_out ''......'' 6) in
    so_c_str out = ''abcde'' \<and> so_truncated out"
proof -
  have "cstr ''abcde'' = ''abcde''" by code_simp
  then show ?thesis
    using shell_output_text [of "''......''" 6 "[SoWrite ''abc'', SoPrintf (Some ''defgh''), SoWrite ''x'']"]
    by (simp add: Let_def)
qed

text \<open>
  C32: The shell runs the registered command whose words are the longest prefix of the line's
  words, with the words after its name as arguments; when no registered name is a prefix of the
  line, it answers 127 and changes nothing outside the output. An empty line is exit code 0. This
  holds for every table built by \<open>add\<close> (\<open>shell_wf\<close>), with at most 16 words of the line.
\<close>

theorem shell_runs_longest_match:
  assumes "shell_wf cmds" and "argv = take MAX_ARGS (strtok_words (cstr line))" and "argv \<noteq> []"
  shows "(\<exists>name e. get_entry cmds name = Some e \<and>
      take (length (name_words name)) argv = name_words name \<and>
      (\<forall>n f. get_entry cmds n = Some f \<longrightarrow> take (length (name_words n)) argv = name_words n \<longrightarrow>
        length (name_words n) \<le> length (name_words name)) \<and>
      sh_run exec cmds line out w = exec (sh_handler e) (drop (length (name_words name)) argv) out w) \<or>
    ((\<forall>n. get_entry cmds n \<noteq> None \<longrightarrow> take (length (name_words n)) argv \<noteq> name_words n) \<and>
      fst (sh_run exec cmds line out w) = 127 \<and> snd (snd (sh_run exec cmds line out w)) = w)"
proof -
  have run: "sh_run exec cmds line out w = (case best_cmd cmds argv of
        None \<Rightarrow> (127, so_printf (Some (''Unknown command '' @ [QUOTE] @ hd argv @ [QUOTE] @
                   ''; try '' @ [QUOTE] @ ''help'' @ [QUOTE] @ [CHR 0x0A])) out, w)
      | Some (name, e) \<Rightarrow> exec (sh_handler e) (drop (unat (sh_words e)) argv) out w)"
    unfolding sh_run_def Let_def assms(2) [symmetric] by (simp add: assms(3))
  have len: "length argv \<le> 16" using assms(2) by (simp add: MAX_ARGS_def)
  have words: "unat (sh_words e) = length (name_words n)"
    if "Some (n, e) \<in> set cmds" "name_matches n argv" for n e
  proof -
    have "length (name_words n) \<le> length argv"
      using that(2) unfolding name_matches_words by (metis length_take min.cobounded1)
    with len that(1) assms(1) show ?thesis by (simp add: shell_wf_def unat_count_words)
  qed
  have dist: "distinct (entry_names cmds)" using assms(1) by (simp add: shell_wf_def)
  show ?thesis
  proof (cases "best_cmd cmds argv")
    case None
    with best_cmd_ok [of cmds argv] have "\<not> name_matches n argv" if "get_entry cmds n = Some e" for n e
      using get_entry_set [OF that] by (auto simp: best_ok_def)
    with None run show ?thesis by (auto simp: name_matches_words)
  next
    case (Some ne)
    then obtain name e where ne: "best_cmd cmds argv = Some (name, e)" by (cases ne) simp
    with best_cmd_ok [of cmds argv] have in_t: "Some (name, e) \<in> set cmds" and m: "name_matches name argv"
      and best: "\<And>n f. Some (n, f) \<in> set cmds \<Longrightarrow> name_matches n argv \<Longrightarrow> sh_words f \<le> sh_words e"
      by (auto simp: best_ok_def)
    have "length (name_words n) \<le> length (name_words name)"
      if "get_entry cmds n = Some f" "name_matches n argv" for n f
      using best [OF get_entry_set [OF that(1)] that(2)] words [OF get_entry_set [OF that(1)] that(2)]
        words [OF in_t m] by (simp add: word_le_nat_alt)
    with ne run words [OF in_t m] m set_get_entry [OF dist in_t] show ?thesis
      by (intro disjI1 exI [of _ name] exI [of _ e]) (simp add: name_matches_words)
  qed
qed

definition shell_sample :: "unit sc_shell" where
  "shell_sample =
     [Some (''get'', \<lparr>sh_help = None, sh_handler = AppCmd (\<lambda>argv out w. (6, out, w)), sh_words = 1\<rparr>),
      Some (''get x'', \<lparr>sh_help = None, sh_handler = AppCmd (\<lambda>argv out w. (int (length argv), out, w)),
        sh_words = 2\<rparr>), None]"

theorem shell_runs_longest_match_witness:
  "fst (sh_run (\<lambda>h argv out w. case h of AppCmd f \<Rightarrow> f argv out w | _ \<Rightarrow> (0, out, w))
    shell_sample ''get x 5'' (sc_shell_out ''....'' 4) ()) = 1"
proof -
  have w: "shell_wf shell_sample"
    by (auto simp: shell_wf_def shell_sample_def count_words_def)
  have a: "[''get'', ''x'', ''5''] = take MAX_ARGS (strtok_words (cstr ''get x 5''))" by code_simp
  have n: "name_words ''get'' = [''get'']" "name_words ''get x'' = [''get'', ''x'']" by code_simp+
  have g: "get_entry shell_sample m =
      (if m = ''get'' then Some \<lparr>sh_help = None, sh_handler = AppCmd (\<lambda>argv out w. (6, out, w)), sh_words = 1\<rparr>
       else if m = ''get x'' then Some \<lparr>sh_help = None,
         sh_handler = AppCmd (\<lambda>argv out w. (int (length argv), out, w)), sh_words = 2\<rparr> else None)" for m
    by (auto simp: shell_sample_def)
  from shell_runs_longest_match [OF w a, of "\<lambda>h argv out w. case h of AppCmd f \<Rightarrow> f argv out w | _ \<Rightarrow> (0, out, w)"
      "sc_shell_out ''....'' 4" "()"]
  show ?thesis using n by (auto simp: g split: if_split_asm) (metis length_Cons list.size(3) take_Suc_Cons take_0)
qed

end
