(* ===== verification/Builtins.thy ===== *)
theory Builtins
  imports Rpc_Answer Rpc_Call Ota Log_Uplink Shell
begin

text \<open>
  The request handlers of \<open>sc_client::register_builtin_methods\<close> (\<open>src/sc_client.cpp\<close>), and the
  client's own publishing functions.

  The handlers read and change \<open>client_world\<close>: the log uplink, the update, the shell's output buffer,
  and the calls made into ESP-IDF and on9log, in order. What the chip and the timer answer comes from
  \<open>client_env\<close>, as a function of the calls made so far.
\<close>

subsection \<open>The world of the handlers\<close>

datatype client_call =
    StartTimer u64
  | On9logTag string int
  | EspLogTag string int
  | On9logLevel int
  | MarkValid
  | SetTime int int

record 'r client_world =
  cw_logs :: "'r log_uplink"
  cw_ota :: sc_ota
  cw_shell_out :: string
  cw_calls :: "client_call list"

text \<open>\<open>cx_chip\<close>: what the chip reports, also to the shell; \<open>cx_label\<close>: the running partition's label.\<close>

record client_env =
  cx_chip :: "client_call list \<Rightarrow> shell_env"
  cx_label :: string
  cx_boot_id :: u32
  cx_timer :: "client_call list \<Rightarrow> esp_err"
  cx_task_created :: "client_call list \<Rightarrow> bool"

definition cw_call :: "client_call \<Rightarrow> 'r client_world \<Rightarrow> 'r client_world" where
  "cw_call c w = w\<lparr>cw_calls := cw_calls w @ [c]\<rparr>"

definition SHELL_OUT_SIZE :: "kconfig \<Rightarrow> nat" where
  "SHELL_OUT_SIZE cfg = k_result_max cfg div 2"

subsection \<open>The handlers\<close>

text \<open>\<open>char buf[n] = {}\<close>.\<close>

definition zeroed :: "nat \<Rightarrow> string" where
  "zeroed n = replicate n NUL"

text \<open>
  \<open>table\<close> is the command table when the request is answered; commands are registered before the
  client is started.
\<close>

definition shell_method ::
    "kconfig \<Rightarrow> client_env \<Rightarrow> 'r client_world sc_shell \<Rightarrow> 'r client_world rpc_handler" where
  "shell_method cfg cenv table m params out w =
     (let s1 = get_str params 0 ''line'' 520;
          line = write_out (zeroed 520) s1 in
      if \<not> fst s1
      then (ESP_ERR_INVALID_ARG, call_fail ''params.line must be a string of at most 519 bytes'', out, w)
      else
        let (code, sh, w) = run (cx_chip cenv (cw_calls w)) table line
              (sc_shell_out (cw_shell_out w) (SHELL_OUT_SIZE cfg)) w;
            out = add_int (Some ''code'') (word_of_int code) out;
            out = add_str_len (Some ''output'') (take (so_len sh) (so_buf sh)) out;
            out = (if so_truncated sh then add_bool (Some ''truncated'') True out else out)
        in (ESP_OK, [], out, w\<lparr>cw_shell_out := so_buf sh\<rparr>))"

definition reboot_method :: "client_env \<Rightarrow> 'r client_world rpc_handler" where
  "reboot_method cenv m params out w =
     (let delay_ms = (case get_int params 0 ''delayMs'' of None \<Rightarrow> 500 | Some d \<Rightarrow> d);
          delay_ms = (if delay_ms < 200 then 200 else delay_ms)
      in (cx_timer cenv (cw_calls w), [], out, cw_call (StartTimer (word_of_int delay_ms * 1000)) w))"

definition info_method :: "client_env \<Rightarrow> 'r client_world rpc_handler" where
  "info_method cenv m params out w =
     (let ev = cx_chip cenv (cw_calls w);
          out = add_str (Some ''sdk'') (Some (ev_idf_ver ev))
                  (add_str (Some ''version'') (Some (ev_version ev)) (add_str (Some ''project'') (Some (ev_project ev)) out));
          out = add_fmt (Some ''buildTime'') (Some (cstr (ev_date ev) @ '' '' @ cstr (ev_time ev))) out;
          out = add_hex (Some ''elfSha256'') (take 32 (ev_elf_sha256 ev)) out;
          out = add_str (Some ''partition'') (Some (cx_label cenv)) (add_str (Some ''chip'') (Some (ev_target ev)) out);
          out = add_int (Some ''resetReason'') (of_nat (ev_reset_reason ev))
                  (add_uint (Some ''bootId'') (ucast (cx_boot_id cenv))
                    (add_uint (Some ''uptimeMs'') (word_of_int (ev_time_us ev div 1000)) out));
          out = begin_object (Some ''heap'') out;
          out = add_uint (Some ''free'') (ucast (hi_free (ev_internal ev))) out;
          out = add_uint (Some ''minFree'') (ucast (hi_min_free (ev_internal ev))) out;
          out = add_uint (Some ''largestBlock'') (ucast (hi_largest (ev_internal ev))) out;
          out = add_uint (Some ''psramFree'') (ucast (hi_free (ev_external ev))) out;
          out = end_object out
      in (ESP_OK, [], out, w))"

definition apply_tag_level :: "string \<times> int \<Rightarrow> 'r client_world \<Rightarrow> 'r client_world" where
  "apply_tag_level entry w = cw_call (EspLogTag (fst entry) (snd entry)) (cw_call (On9logTag (fst entry) (snd entry)) w)"

text \<open>\<open>cw_logs_do\<close> applies an operation of the log uplink.\<close>

definition cw_logs_do :: "('r log_uplink \<Rightarrow> 'r log_uplink) \<Rightarrow> 'r client_world \<Rightarrow> 'r client_world" where
  "cw_logs_do f w = w\<lparr>cw_logs := f (cw_logs w)\<rparr>"

definition log_config_method :: "'r client_world rpc_handler" where
  "log_config_method m params out w =
     (case decode_log_config params log_config_init of
        (ret, cfg, tags) \<Rightarrow>
          let w = fold apply_tag_level tags w in
          if ret \<noteq> ESP_OK then (ESP_ERR_INVALID_ARG, call_fail ''bad log.config params'', out, w)
          else
            let w = (if lc_level cfg \<ge> 0
                     then cw_call (EspLogTag ''*'' (lc_level cfg)) (cw_call (On9logLevel (lc_level cfg)) w) else w);
                w = (if lc_text cfg \<ge> 0 then cw_logs_do (set_text_enabled (lc_text cfg = 1)) w else w);
                w = (if lc_bin cfg \<ge> 0 then cw_logs_do (set_bin_enabled (lc_bin cfg = 1)) w else w)
            in (ESP_OK, [], out, w))"

definition ota_start_method :: "client_env \<Rightarrow> 'r client_world rpc_handler" where
  "ota_start_method cenv m params out w =
     (case decode_ota_params params 0 ota_params_init of
        (ret, ps) \<Rightarrow>
          if ret \<noteq> ESP_OK then (ESP_ERR_INVALID_ARG, call_fail ''bad ota.start params'', out, w)
          else
            let (ret, ota) = ota_start (cx_task_created cenv (cw_calls w)) ps (cw_ota w);
                w = w\<lparr>cw_ota := ota\<rparr>
            in if ret = ESP_ERR_INVALID_STATE
               then (ESP_ERR_INVALID_STATE, call_fail ''an update is already running'', out, w)
               else (ESP_OK, [], out, w))"

definition ota_cancel_method :: "'r client_world rpc_handler" where
  "ota_cancel_method m params out w =
     (let task_id = write_out (zeroed 40) (get_str params 0 ''taskId'' 40);
          (ret, ota) = ota_cancel task_id (cw_ota w);
          w = w\<lparr>cw_ota := ota\<rparr>
      in if ret \<noteq> ESP_OK then (ESP_ERR_NOT_FOUND, call_fail ''no such update running'', out, w)
         else (ESP_OK, [], out, w))"

text \<open>The command \<open>reset main_device\<close>.\<close>

definition reset_command :: "'r client_world app_handler" where
  "reset_command argv out w = (0, so_printf (Some (''Prepare to restart system!'' @ NL)) out, cw_call (StartTimer 500000) w)"

subsection \<open>Registration\<close>

definition builtin_methods ::
    "kconfig \<Rightarrow> client_env \<Rightarrow> 'r client_world sc_shell \<Rightarrow> (string \<times> 'r client_world rpc_handler) list" where
  "builtin_methods cfg cenv table =
     [(''shell'', shell_method cfg cenv table), (''reboot'', reboot_method cenv), (''info'', info_method cenv),
      (''log.config'', log_config_method), (''ota.start'', ota_start_method cenv), (''ota.cancel'', ota_cancel_method)]"

definition register_builtin_methods ::
    "kconfig \<Rightarrow> client_env \<Rightarrow> 'r client_world sc_shell \<Rightarrow>
     ('q, 'r client_world) sc_rpc \<times> 'r client_world sc_shell \<Rightarrow>
     esp_err \<times> ('q, 'r client_world) sc_rpc \<times> 'r client_world sc_shell" where
  "register_builtin_methods cfg cenv table s =
     (case s of (rp, shell) \<Rightarrow>
        let (ret, rp) = add_methods (builtin_methods cfg cenv table) rp;
            (ret, shell) = (if ret = ESP_OK
              then sh_add (Some ''reset main_device'') (Some ''Restart the device'') (Some (AppCmd reset_command)) shell
              else (ret, shell))
        in (ret, rp, shell))"

end
