(* ===== verification/Status.thy ===== *)
theory Status
  imports Builtins
begin

text \<open>
  \<open>sc_status\<close> (\<open>src/sc_status.hpp\<close>, \<open>src/sc_status.cpp\<close>): the birth and heartbeat reports. What
  the chip reports is an argument; so is the callback that adds members.
\<close>

record sc_status =
  st_boot_id :: u32
  st_extra :: "(sc_json_writer \<Rightarrow> sc_json_writer) option"
  st_buf :: string

definition STATUS_BUF :: nat where "STATUS_BUF = 640"

definition status_init :: "u32 \<Rightarrow> sc_status" where
  "status_init boot_id = \<lparr>st_boot_id = boot_id, st_extra = None, st_buf = zeroed STATUS_BUF\<rparr>"

definition set_extra_cb :: "(sc_json_writer \<Rightarrow> sc_json_writer) option \<Rightarrow> sc_status \<Rightarrow> sc_status" where
  "set_extra_cb cb st = st\<lparr>st_extra := cb\<rparr>"

definition status_msg :: "kconfig \<Rightarrow> shell_env \<Rightarrow> u32 \<Rightarrow> bool \<Rightarrow> sc_status_msg" where
  "status_msg cfg ev boot_id birth =
     \<lparr>sm_birth = birth, sm_uptime_ms = word_of_int (ev_time_us ev div 1000), sm_boot_id = boot_id,
      sm_reset_reason = int (ev_reset_reason ev), sm_fw_version = Some (ev_version ev), sm_project = Some (ev_project ev),
      sm_sdk_version = Some (ev_idf_ver ev), sm_elf_sha256 = Some (ev_elf_sha256 ev), sm_chip = Some (k_target cfg),
      sm_heap_free = hi_free (ev_internal ev), sm_heap_min_free = hi_min_free (ev_internal ev)\<rparr>"

definition status_report ::
    "kconfig \<Rightarrow> mqtt_env \<Rightarrow> shell_env \<Rightarrow> bool \<Rightarrow> sc_status \<times> sc_mqtt \<Rightarrow> esp_err \<times> sc_status \<times> sc_mqtt" where
  "status_report cfg menv ev birth s =
     (case s of (st, mq) \<Rightarrow>
        case encode_status (status_msg cfg ev (st_boot_id st) birth) (st_extra st) (st_buf st) STATUS_BUF of
          (ret, len, buf) \<Rightarrow>
            let st = st\<lparr>st_buf := buf\<rparr> in
            if ret \<noteq> ESP_OK then (ret, st, mq)
            else
              let (ret, mq) = publish menv ''status'' (take (the len) buf) (if birth then 1 else 0)
                    (Some \<lparr>pp_content_type = Some CONTENT_TYPE, pp_correlation = [], pp_response_topic = None\<rparr>) mq
              in (ret, st, mq))"

subsection \<open>What a report sends\<close>

definition status_message :: "kconfig \<Rightarrow> shell_env \<Rightarrow> (string \<times> json) list \<Rightarrow> bool \<Rightarrow> sc_status \<Rightarrow> string \<Rightarrow> string \<times> string \<times> int" where
  "status_message cfg ev es birth st up =
     (up @ ''status'', render (status_json (status_msg cfg ev (st_boot_id st) birth) es), if birth then 1 else 0)"

text \<open>The callback adds these members, and the report fits its buffer.\<close>

definition status_ok :: "kconfig \<Rightarrow> shell_env \<Rightarrow> (string \<times> json) list \<Rightarrow> bool \<Rightarrow> sc_status \<Rightarrow> bool" where
  "status_ok cfg ev es birth st \<longleftrightarrow> length (st_buf st) = STATUS_BUF \<and> (\<exists>d < MAX_DEPTH. cb_adds (st_extra st) d es) \<and>
     ev_reset_reason ev < 2 ^ 31 \<and>
     length (render (status_json (status_msg cfg ev (st_boot_id st) birth) es)) < STATUS_BUF"

lemma status_report_sends:
  assumes "status_ok cfg ev es birth st" and "env_takes menv" and "mq_connected mq" and "NUL \<notin> set (mq_up mq)"
    and "length (mq_up mq) \<le> 80"
  shows "\<exists>buf mq'. status_report cfg menv ev birth (st, mq) = (ESP_OK, st\<lparr>st_buf := buf\<rparr>, mq') \<and> length buf = STATUS_BUF \<and>
    sent mq' = sent mq @ [status_message cfg ev es birth st (mq_up mq)] \<and> mq_up mq' = mq_up mq \<and> mq_connected mq'"
proof -
  let ?msg = "status_msg cfg ev (st_boot_id st) birth"
  let ?x = "render (status_json ?msg es)"
  obtain d where d: "d < MAX_DEPTH" "cb_adds (st_extra st) d es" using assms(1) by (auto simp: status_ok_def)
  have "encodes (encode_status ?msg (st_extra st) (st_buf st) STATUS_BUF) STATUS_BUF ?x"
    using assms(1) d by (intro status_encodes) (auto simp: status_ok_def status_msg_def STATUS_BUF_def)
  then obtain b where b: "encode_status ?msg (st_extra st) (st_buf st) STATUS_BUF = (ESP_OK, Some (length ?x), b)"
    "length b = STATUS_BUF" "cstr b = ?x"
    using assms(1) unfolding encodes_def status_ok_def by auto
  have t: "take (length ?x) b = ?x" using b(3) by (metis cstr_def takeWhile_eq_take)
  obtain e mq' where p: "publish menv ''status'' ?x (if birth then 1 else 0)
      (Some \<lparr>pp_content_type = Some CONTENT_TYPE, pp_correlation = [], pp_response_topic = None\<rparr>) mq = (e, mq')" by fastforce
  have "e = ESP_OK" using publish_takes [OF assms(2-4), of "''status''"] p assms(5) by simp
  with publish_sent(2-4) [OF p] have "sent mq' = sent mq @ [status_message cfg ev es birth st (mq_up mq)]"
    "mq_up mq' = mq_up mq" "mq_connected mq'"
    using assms(3) by (simp_all add: status_message_def)
  moreover have "status_report cfg menv ev birth (st, mq) = (ESP_OK, st\<lparr>st_buf := b\<rparr>, mq')"
    using p \<open>e = ESP_OK\<close> by (simp add: status_report_def b(1) t)
  ultimately show ?thesis using b(2) by blast
qed

end
