(* ===== verification/Credentials.thy ===== *)
theory Credentials
  imports Codec Shell Kconfig
begin

text \<open>
  \<open>sc_credentials\<close> (\<open>src/sc_credentials.hpp\<close>, \<open>src/sc_credentials.cpp\<close>): the device identity,
  its storage in NVS and its enrollment over HTTPS.

  The NVS partition is a value of an arbitrary type \<open>'n\<close> used through \<open>nvs_api\<close>; what it holds is
  read by an abstraction function. The HTTP client and the chip are an environment; the requests made
  are recorded.
\<close>

subsection \<open>NVS\<close>

text \<open>
  \<open>nv_open\<close> takes whether the namespace is opened for writing; \<open>nv_get\<close> takes the key and the size
  of the buffer, and returns the string it stores there.
\<close>

record 'n nvs_api =
  nv_open :: "bool \<Rightarrow> 'n \<Rightarrow> esp_err"
  nv_get :: "string \<Rightarrow> nat \<Rightarrow> 'n \<Rightarrow> esp_err \<times> string"
  nv_set :: "string \<Rightarrow> string \<Rightarrow> 'n \<Rightarrow> esp_err \<times> 'n"
  nv_erase_all :: "'n \<Rightarrow> esp_err \<times> 'n"
  nv_commit :: "'n \<Rightarrow> esp_err \<times> 'n"

definition nvs_ok :: "'n nvs_api \<Rightarrow> ('n \<Rightarrow> string \<rightharpoonup> string) \<Rightarrow> bool" where
  "nvs_ok api view \<longleftrightarrow>
     (\<forall>n k cap v. nv_get api k cap n = (ESP_OK, v) \<longrightarrow> view n k = Some v \<and> length v < cap) \<and>
     (\<forall>n k v e n'. nv_set api k v n = (e, n') \<longrightarrow> view n' = (if e = ESP_OK then (view n)(k \<mapsto> v) else view n)) \<and>
     (\<forall>n e n'. nv_erase_all api n = (e, n') \<longrightarrow> view n' = (if e = ESP_OK then Map.empty else view n)) \<and>
     (\<forall>n. view (snd (nv_commit api n)) = view n)"

text \<open>Reading works: what is stored, and fits the buffer, can be read.\<close>

definition nvs_reads :: "'n nvs_api \<Rightarrow> ('n \<Rightarrow> string \<rightharpoonup> string) \<Rightarrow> bool" where
  "nvs_reads api view \<longleftrightarrow>
     (\<forall>n k v cap. view n k = Some v \<longrightarrow> nv_open api False n = ESP_OK \<and> (length v < cap \<longrightarrow> nv_get api k cap n = (ESP_OK, v)))"

definition KEY_DEVICE_ID :: string where "KEY_DEVICE_ID = ''dev_id''"
definition KEY_PASSWORD :: string where "KEY_PASSWORD = ''password''"
definition KEY_MQTT_URL :: string where "KEY_MQTT_URL = ''mqtt_url''"

subsection \<open>The stored identity\<close>

record sc_credentials =
  cr_identity :: sc_enroll_response

definition credentials_init :: sc_credentials where
  "credentials_init = \<lparr>cr_identity = enroll_response_init\<rparr>"

definition cred_valid :: "sc_credentials \<Rightarrow> bool" where
  "cred_valid cr \<longleftrightarrow> en_device_id (cr_identity cr) ! 0 \<noteq> NUL"

definition device_id :: "sc_credentials \<Rightarrow> string" where
  "device_id cr = cstr (en_device_id (cr_identity cr))"

definition cred_load :: "'n nvs_api \<Rightarrow> 'n \<Rightarrow> sc_credentials \<Rightarrow> esp_err \<times> sc_credentials" where
  "cred_load api n cr =
     (let ret = nv_open api False n in
      if ret = ESP_ERR_NVS_NOT_FOUND then (ESP_ERR_NOT_FOUND, cr)
      else if ret \<noteq> ESP_OK then (ret, cr)
      else
        let (r1, v1) = nv_get api KEY_DEVICE_ID 16 n;
            (r2, v2) = (if r1 = ESP_OK then nv_get api KEY_PASSWORD 48 n else (r1, []));
            (ret, v3) = (if r2 = ESP_OK then nv_get api KEY_MQTT_URL 160 n else (r2, [])) in
        if ret = ESP_ERR_NVS_NOT_FOUND then (ESP_ERR_NOT_FOUND, cr)
        else if ret \<noteq> ESP_OK then (ret, cr)
        else (ESP_OK, cr\<lparr>cr_identity := \<lparr>
               en_device_id = memcpy (en_device_id enroll_response_init) 0 (v1 @ [NUL]),
               en_password = memcpy (en_password enroll_response_init) 0 (v2 @ [NUL]),
               en_mqtt_url = memcpy (en_mqtt_url enroll_response_init) 0 (v3 @ [NUL])\<rparr>\<rparr>))"

definition cred_save :: "'n nvs_api \<Rightarrow> sc_enroll_response \<Rightarrow> 'n \<Rightarrow> esp_err \<times> 'n" where
  "cred_save api resp n =
     (let ret = nv_open api True n in
      if ret \<noteq> ESP_OK then (ret, n)
      else
        let (ret, n) = nv_set api KEY_DEVICE_ID (cstr (en_device_id resp)) n;
            (ret, n) = (if ret = ESP_OK then nv_set api KEY_PASSWORD (cstr (en_password resp)) n else (ret, n));
            (ret, n) = (if ret = ESP_OK then nv_set api KEY_MQTT_URL (cstr (en_mqtt_url resp)) n else (ret, n))
        in (if ret = ESP_OK then nv_commit api n else (ret, n)))"

definition cred_erase :: "'n nvs_api \<Rightarrow> 'n \<Rightarrow> sc_credentials \<Rightarrow> esp_err \<times> 'n \<times> sc_credentials" where
  "cred_erase api n cr =
     (let ret = nv_open api True n in
      if ret \<noteq> ESP_OK then (if ret = ESP_ERR_NVS_NOT_FOUND then ESP_OK else ret, n, cr)
      else
        let (ret, n) = nv_erase_all api n;
            (ret, n) = (if ret = ESP_OK then nv_commit api n else (ret, n))
        in (ret, n, cr\<lparr>cr_identity := enroll_response_init\<rparr>))"

subsection \<open>Enrollment\<close>

text \<open>
  \<open>hx_read\<close> takes how much of the body has been read and how much is wanted; None, and an empty
  string, stand for a result that is not positive.
\<close>

record enroll_env =
  hx_mac :: "u8 list"
  hx_fw_version :: string
  hx_malloc :: bool
  hx_init :: bool
  hx_open :: esp_err
  hx_write :: int
  hx_fetch :: int
  hx_status :: int
  hx_read :: "nat \<Rightarrow> nat \<Rightarrow> string option"

text \<open>The flash, and the requests written in full: the URL and the body.\<close>

record 'n enroll_world =
  hw_nvs :: 'n
  hw_posts :: "(string \<times> string) list"

definition RESPONSE_MAX :: nat where "RESPONSE_MAX = 1024"

text \<open>\<open>snprintf(..., MACSTR, MAC2STR(mac))\<close>.\<close>

definition hardware_id :: "enroll_env \<Rightarrow> string" where
  "hardware_id env = snprintf 18 (mac_text (take 6 (hx_mac env)))"

definition enroll_request :: "kconfig \<Rightarrow> enroll_env \<Rightarrow> string \<Rightarrow> string option \<Rightarrow> sc_enroll_request" where
  "enroll_request cfg env token name =
     \<lparr>er_token = Some token, er_hardware_id = Some (hardware_id env), er_platform = Some ''esp32'',
      er_chip = Some (k_target cfg), er_fw_version = Some (hx_fw_version env), er_name = name\<rparr>"

text \<open>The loop that reads the response; \<open>body\<close> is what has been read so far.\<close>

function read_body :: "enroll_env \<Rightarrow> string \<Rightarrow> string" where
  "read_body env body =
     (if length body < RESPONSE_MAX - 1
      then (case hx_read env (length body) (RESPONSE_MAX - 1 - length body) of
              None \<Rightarrow> body
            | Some x \<Rightarrow> if x = [] then body else read_body env (body @ x))
      else body)"
  by pat_completeness auto
termination
  by (relation "measure (\<lambda>(env, body). RESPONSE_MAX - 1 - length body)") (auto intro: diff_less_mono2)

declare read_body.simps [simp del]

text \<open>The HTTP exchange: the result, the status and the response.\<close>

definition exchange :: "enroll_env \<Rightarrow> string \<Rightarrow> esp_err \<times> int \<times> string" where
  "exchange env body =
     (let ret = hx_open env;
          ret = (if ret = ESP_OK \<and> hx_write env \<noteq> int (length body) then ESP_FAIL else ret);
          ret = (if ret = ESP_OK \<and> hx_fetch env < 0 then ESP_FAIL else ret)
      in if ret = ESP_OK then (ret, hx_status env, read_body env []) else (ret, 0, []))"

definition enroll ::
    "kconfig \<Rightarrow> enroll_env \<Rightarrow> 'n nvs_api \<Rightarrow> string option \<Rightarrow> string option \<Rightarrow> string option \<Rightarrow>
     sc_credentials \<times> 'n enroll_world \<Rightarrow> esp_err \<times> sc_credentials \<times> 'n enroll_world" where
  "enroll cfg env api api_url token name s =
     (case s of (cr, w) \<Rightarrow>
        case (api_url, token) of
          (Some base, Some tok) \<Rightarrow>
            if cstr tok = [] then (ESP_ERR_INVALID_ARG, cr, w)
            else
              let url = cstr base @ ''/v1/device/enroll'' in
              if length url \<ge> 192 then (ESP_ERR_INVALID_SIZE, cr, w)
              else
                case encode_enroll_request (enroll_request cfg env tok name) (replicate 320 NUL) 320 of
                  (ret, body_len, buf) \<Rightarrow>
                    if ret \<noteq> ESP_OK then (ret, cr, w)
                    else if \<not> hx_malloc env then (ESP_ERR_NO_MEM, cr, w)
                    else if \<not> hx_init env then (ESP_ERR_NO_MEM, cr, w)
                    else
                      let body = take (the body_len) buf;
                          w = (if hx_open env = ESP_OK \<and> hx_write env = int (length body)
                               then w\<lparr>hw_posts := hw_posts w @ [(url, body)]\<rparr> else w);
                          (ret, status, answer) = exchange env body in
                      if ret \<noteq> ESP_OK then (ret, cr, w)
                      else if status \<noteq> 201 then (if status = 401 then ESP_ERR_INVALID_STATE else ESP_FAIL, cr, w)
                      else
                        let (ret, resp) = decode_enroll_response answer enroll_response_init;
                            (ret, nvs) = (if ret = ESP_OK then cred_save api resp (hw_nvs w) else (ret, hw_nvs w));
                            w = w\<lparr>hw_nvs := nvs\<rparr> in
                        if ret \<noteq> ESP_OK then (ret, cr, w)
                        else (ESP_OK, cr\<lparr>cr_identity := resp\<rparr>, w)
        | _ \<Rightarrow> (ESP_ERR_INVALID_ARG, cr, w))"

subsection \<open>What is stored can be loaded\<close>

lemma nvs_setD: "nvs_ok api view \<Longrightarrow> nv_set api k v n = (e, n') \<Longrightarrow>
    view n' = (if e = ESP_OK then (view n)(k \<mapsto> v) else view n)"
  unfolding nvs_ok_def by blast

lemma cred_save_stores:
  assumes "nvs_ok api view" and "cred_save api resp n = (ESP_OK, n')"
  shows "view n' KEY_DEVICE_ID = Some (cstr (en_device_id resp)) \<and> view n' KEY_PASSWORD = Some (cstr (en_password resp)) \<and>
    view n' KEY_MQTT_URL = Some (cstr (en_mqtt_url resp))"
proof -
  obtain e1 n1 where 1: "nv_set api KEY_DEVICE_ID (cstr (en_device_id resp)) n = (e1, n1)" by fastforce
  obtain e2 n2 where 2: "nv_set api KEY_PASSWORD (cstr (en_password resp)) n1 = (e2, n2)" by fastforce
  obtain e3 n3 where 3: "nv_set api KEY_MQTT_URL (cstr (en_mqtt_url resp)) n2 = (e3, n3)" by fastforce
  have "e1 = ESP_OK \<and> e2 = ESP_OK \<and> e3 = ESP_OK \<and> nv_commit api n3 = (ESP_OK, n')"
    using assms(2) 1 2 3 by (auto simp: cred_save_def Let_def split: if_splits)
  moreover have "view (snd (nv_commit api n3)) = view n3" using assms(1) unfolding nvs_ok_def by blast
  ultimately have "view n' = (view n)(KEY_DEVICE_ID \<mapsto> cstr (en_device_id resp), KEY_PASSWORD \<mapsto> cstr (en_password resp),
      KEY_MQTT_URL \<mapsto> cstr (en_mqtt_url resp))"
    using nvs_setD [OF assms(1) 1] nvs_setD [OF assms(1) 2] nvs_setD [OF assms(1) 3] by auto
  then show ?thesis by (simp add: KEY_DEVICE_ID_def KEY_PASSWORD_def KEY_MQTT_URL_def)
qed

lemma cstr_stored: "NUL \<notin> set v \<Longrightarrow> cstr (memcpy buf 0 (v @ [NUL])) = v"
  by (simp add: memcpy_def)

lemma cred_load_stored:
  assumes "nvs_reads api view" and "view n KEY_DEVICE_ID = Some d" and "view n KEY_PASSWORD = Some p"
    and "view n KEY_MQTT_URL = Some u" and "length d < 16" and "length p < 48" and "length u < 160"
    and "NUL \<notin> set d" and "NUL \<notin> set p" and "NUL \<notin> set u"
  shows "\<exists>cr'. cred_load api n cr = (ESP_OK, cr') \<and> cstr (en_device_id (cr_identity cr')) = d \<and>
    cstr (en_password (cr_identity cr')) = p \<and> cstr (en_mqtt_url (cr_identity cr')) = u"
proof -
  have "nv_open api False n = ESP_OK" "nv_get api KEY_DEVICE_ID 16 n = (ESP_OK, d)"
    "nv_get api KEY_PASSWORD 48 n = (ESP_OK, p)" "nv_get api KEY_MQTT_URL 160 n = (ESP_OK, u)"
    using assms(1-7) unfolding nvs_reads_def by blast+
  with assms(8-10) show ?thesis by (simp add: cred_load_def cstr_stored)
qed

subsection \<open>Properties\<close>

lemma encoded_text:
  assumes "\<exists>b. length b = cap \<and> (if length x < cap then (ESP_OK, len, buf) = (ESP_OK, Some (length x), b) \<and> cstr b = x
    else (ESP_OK, len, buf) = (ESP_ERR_NO_MEM, None, b))"
  shows "take (the len) buf = x"
proof -
  from assms have "len = Some (length x)" "cstr buf = x" by (auto split: if_splits)
  then show ?thesis by (metis cstr_def option.sel takeWhile_eq_take)
qed

text \<open>The four outcomes of an enrollment.\<close>

lemma exchange_ok:
  assumes "exchange env body = (ESP_OK, st, answer)"
  shows "hx_open env = ESP_OK \<and> hx_write env = int (length body) \<and> st = hx_status env \<and> answer = read_body env []"
  using assms by (auto simp: exchange_def Let_def split: if_splits)

lemma enroll_cases:
  assumes "enroll cfg env api api_url token name (cr, w) = (ret, cr', w')"
  obtains (early) "ret \<noteq> ESP_OK" "cr' = cr" "w' = w"
  | (refused) url body where "ret \<noteq> ESP_OK" "cr' = cr" "hw_nvs w' = hw_nvs w" "hw_posts w' = hw_posts w @ [(url, body)]"
  | (unsaved) resp where "ret \<noteq> ESP_OK" "cr' = cr" "hx_status env = 201"
      "decode_enroll_response (read_body env []) enroll_response_init = (ESP_OK, resp)"
      "cred_save api resp (hw_nvs w) = (ret, hw_nvs w')"
  | (enrolled) base tok len buf resp where "ret = ESP_OK" "api_url = Some base" "token = Some tok" "cstr tok \<noteq> []"
      "encode_enroll_request (enroll_request cfg env tok name) (replicate 320 NUL) 320 = (ESP_OK, len, buf)"
      "hw_posts w' = hw_posts w @ [(cstr base @ ''/v1/device/enroll'', take (the len) buf)]" "hx_status env = 201"
      "decode_enroll_response (read_body env []) enroll_response_init = (ESP_OK, resp)"
      "cred_save api resp (hw_nvs w) = (ESP_OK, hw_nvs w')" "cr' = cr\<lparr>cr_identity := resp\<rparr>"
proof -
  consider (none) "api_url = None \<or> token = None" | (both) base tok where "api_url = Some base" "token = Some tok"
    by (cases api_url; cases token) auto
  then show thesis
  proof cases
    case none
    with assms show thesis by (intro early) (auto simp: enroll_def split: option.splits)
  next
    case both
    define buf0 :: string where "buf0 = replicate 320 NUL"
    obtain r len buf where e: "encode_enroll_request (enroll_request cfg env tok name) buf0 320 = (r, len, buf)"
      by (cases "encode_enroll_request (enroll_request cfg env tok name) buf0 320")
    let ?body = "take (the len) buf" and ?url = "cstr base @ ''/v1/device/enroll''"
    define w1 where "w1 = (if hx_open env = ESP_OK \<and> hx_write env = int (length ?body)
        then w\<lparr>hw_posts := hw_posts w @ [(?url, ?body)]\<rparr> else w)"
    obtain ex st answer where x: "exchange env ?body = (ex, st, answer)" by (cases "exchange env ?body")
    obtain d resp where dec: "decode_enroll_response answer enroll_response_init = (d, resp)" by fastforce
    obtain sv nvs where sv: "(if d = ESP_OK then cred_save api resp (hw_nvs w1) else (d, hw_nvs w1)) = (sv, nvs)"
      by fastforce
    have n1: "hw_nvs w1 = hw_nvs w" by (simp add: w1_def)
    have u: "(if cstr tok = [] then (ESP_ERR_INVALID_ARG, cr, w)
        else if length ?url \<ge> 192 then (ESP_ERR_INVALID_SIZE, cr, w)
        else if r \<noteq> ESP_OK then (r, cr, w)
        else if \<not> hx_malloc env then (ESP_ERR_NO_MEM, cr, w)
        else if \<not> hx_init env then (ESP_ERR_NO_MEM, cr, w)
        else if ex \<noteq> ESP_OK then (ex, cr, w1)
        else if st \<noteq> 201 then (if st = 401 then ESP_ERR_INVALID_STATE else ESP_FAIL, cr, w1)
        else if sv \<noteq> ESP_OK then (sv, cr, w1\<lparr>hw_nvs := nvs\<rparr>)
        else (ESP_OK, cr\<lparr>cr_identity := resp\<rparr>, w1\<lparr>hw_nvs := nvs\<rparr>)) = (ret, cr', w')"
      using assms unfolding enroll_def both option.case prod.case Let_def buf0_def [symmetric] e
        w1_def [symmetric] x dec sv .
    consider (e) "ret \<noteq> ESP_OK" "cr' = cr" "w' = w"
      | (x) "ret \<noteq> ESP_OK" "cr' = cr" "w' = w1"
      | (s) "ex = ESP_OK" "st = 201" "ret = sv" "sv \<noteq> ESP_OK" "cr' = cr" "w' = w1\<lparr>hw_nvs := nvs\<rparr>"
      | (k) "ex = ESP_OK" "st = 201" "ret = ESP_OK" "sv = ESP_OK" "r = ESP_OK" "cstr tok \<noteq> []" "cr' = cr\<lparr>cr_identity := resp\<rparr>"
        "w' = w1\<lparr>hw_nvs := nvs\<rparr>"
      using u by (auto split: if_splits)
    then show thesis
    proof cases
      case e then show thesis by (rule early)
    next
      case x then show thesis
        by (cases "hx_open env = ESP_OK \<and> hx_write env = int (length ?body)") (use early refused in \<open>auto simp: w1_def\<close>)
    next
      case s
      note o = exchange_ok [OF x [unfolded s(1)]]
      show thesis
      proof (cases "d = ESP_OK")
        case True
        with s sv dec o n1 show thesis by (intro unsaved [of resp]) auto
      next
        case False
        with s sv n1 o show thesis by (intro refused [of ?url ?body]) (auto simp: w1_def)
      qed
    next
      case k
      note o = exchange_ok [OF x [unfolded k(1)]]
      have "d = ESP_OK" using sv k(4) by (auto split: if_splits)
      with k sv n1 o e dec both show thesis
        by (intro enrolled [of base tok len buf resp]) (auto simp: w1_def buf0_def [symmetric])
    qed
  qed
qed

text \<open>
  C19: An enrolled device stays enrolled. After a successful enrollment one request was sent, the JSON
  of the token and the device's description to \<open><api_url>/v1/device/enroll\<close>; the device answers under the identity the platform issued with status
  201; and, provided NVS keeps what it stored, loading the credentials after any restart succeeds and
  gives the same device ID, password and broker URL.
\<close>

theorem enroll_then_load:
  assumes "enroll cfg env api api_url token name (cr, w) = (ESP_OK, cr', w')"
    and "nvs_ok api view" and "nvs_reads api view"
  shows "(\<exists>base tok. api_url = Some base \<and> token = Some tok \<and> hw_posts w' = hw_posts w @
      [(cstr base @ ''/v1/device/enroll'', render (enroll_request_json (enroll_request cfg env tok name)))]) \<and>
    hx_status env = 201 \<and>
    decode_enroll_response (read_body env []) enroll_response_init = (ESP_OK, cr_identity cr') \<and>
    (\<exists>cr''. cred_load api (hw_nvs w') credentials_init = (ESP_OK, cr'') \<and> device_id cr'' = device_id cr' \<and>
      cstr (en_password (cr_identity cr'')) = cstr (en_password (cr_identity cr')) \<and>
      cstr (en_mqtt_url (cr_identity cr'')) = cstr (en_mqtt_url (cr_identity cr')))"
  using assms(1)
proof (cases rule: enroll_cases)
  case (enrolled base tok len buf resp)
  note s = cred_save_stores [OF assms(2) enrolled(9)]
  note f = decode_enroll_response_fields [OF enrolled(8) enroll_response_init_ok]
  from cred_load_stored [OF assms(3) s [THEN conjunct1] s [THEN conjunct2, THEN conjunct1] s [THEN conjunct2, THEN conjunct2],
      where cr = credentials_init] f enrolled(10)
  have "\<exists>cr''. cred_load api (hw_nvs w') credentials_init = (ESP_OK, cr'') \<and> device_id cr'' = device_id cr' \<and>
      cstr (en_password (cr_identity cr'')) = cstr (en_password (cr_identity cr')) \<and>
      cstr (en_mqtt_url (cr_identity cr'')) = cstr (en_mqtt_url (cr_identity cr'))"
    by (auto simp: device_id_def)
  moreover have "take (the len) buf = render (enroll_request_json (enroll_request cfg env tok name))"
  proof -
    define b where "b = replicate 320 NUL"
    have "encodes (ESP_OK, len, buf) 320 (render (enroll_request_json (enroll_request cfg env tok name)))"
      using enroll_request_encodes [of b 320 "enroll_request cfg env tok name"] enrolled(5) by (simp add: b_def)
    then show ?thesis unfolding encodes_def by (rule encoded_text)
  qed
  ultimately show ?thesis using enrolled by simp
qed simp_all

text \<open>
  C35: A failed enrollment changes nothing it should not. Whatever goes wrong, the identity in use stays as
  it was; NVS is touched only after the platform answered 201 with a
  valid identity.
\<close>

theorem enroll_failure:
  assumes "enroll cfg env api api_url token name (cr, w) = (ret, cr', w')" and "ret \<noteq> ESP_OK"
  shows "cr' = cr \<and> (hw_nvs w' = hw_nvs w \<or> hx_status env = 201 \<and>
    (\<exists>resp. decode_enroll_response (read_body env []) enroll_response_init = (ESP_OK, resp) \<and>
      cred_save api resp (hw_nvs w) = (ret, hw_nvs w')))"
  using assms(1) by (cases rule: enroll_cases) (use assms(2) in auto)

subsection \<open>A sample enrollment\<close>

definition map_nvs :: "(string \<rightharpoonup> string) nvs_api" where
  "map_nvs = \<lparr>nv_open = (\<lambda>rw n. ESP_OK),
     nv_get = (\<lambda>k cap n. case n k of None \<Rightarrow> (ESP_ERR_NVS_NOT_FOUND, [])
       | Some v \<Rightarrow> if length v < cap then (ESP_OK, v) else (ESP_ERR_OTHER 1, [])),
     nv_set = (\<lambda>k v n. (ESP_OK, n(k \<mapsto> v))), nv_erase_all = (\<lambda>n. (ESP_OK, Map.empty)),
     nv_commit = (\<lambda>n. (ESP_OK, n))\<rparr>"

lemma map_nvs_ok: "nvs_ok map_nvs (\<lambda>n. n)"
  by (auto simp: nvs_ok_def map_nvs_def split: option.splits if_splits)

lemma map_nvs_reads: "nvs_reads map_nvs (\<lambda>n. n)"
  by (simp add: nvs_reads_def map_nvs_def)

definition sample_response :: string where
  "sample_response = render (JObj [(''deviceId'', JStr ''dev1''),
     (''mqtt'', JObj [(''url'', JStr ''wss://x''), (''password'', JStr ''pw'')])])"

definition sample_enroll :: "int \<Rightarrow> enroll_env" where
  "sample_enroll status = \<lparr>hx_mac = [1, 2, 3, 4, 5, 6], hx_fw_version = ''1'', hx_malloc = True, hx_init = True,
     hx_open = ESP_OK, hx_write = int (length (render (enroll_request_json \<lparr>er_token = Some ''tok'',
       er_hardware_id = Some (snprintf 18 (mac_text [1, 2, 3, 4, 5, 6])), er_platform = Some ''esp32'', er_chip = Some ''esp32'',
       er_fw_version = Some ''1'', er_name = None\<rparr>))), hx_fetch = 1, hx_status = status,
     hx_read = (\<lambda>n want. Some (take want (drop n sample_response)))\<rparr>"

lemma sample_body: "read_body (sample_enroll st) [] = sample_response"
proof -
  have n: "0 < length sample_response" "length sample_response < 1023"
    unfolding sample_response_def by code_simp+
  have r: "hx_read (sample_enroll st) k want = Some (take want (drop k sample_response))" for k want
    by (simp add: sample_enroll_def)
  have "read_body (sample_enroll st) sample_response = sample_response"
    using n by (subst read_body.simps) (simp add: r RESPONSE_MAX_def)
  with n show ?thesis by (subst read_body.simps) (simp add: r RESPONSE_MAX_def)
qed

lemma sample_decoded: "\<exists>resp. decode_enroll_response sample_response enroll_response_init = (ESP_OK, resp)"
proof -
  have "json_size (JObj [(''deviceId'', JStr ''dev1''), (''mqtt'', JObj [(''url'', JStr ''wss://x''), (''password'', JStr ''pw'')])]) \<le> 48"
    by simp
  from decode_enroll_response_render(1) [OF this, of enroll_response_init] show ?thesis
    unfolding sample_response_def [symmetric]
    by (cases "decode_enroll_response sample_response enroll_response_init") (auto simp: str_member_def json_member_def cstr_def)
qed

lemma sample_encoded:
  "\<exists>buf. encode_enroll_request (enroll_request kconfig_default (sample_enroll st) ''tok'' None) (replicate 320 NUL) 320 =
      (ESP_OK, Some (nat (hx_write (sample_enroll st))), buf) \<and> hx_write (sample_enroll st) < 320 \<and> length buf = 320"
proof -
  define b where "b = replicate 320 NUL"
  let ?req = "enroll_request kconfig_default (sample_enroll st) ''tok'' None"
  have l: "hx_write (sample_enroll st) = int (length (render (enroll_request_json ?req)))"
    by (simp add: sample_enroll_def enroll_request_def hardware_id_def kconfig_default_def del: render.simps)
  have "length (render (enroll_request_json ?req)) < 320"
    unfolding enroll_request_def sample_enroll_def hardware_id_def by code_simp
  with enroll_request_encodes [of b 320 ?req] l show ?thesis
    unfolding b_def [symmetric] by (auto simp: encodes_def b_def simp del: render.simps)
qed

lemma sample_enrolled:
  "\<exists>cr w. enroll kconfig_default (sample_enroll 201) map_nvs (Some ''https://h'') (Some ''tok'') None
    (credentials_init, \<lparr>hw_nvs = Map.empty, hw_posts = []\<rparr>) = (ESP_OK, cr, w)"
proof -
  obtain buf where e: "encode_enroll_request (enroll_request kconfig_default (sample_enroll 201) ''tok'' None) (replicate 320 NUL) 320 =
      (ESP_OK, Some (nat (hx_write (sample_enroll 201))), buf)" "hx_write (sample_enroll 201) < 320" "length buf = 320"
    using sample_encoded by blast
  have w: "0 \<le> hx_write (sample_enroll 201)" by (simp add: sample_enroll_def del: render.simps)
  obtain resp where d: "decode_enroll_response sample_response enroll_response_init = (ESP_OK, resp)" using sample_decoded by blast
  have x: "exchange (sample_enroll 201) (take (nat (hx_write (sample_enroll 201))) buf) = (ESP_OK, 201, sample_response)"
    using e(2,3) w sample_body [of 201]
    by (simp add: exchange_def Let_def) (simp add: sample_enroll_def del: render.simps)
  have "hx_malloc (sample_enroll 201)" "hx_init (sample_enroll 201)" by (simp_all add: sample_enroll_def)
  then show ?thesis
    unfolding enroll_def prod.case option.case e(1) Let_def
    using x d by (simp add: cred_save_def map_nvs_def cstr_def)
qed

theorem enroll_then_load_witness:
  "\<exists>cr w cr'. enroll kconfig_default (sample_enroll 201) map_nvs (Some ''https://h'') (Some ''tok'') None
      (credentials_init, \<lparr>hw_nvs = Map.empty, hw_posts = []\<rparr>) = (ESP_OK, cr, w) \<and> length (hw_posts w) = 1 \<and>
    cred_load map_nvs (hw_nvs w) credentials_init = (ESP_OK, cr') \<and> device_id cr' = device_id cr"
proof -
  obtain cr w where r: "enroll kconfig_default (sample_enroll 201) map_nvs (Some ''https://h'') (Some ''tok'') None
      (credentials_init, \<lparr>hw_nvs = Map.empty, hw_posts = []\<rparr>) = (ESP_OK, cr, w)"
    using sample_enrolled by blast
  from enroll_then_load [OF r map_nvs_ok map_nvs_reads] r show ?thesis by auto
qed

theorem enroll_failure_witness:
  "\<exists>cr w. enroll kconfig_default (sample_enroll 201) map_nvs (Some ''https://h'') (Some []) None
      (credentials_init, \<lparr>hw_nvs = Map.empty, hw_posts = []\<rparr>) = (ESP_ERR_INVALID_ARG, cr, w) \<and> cr = credentials_init"
proof -
  have "fst (enroll kconfig_default (sample_enroll 201) map_nvs (Some ''https://h'') (Some []) None
      (credentials_init, \<lparr>hw_nvs = Map.empty, hw_posts = []\<rparr>)) = ESP_ERR_INVALID_ARG"
    by (simp add: enroll_def cstr_def)
  then obtain cr w where r: "enroll kconfig_default (sample_enroll 201) map_nvs (Some ''https://h'') (Some []) None
      (credentials_init, \<lparr>hw_nvs = Map.empty, hw_posts = []\<rparr>) = (ESP_ERR_INVALID_ARG, cr, w)"
    by (metis prod.collapse)
  from enroll_failure [OF r] r show ?thesis by auto
qed

end
