(* ===== verification/Mqtt_Rx.thy ===== *)
theory Mqtt_Rx
  imports Rpc_Call
begin

text \<open>
  The receiving half of \<open>sc_mqtt\<close>: \<open>event_handler\<close>, \<open>start_request\<close> and \<open>handle_data\<close>
  (\<open>src/sc_mqtt.cpp\<close>), which run on the esp-mqtt task and write requests into the slots of
  \<open>sc_rpc\<close>. The state of both objects is passed along as a pair.

  An event carries its topic, payload bytes and properties as strings; esp-mqtt splits a message
  over several data events, of which the first carries the topic and the properties.
\<close>

subsection \<open>Events\<close>

record mqtt_rx_props =
  xp_correlation :: string
  xp_response_topic :: string

record mqtt_data =
  dt_topic :: string
  dt_data :: string
  dt_offset :: nat
  dt_total :: nat
  dt_props :: "mqtt_rx_props option"

datatype mqtt_event = MqttConnected | MqttDisconnected | MqttData mqtt_data | MqttError | MqttOther

subsection \<open>Requests\<close>

definition set_slot :: "nat \<Rightarrow> sc_rpc_slot \<Rightarrow> ('q, 'w) sc_rpc \<Rightarrow> ('q, 'w) sc_rpc" where
  "set_slot idx slot rp = rp\<lparr>rp_slots := (rp_slots rp)[idx := slot]\<rparr>"

definition dotted :: "string \<Rightarrow> string" where
  "dotted m = map (\<lambda>c. if c = CHR ''/'' then CHR ''.'' else c) m"

text \<open>What \<open>start_request\<close> writes into the slot it took.\<close>

definition fill_slot :: "kconfig \<Rightarrow> mqtt_data \<Rightarrow> string \<Rightarrow> sc_rpc_slot \<Rightarrow> sc_rpc_slot" where
  "fill_slot cfg evt method slot =
     (let copy_len = (if length method < 47 then length method else 47);
          slot = slot\<lparr>sl_method := (memcpy (sl_method slot) 0 (dotted (take copy_len method)))[copy_len := NUL]\<rparr>;
          slot = (case dt_props evt of
              None \<Rightarrow> slot
            | Some p \<Rightarrow> if length (xp_correlation p) > 0 \<and> length (xp_correlation p) \<le> 64
                        then slot\<lparr>sl_correlation := memcpy (sl_correlation slot) 0 (xp_correlation p),
                                  sl_correlation_len := length (xp_correlation p)\<rparr>
                        else slot);
          slot = (case dt_props evt of
              None \<Rightarrow> slot
            | Some p \<Rightarrow> if length (xp_response_topic p) > 0 \<and> length (xp_response_topic p) < 96
                        then slot\<lparr>sl_response_topic := (memcpy (sl_response_topic slot) 0 (xp_response_topic p))
                                    [length (xp_response_topic p) := NUL]\<rparr>
                        else slot)
      in slot\<lparr>sl_too_large := dt_total evt > k_payload_max cfg\<rparr>)"

definition start_request ::
    "kconfig \<Rightarrow> 'q queue_api \<Rightarrow> mqtt_data \<Rightarrow> string \<Rightarrow> ('q, 'w) sc_rpc \<times> sc_mqtt \<Rightarrow> ('q, 'w) sc_rpc \<times> sc_mqtt" where
  "start_request cfg api evt method s =
     (case take_free_slot api (fst s) of
        (None, rp) \<Rightarrow> (rp, (snd s)\<lparr>mq_rx_slot := None\<rparr>)
      | (Some idx, rp) \<Rightarrow>
          (set_slot idx (fill_slot cfg evt method (rp_slots rp ! idx)) rp, (snd s)\<lparr>mq_rx_slot := Some idx\<rparr>))"

subsection \<open>Data events\<close>

text \<open>The part of \<open>handle_data\<close> for the first event of a message; False: it returned early.\<close>

definition drop_rx_slot :: "'q queue_api \<Rightarrow> ('q, 'w) sc_rpc \<times> sc_mqtt \<Rightarrow> ('q, 'w) sc_rpc \<times> sc_mqtt" where
  "drop_rx_slot api s =
     (case mq_rx_slot (snd s) of
        None \<Rightarrow> s
      | Some idx \<Rightarrow> (give_back api idx (fst s), (snd s)\<lparr>mq_rx_slot := None\<rparr>))"

definition start_message ::
    "kconfig \<Rightarrow> 'q queue_api \<Rightarrow> mqtt_data \<Rightarrow> ('q, 'w) sc_rpc \<times> sc_mqtt \<Rightarrow> bool \<times> ('q, 'w) sc_rpc \<times> sc_mqtt" where
  "start_message cfg api evt s =
     (let (rp, mq) = drop_rx_slot api s;
          mq = mq\<lparr>mq_rx_response := False\<rparr> in
      if length (dt_topic evt) \<le> mq_down_len mq \<or> \<not> strncmp_eq (dt_topic evt) (mq_down mq) (mq_down_len mq)
      then (False, rp, mq)
      else
        let sub_topic = drop (mq_down_len mq) (dt_topic evt) in
        if length sub_topic > 4 \<and> strncmp_eq sub_topic ''req/'' 4
        then (True, start_request cfg api evt (drop 4 sub_topic) (rp, mq))
        else if length sub_topic = 3 \<and> strncmp_eq sub_topic ''res'' 3
        then (True, rp, mq\<lparr>mq_rx_response := True,
               mq_rx_correlation := (case dt_props evt of
                   None \<Rightarrow> []
                 | Some p \<Rightarrow> if length (xp_correlation p) \<le> 64 then xp_correlation p else [])\<rparr>)
        else (True, rp, mq))"

text \<open>The part for every event: the payload goes where the message goes.\<close>

definition store_payload :: "kconfig \<Rightarrow> nat \<Rightarrow> string \<Rightarrow> sc_rpc_slot \<Rightarrow> sc_rpc_slot" where
  "store_payload cfg offset data slot =
     (if \<not> sl_too_large slot \<and> offset + length data \<le> k_payload_max cfg
      then slot\<lparr>sl_payload := memcpy (sl_payload slot) offset data, sl_payload_len := offset + length data\<rparr>
      else slot)"

definition take_payload ::
    "kconfig \<Rightarrow> 'q queue_api \<Rightarrow> mqtt_data \<Rightarrow> ('q, 'w) sc_rpc \<times> sc_mqtt \<Rightarrow> ('q, 'w) sc_rpc \<times> sc_mqtt" where
  "take_payload cfg api evt s =
     (case s of (rp, mq) \<Rightarrow>
        let offset = dt_offset evt; len = length (dt_data evt) in
        if mq_rx_response mq
        then (deliver_response (mq_rx_correlation mq) (dt_data evt) offset (dt_total evt) rp, mq)
        else case mq_rx_slot mq of
          None \<Rightarrow> (rp, mq)
        | Some idx \<Rightarrow>
            let slot = store_payload cfg offset (dt_data evt) (rp_slots rp ! idx) in
            if offset + len \<ge> dt_total evt
            then (submit api idx (set_slot idx (slot\<lparr>sl_payload := (sl_payload slot)[sl_payload_len slot := NUL]\<rparr>) rp),
                  mq\<lparr>mq_rx_slot := None\<rparr>)
            else (set_slot idx slot rp, mq))"

definition handle_data ::
    "kconfig \<Rightarrow> 'q queue_api \<Rightarrow> mqtt_data \<Rightarrow> ('q, 'w) sc_rpc \<times> sc_mqtt \<Rightarrow> ('q, 'w) sc_rpc \<times> sc_mqtt" where
  "handle_data cfg api evt s =
     (let (go, s) = (if dt_offset evt = 0 then start_message cfg api evt s else (True, s)) in
      if go then take_payload cfg api evt s else s)"

definition notify :: "bool \<Rightarrow> sc_mqtt \<Rightarrow> sc_mqtt" where
  "notify up mq = (if mq_callback mq then mq\<lparr>mq_notified := mq_notified mq @ [up]\<rparr> else mq)"

fun event_handler ::
    "kconfig \<Rightarrow> 'q queue_api \<Rightarrow> mqtt_env \<Rightarrow> mqtt_event \<Rightarrow> ('q, 'w) sc_rpc \<times> sc_mqtt \<Rightarrow> ('q, 'w) sc_rpc \<times> sc_mqtt" where
  "event_handler cfg api env MqttConnected (rp, mq) =
     (let filter_topic = snprintf 40 (mq_down mq @ ''#'');
          ret = me_subscribe env (mq_calls mq);
          mq = mq_call (Subscribe filter_topic 1) mq in
      if ret < 0 then (rp, mq_call Disconnect mq)
      else (rp, notify True (mq\<lparr>mq_connected := True\<rparr>)))"
| "event_handler cfg api env MqttDisconnected (rp, mq) =
     (let was_connected = mq_connected mq;
          (rp, mq) = drop_rx_slot api (rp, mq\<lparr>mq_connected := False\<rparr>)
      in (rp, if was_connected then notify False mq else mq))"
| "event_handler cfg api env (MqttData evt) s = handle_data cfg api evt s"
| "event_handler cfg api env MqttError s = s"
| "event_handler cfg api env MqttOther s = s"

end
