(* ===== verification/Client.thy ===== *)
theory Client
  imports Status Credentials Rpc_Call Mqtt_Rx "HOL-Library.Signed_Division"
begin

text \<open>
  \<open>sc_client\<close> (\<open>include/soulcloud.hpp\<close>, \<open>src/sc_client.cpp\<close>): the request task and what it does
  when the connection comes up.

  The event group is a word of bits; tick counts are 32-bit words that wrap around. The clock is
  read at fixed points of a turn of the task, so a turn takes its readings as arguments. While the task
  waits for the answer of a call, the MQTT task delivers fragments; a call takes their sequence.
\<close>

subsection \<open>State\<close>

definition BIT_REQUEST :: u32 where "BIT_REQUEST = 1"
definition BIT_CALL_DONE :: u32 where "BIT_CALL_DONE = 2"
definition BIT_CONNECTED :: u32 where "BIT_CONNECTED = 4"
definition BIT_DISCONNECTED :: u32 where "BIT_DISCONNECTED = 8"
definition BIT_REPORT_STATUS :: u32 where "BIT_REPORT_STATUS = 16"

text \<open>
  \<open>cl_has_cb\<close> says whether a connection callback is set; \<open>cl_told\<close> records its calls.
\<close>

record ('q, 'r) client =
  cl_rpc :: "('q, 'r client_world) sc_rpc"
  cl_mqtt :: sc_mqtt
  cl_status :: sc_status
  cl_world :: "'r client_world"
  cl_first :: bool
  cl_has_cb :: bool
  cl_told :: "bool list"
  cl_events :: u32
  cl_next_report :: u32

unbundle bit_operations_syntax

definition has_bit :: "u32 \<Rightarrow> u32 \<Rightarrow> bool" where
  "has_bit bits b \<longleftrightarrow> bits AND b \<noteq> 0"

definition set_event :: "u32 \<Rightarrow> ('q, 'r) client \<Rightarrow> ('q, 'r) client" where
  "set_event b c = c\<lparr>cl_events := cl_events c OR b\<rparr>"

text \<open>\<open>xEventGroupWaitBits\<close> returns the bits and clears those it waited for.\<close>

definition WAIT_MASK :: u32 where
  "WAIT_MASK = BIT_REQUEST OR BIT_CONNECTED OR BIT_DISCONNECTED OR BIT_REPORT_STATUS"

definition take_events :: "('q, 'r) client \<Rightarrow> u32 \<times> ('q, 'r) client" where
  "take_events c = (cl_events c, c\<lparr>cl_events := cl_events c AND NOT WAIT_MASK\<rparr>)"

text \<open>
  What \<open>init\<close> wired: the signals of the RPC side, and the connection callback of the MQTT side, set
  event bits. An event of esp-mqtt, as the client sees it:
\<close>

definition signal_bit :: "signal \<Rightarrow> u32" where
  "signal_bit s = (case s of SetRequest \<Rightarrow> BIT_REQUEST | SetCall \<Rightarrow> BIT_CALL_DONE | ClearCall \<Rightarrow> 0)"

definition connection_bit :: "bool \<Rightarrow> u32" where
  "connection_bit connected = (if connected then BIT_CONNECTED else BIT_DISCONNECTED)"

definition client_event ::
    "kconfig \<Rightarrow> 'q queue_api \<Rightarrow> mqtt_env \<Rightarrow> mqtt_event \<Rightarrow> ('q, 'r) client \<Rightarrow> ('q, 'r) client" where
  "client_event cfg api menv evt c =
     (case event_handler cfg api menv evt (cl_rpc c, cl_mqtt c) of
        (rp, mq) \<Rightarrow>
          let signals = drop (length (rp_signals (cl_rpc c))) (rp_signals rp);
              notified = drop (length (mq_notified (cl_mqtt c))) (mq_notified mq)
          in c\<lparr>cl_rpc := rp, cl_mqtt := mq,
               cl_events := fold (\<lambda>b bits. bits OR b) (map signal_bit signals @ map connection_bit notified) (cl_events c)\<rparr>)"

subsection \<open>What applications call\<close>

text \<open>\<open>None\<close> for the client: \<open>init\<close> has not created its parts.\<close>

definition client_start :: "mqtt_env \<Rightarrow> ('q, 'r) client option \<Rightarrow> esp_err \<times> ('q, 'r) client option" where
  "client_start menv co =
     (case co of None \<Rightarrow> (ESP_ERR_INVALID_STATE, None)
      | Some c \<Rightarrow> (let (ret, mq) = mqtt_start menv (cl_mqtt c) in (ret, Some (c\<lparr>cl_mqtt := mq\<rparr>))))"

definition client_stop :: "mqtt_env \<Rightarrow> ('q, 'r) client option \<Rightarrow> esp_err \<times> ('q, 'r) client option" where
  "client_stop menv co =
     (case co of None \<Rightarrow> (ESP_ERR_INVALID_STATE, None)
      | Some c \<Rightarrow> (let (ret, mq) = mqtt_stop menv (cl_mqtt c) in (ret, Some (c\<lparr>cl_mqtt := mq\<rparr>))))"

definition register_method ::
    "string option \<Rightarrow> 'r client_world rpc_handler option \<Rightarrow> ('q, 'r) client option \<Rightarrow> esp_err \<times> ('q, 'r) client option" where
  "register_method name handler co =
     (case co of None \<Rightarrow> (ESP_ERR_INVALID_STATE, None)
      | Some c \<Rightarrow> (let (ret, rp) = add_method name handler (cl_rpc c) in (ret, Some (c\<lparr>cl_rpc := rp\<rparr>))))"

definition set_status_cb :: "(sc_json_writer \<Rightarrow> sc_json_writer) option \<Rightarrow> ('q, 'r) client option \<Rightarrow> ('q, 'r) client option" where
  "set_status_cb cb co = map_option (\<lambda>c. c\<lparr>cl_status := set_extra_cb cb (cl_status c)\<rparr>) co"

definition publish_event ::
    "mqtt_env \<Rightarrow> string \<Rightarrow> string \<Rightarrow> ('q, 'r) client option \<Rightarrow> esp_err \<times> ('q, 'r) client option" where
  "publish_event menv name json co =
     (case co of None \<Rightarrow> (ESP_ERR_INVALID_STATE, None)
      | Some c \<Rightarrow>
          let (ret, mq) = publish menv (snprintf 48 (''evt/'' @ cstr name)) json 1
                (Some \<lparr>pp_content_type = Some CONTENT_TYPE, pp_correlation = [], pp_response_topic = None\<rparr>) (cl_mqtt c)
          in (ret, Some (c\<lparr>cl_mqtt := mq\<rparr>)))"

definition request_status_report :: "('q, 'r) client option \<Rightarrow> ('q, 'r) client option" where
  "request_status_report co = map_option (set_event BIT_REPORT_STATUS) co"

definition set_connection_cb :: "bool \<Rightarrow> ('q, 'r) client \<Rightarrow> ('q, 'r) client" where
  "set_connection_cb cb c = c\<lparr>cl_has_cb := cb\<rparr>"

definition register_shell_cmd ::
    "string option \<Rightarrow> string option \<Rightarrow> 'w sh_handler option \<Rightarrow> 'w sc_shell option \<Rightarrow> esp_err \<times> 'w sc_shell option" where
  "register_shell_cmd name help handler so =
     (case so of None \<Rightarrow> (ESP_ERR_INVALID_STATE, None)
      | Some shell \<Rightarrow> (let (ret, shell) = sh_add name help handler shell in (ret, Some shell)))"

text \<open>Without an \<open>init\<close> before, a temporary object erases the stored identity.\<close>

definition erase_credentials ::
    "'n nvs_api \<Rightarrow> 'n \<Rightarrow> sc_credentials option \<Rightarrow> esp_err \<times> 'n \<times> sc_credentials option" where
  "erase_credentials api n cro =
     (case cro of
        None \<Rightarrow> (case cred_erase api n credentials_init of (ret, n, _) \<Rightarrow> (ret, n, None))
      | Some cr \<Rightarrow> (case cred_erase api n cr of (ret, n, cr) \<Rightarrow> (ret, n, Some cr)))"

definition client_device_id :: "sc_credentials option \<Rightarrow> string" where
  "client_device_id cro = (case cro of None \<Rightarrow> [] | Some cr \<Rightarrow> device_id cr)"

definition client_connected :: "('q, 'r) client option \<Rightarrow> bool" where
  "client_connected co = (case co of None \<Rightarrow> False | Some c \<Rightarrow> mq_connected (cl_mqtt c))"

subsection \<open>Calls to the platform\<close>

text \<open>
  \<open>sc_rpc::call\<close>: \<open>ds\<close> is what the MQTT task delivers during the wait; the call bit was cleared
  when the call began.
\<close>

definition rpc_call ::
    "mqtt_env \<Rightarrow> string \<Rightarrow> string \<Rightarrow> delivery list \<Rightarrow> sc_json_reader \<Rightarrow> ('q, 'w) sc_rpc \<times> sc_mqtt \<Rightarrow>
     esp_err \<times> sc_json_reader \<times> int option \<times> ('q, 'w) sc_rpc \<times> sc_mqtt" where
  "rpc_call menv meth params ds doc s =
     (case call_begin menv meth params (fst s) (snd s) of
        (ret, rp, mq) \<Rightarrow>
          let rp1 = (if ret = ESP_OK then fold deliver ds rp else rp);
              answered = SetCall \<in> set (drop (length (rp_signals rp)) (rp_signals rp1))
          in case call_end ret answered doc rp1 of (ret, doc, tok, rp) \<Rightarrow> (ret, doc, tok, rp, mq))"

definition sync_time :: "mqtt_env \<Rightarrow> int \<Rightarrow> delivery list \<Rightarrow> ('q, 'r) client \<Rightarrow> ('q, 'r) client" where
  "sync_time menv now ds c =
     (if now > 1700000000 then c
      else case rpc_call menv ''time'' ''{}'' ds (sc_json_doc 16) (cl_rpc c, cl_mqtt c) of
        (ret, doc, tok, rp, mq) \<Rightarrow>
          let c = c\<lparr>cl_rpc := rp, cl_mqtt := mq\<rparr> in
          (case (if ret = ESP_OK then get_int doc (the tok) ''epochMs'' else None) of
             None \<Rightarrow> c
           | Some ms \<Rightarrow> c\<lparr>cl_world := cw_call (SetTime (ms sdiv 1000) (ms smod 1000 * 1000)) (cl_world c)\<rparr>))"

definition check_for_update :: "mqtt_env \<Rightarrow> client_env \<Rightarrow> delivery list \<Rightarrow> ('q, 'r) client \<Rightarrow> ('q, 'r) client" where
  "check_for_update menv cenv ds c =
     (case rpc_call menv ''ota.check'' ''{}'' ds (sc_json_doc 24) (cl_rpc c, cl_mqtt c) of
        (ret, doc, tok, rp, mq) \<Rightarrow>
          let c = c\<lparr>cl_rpc := rp, cl_mqtt := mq\<rparr> in
          if ret \<noteq> ESP_OK then c
          else
            let update = find doc (the tok) ''update'' in
            if \<not> is_object doc update then c
            else
              let (ret, params) = decode_ota_params doc update ota_params_init in
              if ret \<noteq> ESP_OK then c
              else
                let w = cl_world c;
                    (_, ota) = ota_start (cx_task_created cenv (cw_calls w)) params (cw_ota w)
                in c\<lparr>cl_world := w\<lparr>cw_ota := ota\<rparr>\<rparr>)"

text \<open>\<open>pending\<close>: the running image is in state PENDING_VERIFY.\<close>

definition confirm_running_image :: "kconfig \<Rightarrow> bool \<Rightarrow> ('q, 'r) client \<Rightarrow> ('q, 'r) client" where
  "confirm_running_image cfg pending c =
     (if k_mark_app_valid cfg \<and> pending then c\<lparr>cl_world := cw_call MarkValid (cl_world c)\<rparr> else c)"

subsection \<open>The request task\<close>

text \<open>What a turn of the task reads from outside.\<close>

record turn_input =
  tn_unix :: int
  tn_pending :: bool
  tn_time :: "delivery list"
  tn_update :: "delivery list"
  tn_connected :: u32
  tn_checked :: u32
  tn_reported :: u32

definition report_status ::
    "kconfig \<Rightarrow> mqtt_env \<Rightarrow> client_env \<Rightarrow> bool \<Rightarrow> ('q, 'r) client \<Rightarrow> ('q, 'r) client" where
  "report_status cfg menv cenv birth c =
     (case status_report cfg menv (cx_chip cenv (cw_calls (cl_world c))) birth (cl_status c, cl_mqtt c) of
        (ret, st, mq) \<Rightarrow> c\<lparr>cl_status := st, cl_mqtt := mq\<rparr>)"

definition tell :: "bool \<Rightarrow> ('q, 'r) client \<Rightarrow> ('q, 'r) client" where
  "tell up c = (if cl_has_cb c then c\<lparr>cl_told := cl_told c @ [up]\<rparr> else c)"

definition on_connected ::
    "kconfig \<Rightarrow> mqtt_env \<Rightarrow> client_env \<Rightarrow> turn_input \<Rightarrow> ('q, 'r) client \<Rightarrow> ('q, 'r) client" where
  "on_connected cfg menv cenv inp c =
     (let c = report_status cfg menv cenv True c;
          c = (if cl_first c
               then check_for_update menv cenv (tn_update inp)
                      (sync_time menv (tn_unix inp) (tn_time inp)
                        (confirm_running_image cfg (tn_pending inp) (c\<lparr>cl_first := False\<rparr>)))
               else c)
      in tell True c)"

text \<open>How long to wait, and whether the heartbeat is due: the 32-bit difference read as signed.\<close>

definition wait_ticks :: "u32 \<Rightarrow> u32 \<Rightarrow> int" where
  "wait_ticks next_report now = (let until_report = sint (next_report - now) in if until_report > 0 then until_report else 0)"

definition report_due :: "u32 \<Rightarrow> u32 \<Rightarrow> bool" where
  "report_due next_report now \<longleftrightarrow> sint (next_report - now) \<le> 0"

text \<open>The task starts: the first heartbeat is due one interval later.\<close>

definition task_begin :: "u32 \<Rightarrow> u32 \<Rightarrow> ('q, 'r) client \<Rightarrow> ('q, 'r) client" where
  "task_begin now beat c = c\<lparr>cl_next_report := now + beat\<rparr>"

lemma task_begin_sel [simp]:
  "cl_rpc (task_begin now beat c) = cl_rpc c" "cl_mqtt (task_begin now beat c) = cl_mqtt c"
  "cl_world (task_begin now beat c) = cl_world c" "cl_status (task_begin now beat c) = cl_status c"
  "cl_events (task_begin now beat c) = cl_events c" "cl_next_report (task_begin now beat c) = now + beat"
  by (simp_all add: task_begin_def)

lemma first_report_waits: "0 < sint beat \<Longrightarrow> \<not> report_due (cl_next_report (task_begin now beat c)) now"
  by (simp add: report_due_def)

text \<open>
  One turn of \<open>run_task\<close>, from the end of the wait; \<open>beat\<close> is the heartbeat interval in ticks.
\<close>

definition run_turn ::
    "kconfig \<Rightarrow> 'q queue_api \<Rightarrow> mqtt_env \<Rightarrow> client_env \<Rightarrow> (esp_err \<Rightarrow> string) \<Rightarrow> u32 \<Rightarrow> turn_input \<Rightarrow>
     ('q, 'r) client \<Rightarrow> ('q, 'r) client option" where
  "run_turn cfg api menv cenv err_name beat inp c =
     (let (bits, c) = take_events c;
          c = (if has_bit bits BIT_CONNECTED
               then (on_connected cfg menv cenv inp c)\<lparr>cl_next_report := tn_connected inp + beat\<rparr> else c);
          c = (if has_bit bits BIT_DISCONNECTED then tell False c else c)
      in case handle_ready cfg api menv err_name (cl_rpc c, cl_mqtt c, cl_world c) of
           None \<Rightarrow> None
         | Some (rp, mq, w) \<Rightarrow>
             let c = c\<lparr>cl_rpc := rp, cl_mqtt := mq, cl_world := w\<rparr> in
             Some (if has_bit bits BIT_REPORT_STATUS \<or> report_due (cl_next_report c) (tn_checked inp)
                   then (if mq_connected (cl_mqtt c) then report_status cfg menv cenv False c else c)
                          \<lparr>cl_next_report := tn_reported inp + beat\<rparr>
                   else c))"

subsection \<open>Initialisation\<close>

record sc_config =
  cf_api_url :: "string option"
  cf_pairing_token :: "string option"
  cf_device_name :: "string option"
  cf_re_enroll :: bool

text \<open>
  What allocations and ESP-IDF calls answer during \<open>init\<close>, and the memory it is given: new queues,
  rings and buffers. \<open>ie_has_cb\<close>: the application set a connection callback before. \<open>ie_task_now\<close>: the tick
  count when the new task starts; \<open>ie_beat\<close>: the heartbeat interval in ticks. \<open>on9log_emit_boot\<close>,
  at the end, only writes a log packet.
\<close>

record ('q, 'r) init_env =
  ie_boot :: u32
  ie_creds :: bool
  ie_enroll :: enroll_env
  ie_parts :: bool
  ie_timer :: esp_err
  ie_rpc :: bool
  ie_free :: 'q
  ie_ready :: 'q
  ie_resp_buf :: string
  ie_call_buf :: string
  ie_mqtt :: mqtt_init_env
  ie_logs :: bool
  ie_log_task :: bool
  ie_log_sink :: bool
  ie_bin_ring :: 'r
  ie_text_ring :: 'r
  ie_batch :: string
  ie_shell_out :: string
  ie_task :: bool
  ie_task_now :: u32
  ie_beat :: u32
  ie_has_cb :: bool

text \<open>The credentials: stored, or enrolled with the pairing token.\<close>

definition init_credentials ::
    "kconfig \<Rightarrow> enroll_env \<Rightarrow> 'n nvs_api \<Rightarrow> sc_config \<Rightarrow> 'n enroll_world \<Rightarrow> esp_err \<times> sc_credentials \<times> 'n enroll_world" where
  "init_credentials cfg henv napi cf w =
     (let (ret, cr) = cred_load napi (hw_nvs w) credentials_init;
          have_token = (case cf_pairing_token cf of None \<Rightarrow> False | Some t \<Rightarrow> cstr t \<noteq> []) in
      if (ret = ESP_ERR_NOT_FOUND \<or> cf_re_enroll cf) \<and> have_token
      then enroll cfg henv napi (Some (case cf_api_url cf of None \<Rightarrow> k_api_url cfg | Some u \<Rightarrow> u))
             (cf_pairing_token cf) (cf_device_name cf) (cr, w)
      else (ret, cr, w))"

text \<open>
  The client after a successful \<open>init\<close>, its task started; what a failed one leaves behind is not used. \<open>table\<close> is the command table once the
  application has registered its own.
\<close>

definition client_init ::
    "kconfig \<Rightarrow> 'q queue_api \<Rightarrow> 'n nvs_api \<Rightarrow> client_env \<Rightarrow> ('q, 'r) init_env \<Rightarrow> 'r client_world sc_shell \<Rightarrow> sc_config \<Rightarrow>
     'n enroll_world \<Rightarrow> esp_err \<times> (('q, 'r) client \<times> 'r client_world sc_shell) option \<times> 'n enroll_world" where
  "client_init cfg qapi napi cenv ie table cf w =
     (if \<not> ie_creds ie then (ESP_ERR_NO_MEM, None, w)
      else
        let (ret, cr, w) = init_credentials cfg (ie_enroll ie) napi cf w in
        if ret \<noteq> ESP_OK then (ret, None, w)
        else if \<not> ie_parts ie then (ESP_ERR_NO_MEM, None, w)
        else
          let (e1, rp) = rpc_init cfg qapi (ie_rpc ie) (ie_free ie) (ie_ready ie) (ie_resp_buf ie) (ie_call_buf ie);
              (e2, mq) = mqtt_setup (ie_mqtt ie) (device_id cr);
              (e3, logs) = log_init cfg (ie_logs ie) (ie_log_task ie) (ie_log_sink ie) (ie_boot ie) (ie_bin_ring ie)
                             (ie_text_ring ie) (ie_batch ie);
              c = \<lparr>cl_rpc = rp, cl_mqtt = mq, cl_status = status_init (ie_boot ie),
                   cl_world = \<lparr>cw_logs = logs, cw_ota = ota_init, cw_shell_out = ie_shell_out ie, cw_calls = []\<rparr>,
                   cl_first = True, cl_has_cb = ie_has_cb ie, cl_told = [], cl_events = 0, cl_next_report = 0\<rparr>;
              shell = replicate (k_shell_max_cmds cfg) None;
              ret = hd (List.filter (\<lambda>e. e \<noteq> ESP_OK) [ie_timer ie, e1, e2, e3] @ [ESP_OK]) in
          if ret \<noteq> ESP_OK then (ret, None, w)
          else
            let (ret, rp, shell) = register_builtin_methods cfg cenv table (rp, add_builtins shell);
                c = c\<lparr>cl_rpc := rp, cl_mqtt := mqtt_set_connection_cb True mq\<rparr> in
            if ret \<noteq> ESP_OK then (ret, None, w)
            else if \<not> ie_task ie then (ESP_ERR_NO_MEM, None, w)
            else (ESP_OK, Some (task_begin (ie_task_now ie) (ie_beat ie) c, shell), w))"

end
