(* ===== verification/Builtin_Answers.thy ===== *)
theory Builtin_Answers
  imports Builtins
begin

text \<open>
  What the built-in requests do: every handler is an implementation of a specification that names its
  result as JSON, so that the theorems on requests apply to them.
\<close>

subsection \<open>Specifications of the handlers\<close>

definition shell_spec :: "kconfig \<Rightarrow> client_env \<Rightarrow> 'r client_world sc_shell \<Rightarrow> 'r client_world handler_spec" where
  "shell_spec cfg cenv table m p w =
     (if \<not> fst (get_str p 0 ''line'' 520)
      then (ESP_ERR_INVALID_ARG, call_fail ''params.line must be a string of at most 519 bytes'', [], w)
      else case run (cx_chip cenv (cw_calls w)) table (write_out (zeroed 520) (get_str p 0 ''line'' 520))
             (sc_shell_out (cw_shell_out w) (SHELL_OUT_SIZE cfg)) w of
        (code, sh, w') \<Rightarrow>
          (ESP_OK, [],
           [(''code'', JInt (sint (word_of_int code :: u64))), (''output'', JStr (take (so_len sh) (so_buf sh)))] @
             (if so_truncated sh then [(''truncated'', JBool True)] else []),
           w'\<lparr>cw_shell_out := so_buf sh\<rparr>))"

text \<open>
  A handler that answers without members: it leaves the writer as it is. What these handlers do is stated on
  JSON values in \<open>Builtin_Values\<close>.
\<close>

definition silent_spec :: "'w rpc_handler \<Rightarrow> 'w handler_spec" where
  "silent_spec h m p w =
     (case h m p (sc_json_writer None 0) w of (ret, msg, out, w') \<Rightarrow> (ret, msg, [], w'))"

definition info_members :: "client_env \<Rightarrow> 'r client_world \<Rightarrow> (string \<times> json) list" where
  "info_members cenv w =
     (let ev = cx_chip cenv (cw_calls w); heap = ev_internal ev; built = cstr (ev_date ev) @ '' '' @ cstr (ev_time ev) in
      [(''project'', JStr (cstr (ev_project ev))), (''version'', JStr (cstr (ev_version ev))),
       (''sdk'', JStr (cstr (ev_idf_ver ev))), (''buildTime'', JStr (take 127 built)),
       (''elfSha256'', JStr (hex_text (take 32 (ev_elf_sha256 ev)))), (''chip'', JStr (cstr (ev_target ev))),
       (''partition'', JStr (cstr (cx_label cenv))),
       (''uptimeMs'', JInt (uint (word_of_int (ev_time_us ev div 1000) :: u64))),
       (''bootId'', JInt (uint (cx_boot_id cenv))), (''resetReason'', JInt (sint (of_nat (ev_reset_reason ev) :: u64))),
       (''heap'', JObj [(''free'', JInt (uint (hi_free heap))), (''minFree'', JInt (uint (hi_min_free heap))),
          (''largestBlock'', JInt (uint (hi_largest heap))), (''psramFree'', JInt (uint (hi_free (ev_external ev))))])])"

definition info_spec :: "client_env \<Rightarrow> 'r client_world handler_spec" where
  "info_spec cenv m p w = (ESP_OK, [], info_members cenv w, w)"

definition builtin_spec ::
    "kconfig \<Rightarrow> client_env \<Rightarrow> 'r client_world sc_shell \<Rightarrow> string \<Rightarrow> 'r client_world handler_spec option" where
  "builtin_spec cfg cenv table = map_of
     [(''shell'', shell_spec cfg cenv table), (''reboot'', silent_spec (reboot_method cenv)), (''info'', info_spec cenv),
      (''log.config'', silent_spec log_config_method), (''ota.start'', silent_spec (ota_start_method cenv)),
      (''ota.cancel'', silent_spec ota_cancel_method)]"

lemma adds_sint: "adds d [AddInt (Some k) v] [(k, JInt (sint v))]"
  by (rule adds_leaf) simp

lemma adds_str_len: "adds d [AddStrLen (Some k) s] [(k, JStr s)]"
  by (rule adds_leaf) simp

lemma adds_fmt: "adds d [AddFmt (Some k) (Some s)] [(k, JStr (take 127 s))]"
  by (rule adds_leaf) (simp add: min_def)

text \<open>A handler that passes the writer through.\<close>

lemma silent_implements:
  assumes "\<And>m p out w. h m p out w = (case h m p (sc_json_writer None 0) w of (ret, msg, _, w') \<Rightarrow> (ret, msg, out, w'))"
  shows "implements h (silent_spec h)"
  unfolding implements_def
proof (intro allI)
  fix m p w
  obtain ret msg x w' where h: "h m p (sc_json_writer None 0) w = (ret, msg, x, w')" by (cases "h m p (sc_json_writer None 0) w")
  then have "\<forall>out. h m p out w = (ret, msg, jw_run [] out, w')" by (subst assms) simp
  then show "case silent_spec h m p w of (ret, msg, es, w') \<Rightarrow>
      \<exists>cs d. adds d cs es \<and> d + 2 \<le> MAX_DEPTH \<and> (\<forall>out. h m p out w = (ret, msg, jw_run cs out, w'))"
    by (simp add: silent_spec_def h) (intro exI [of _ "[]"] exI [of _ 0], simp add: adds_Nil MAX_DEPTH_def)
qed

lemma reboot_implements: "implements (reboot_method cenv) (silent_spec (reboot_method cenv))"
  by (rule silent_implements) (simp add: reboot_method_def Let_def)

lemma log_config_implements: "implements log_config_method (silent_spec log_config_method)"
  by (rule silent_implements) (simp add: log_config_method_def Let_def case_prod_beta)

lemma ota_start_implements: "implements (ota_start_method cenv) (silent_spec (ota_start_method cenv))"
  by (rule silent_implements) (simp add: ota_start_method_def Let_def case_prod_beta)

lemma ota_cancel_implements: "implements ota_cancel_method (silent_spec ota_cancel_method)"
  by (rule silent_implements) (simp add: ota_cancel_method_def Let_def case_prod_beta)

text \<open>A handler that adds members.\<close>

lemma implements_adds:
  assumes "spec m p w = (ret, msg, es, w')" and "\<And>out. h m p out w = (ret, msg, jw_run cs out, w')" and "adds d cs es"
    and "d + 2 \<le> MAX_DEPTH"
  shows "case spec m p w of (ret, msg, es, w') \<Rightarrow>
      \<exists>cs d. adds d cs es \<and> d + 2 \<le> MAX_DEPTH \<and> (\<forall>out. h m p out w = (ret, msg, jw_run cs out, w'))"
  using assms by auto

lemma shell_implements: "implements (shell_method cfg cenv table) (shell_spec cfg cenv table)"
  unfolding implements_def
proof (intro allI)
  fix m p w
  let ?s = "get_str p 0 ''line'' 520"
  show "case shell_spec cfg cenv table m p w of (ret, msg, es, w') \<Rightarrow>
      \<exists>cs d. adds d cs es \<and> d + 2 \<le> MAX_DEPTH \<and>
        (\<forall>out. shell_method cfg cenv table m p out w = (ret, msg, jw_run cs out, w'))"
  proof (cases "fst ?s")
    case False
    then show ?thesis
      by (intro implements_adds [where cs = "[]" and d = 0, OF _ _ adds_Nil])
        (simp_all add: shell_spec_def shell_method_def MAX_DEPTH_def)
  next
    case True
    obtain code sh w' where r: "run (cx_chip cenv (cw_calls w)) table (write_out (zeroed 520) ?s)
        (sc_shell_out (cw_shell_out w) (SHELL_OUT_SIZE cfg)) w = (code, sh, w')"
      by (cases "run (cx_chip cenv (cw_calls w)) table (write_out (zeroed 520) ?s)
        (sc_shell_out (cw_shell_out w) (SHELL_OUT_SIZE cfg)) w")
    let ?cs = "[AddInt (Some ''code'') (word_of_int code)] @ [AddStrLen (Some ''output'') (take (so_len sh) (so_buf sh))] @
      (if so_truncated sh then [AddBool (Some ''truncated'') True] else [])"
    let ?es = "[(''code'', JInt (sint (word_of_int code :: u64)))] @ [(''output'', JStr (take (so_len sh) (so_buf sh)))] @
        (if so_truncated sh then [(''truncated'', JBool True)] else [])"
    have "adds 0 ?cs ?es"
      by (intro adds_append adds_sint adds_str_len) (simp add: adds_bool adds_Nil)
    moreover have "shell_spec cfg cenv table m p w = (ESP_OK, [], ?es, w'\<lparr>cw_shell_out := so_buf sh\<rparr>)"
      unfolding shell_spec_def r prod.case using True by simp
    moreover have "shell_method cfg cenv table m p out w = (ESP_OK, [], jw_run ?cs out, w'\<lparr>cw_shell_out := so_buf sh\<rparr>)" for out
      unfolding shell_method_def Let_def r prod.case using True by simp
    moreover have "0 + 2 \<le> MAX_DEPTH" by (simp add: MAX_DEPTH_def)
    ultimately show ?thesis by (intro implements_adds)
  qed
qed

lemma info_implements: "implements (info_method cenv) (info_spec cenv)"
  unfolding implements_def
proof (intro allI)
  fix m p and w :: "'r client_world"
  define ev where "ev = cx_chip cenv (cw_calls w)"
  let ?built = "cstr (ev_date ev) @ '' '' @ cstr (ev_time ev)"
  let ?heap = "[AddUint (Some ''free'') (ucast (hi_free (ev_internal ev)))] @
    [AddUint (Some ''minFree'') (ucast (hi_min_free (ev_internal ev)))] @
    [AddUint (Some ''largestBlock'') (ucast (hi_largest (ev_internal ev)))] @
    [AddUint (Some ''psramFree'') (ucast (hi_free (ev_external ev)))]"
  let ?cs = "[AddStr (Some ''project'') (Some (ev_project ev))] @ [AddStr (Some ''version'') (Some (ev_version ev))] @
    [AddStr (Some ''sdk'') (Some (ev_idf_ver ev))] @ [AddFmt (Some ''buildTime'') (Some ?built)] @
    [AddHex (Some ''elfSha256'') (take 32 (ev_elf_sha256 ev))] @ [AddStr (Some ''chip'') (Some (ev_target ev))] @
    [AddStr (Some ''partition'') (Some (cx_label cenv))] @
    [AddUint (Some ''uptimeMs'') (word_of_int (ev_time_us ev div 1000))] @ [AddUint (Some ''bootId'') (ucast (cx_boot_id cenv))] @
    [AddInt (Some ''resetReason'') (of_nat (ev_reset_reason ev))] @ (BeginObject (Some ''heap'') # ?heap @ [EndObject])"
  let ?es = "[(''project'', JStr (cstr (ev_project ev)))] @ [(''version'', JStr (cstr (ev_version ev)))] @
    [(''sdk'', JStr (cstr (ev_idf_ver ev)))] @ [(''buildTime'', JStr (take 127 ?built))] @
    [(''elfSha256'', JStr (hex_text (take 32 (ev_elf_sha256 ev))))] @ [(''chip'', JStr (cstr (ev_target ev)))] @
    [(''partition'', JStr (cstr (cx_label cenv)))] @
    [(''uptimeMs'', JInt (uint (word_of_int (ev_time_us ev div 1000) :: u64)))] @
    [(''bootId'', JInt (uint (cx_boot_id cenv)))] @ [(''resetReason'', JInt (sint (of_nat (ev_reset_reason ev) :: u64)))] @
    [(''heap'', JObj ([(''free'', JInt (uint (hi_free (ev_internal ev))))] @ [(''minFree'', JInt (uint (hi_min_free (ev_internal ev))))] @
      [(''largestBlock'', JInt (uint (hi_largest (ev_internal ev))))] @ [(''psramFree'', JInt (uint (hi_free (ev_external ev))))]))]"
  have adds: "adds (Suc 0) ?cs ?es"
    by (intro adds_append adds_cstr adds_fmt adds_hex adds_uint adds_uint32 adds_sint adds_object)
  have meth: "info_method cenv m p out w = (ESP_OK, [], jw_run ?cs out, w)" for out
    by (simp add: info_method_def Let_def ev_def [symmetric])
  have spec: "info_spec cenv m p w = (ESP_OK, [], ?es, w)"
    by (simp add: info_spec_def info_members_def Let_def ev_def [symmetric])
  have depth: "Suc 0 + 2 \<le> MAX_DEPTH" by (simp add: MAX_DEPTH_def)
  show "case info_spec cenv m p w of (ret, msg, es, w') \<Rightarrow>
      \<exists>cs d. adds d cs es \<and> d + 2 \<le> MAX_DEPTH \<and> (\<forall>out. info_method cenv m p out w = (ret, msg, jw_run cs out, w'))"
    by (rule implements_adds [where spec = "info_spec cenv" and h = "info_method cenv" and cs = ?cs, OF spec meth adds depth])
qed

lemma builtin_implements:
  assumes "(name, h) \<in> set (builtin_methods cfg cenv table)"
  shows "\<exists>spec. builtin_spec cfg cenv table name = Some spec \<and> implements h spec"
  using assms unfolding builtin_methods_def list.set insert_iff prod.inject empty_iff
  by (elim disjE conjE FalseE)
    (simp_all add: builtin_spec_def shell_implements info_implements reboot_implements log_config_implements
      ota_start_implements ota_cancel_implements)

subsection \<open>Registration\<close>

lemma add_builtins_fit:
  "\<exists>es. add_builtins (replicate 11 None @ t) = map Some es @ t \<and> length es = 11 \<and> ''reset main_device'' \<notin> fst ` set es"
  by (rule exI [of _ "map (\<lambda>(n, h, b). (n, \<lparr>sh_help = Some h, sh_handler = Builtin b, sh_words = count_words n\<rparr>)) builtin_cmds"])
    (simp add: add_builtins_def builtin_cmds_def sh_add_def numeral_eq_Suc)

lemma add_builtins_full:
  assumes "8 \<le> n" and "n < 11"
  shows "\<exists>es. add_builtins (replicate n None) = map Some es \<and> ''reset main_device'' \<notin> fst ` set es"
proof -
  have "n = 8 \<or> n = 9 \<or> n = 10" using assms by arith
  then show ?thesis
    by (elim disjE; intro exI [of _ "map (\<lambda>(n, h, b). (n, \<lparr>sh_help = Some h, sh_handler = Builtin b,
        sh_words = count_words n\<rparr>)) (take n builtin_cmds)"])
      (simp_all add: add_builtins_def builtin_cmds_def sh_add_def numeral_eq_Suc)
qed

lemma put_entry_occupied: "n \<notin> fst ` set es \<Longrightarrow> put_entry n e (map Some es @ t) =
    map_option ((@) (map Some es)) (put_entry n e t)"
proof (induction es)
  case Nil
  then show ?case by (cases "put_entry n e t") simp_all
qed (auto split: option.split)

text \<open>The command that restarts the device is the twelfth.\<close>

lemma reset_command_added:
  assumes "8 \<le> n"
  shows "fst (sh_add (Some ''reset main_device'') help (Some (h :: 'w sh_handler)) (add_builtins (replicate n None))) =
    (if 12 \<le> n then ESP_OK else ESP_ERR_NO_MEM)"
proof (cases "11 \<le> n")
  case True
  then obtain k where n: "n = 11 + k" by (auto simp: le_iff_add)
  from add_builtins_fit [of "replicate k None"] obtain es :: "(string \<times> 'w sh_entry) list" where
    e: "add_builtins (replicate n None) = map Some es @ replicate k None" "''reset main_device'' \<notin> fst ` set es"
    by (auto simp: n replicate_add)
  show ?thesis
    using put_entry_occupied [OF e(2), of _ "replicate k None"] n unfolding sh_add_def e(1) by (cases k) simp_all
next
  case False
  with add_builtins_full [OF assms] obtain es :: "(string \<times> 'w sh_entry) list" where
    e: "add_builtins (replicate n None) = map Some es" "''reset main_device'' \<notin> fst ` set es" by auto
  from put_entry_occupied [OF e(2), of _ "[]"] False show ?thesis unfolding sh_add_def e(1) by simp
qed

lemma get_entry_unused: "get_entry (replicate n None) name = None"
  by (induction n) simp_all

lemma builtin_names: "map fst (builtin_methods cfg cenv table) =
    [''shell'', ''reboot'', ''info'', ''log.config'', ''ota.start'', ''ota.cancel'']"
  by (simp add: builtin_methods_def)

lemma builtin_spec_None: "builtin_spec cfg cenv table name = None \<longleftrightarrow> name \<notin> set (map fst (builtin_methods cfg cenv table))"
  by (auto simp: builtin_spec_def builtin_names map_of_eq_None_iff)

lemma builtins_added:
  fixes rp :: "('q, 'r client_world) sc_rpc"
  assumes "rp_methods rp = replicate MAX_METHODS None" and "8 \<le> k_shell_max_cmds cfg"
    and "register_builtin_methods cfg cenv table (rp, add_builtins (replicate (k_shell_max_cmds cfg) None)) = (ret, rp', shell)"
  shows "methods_are rp' (builtin_spec cfg cenv table) \<and> ret = (if 12 \<le> k_shell_max_cmds cfg then ESP_OK else ESP_ERR_NO_MEM) \<and>
    (\<exists>ms. rp' = rp\<lparr>rp_methods := ms\<rparr>)"
proof -
  let ?regs = "builtin_methods cfg cenv table"
  have wf: "table_wf MAX_METHODS (rp_methods rp)" using assms(1) table_wf_init by simp
  have none: "entry_names (rp_methods rp) = []" unfolding assms(1) by (rule entry_names_None) (simp add: list_all_iff)
  then have room: "card (set (entry_names (rp_methods rp)) \<union> fst ` set ?regs) \<le> MAX_METHODS"
    by (simp add: builtin_methods_def MAX_METHODS_def)
  obtain ms where ms: "names_table.puts ?regs (rp_methods rp) = Some ms"
    using names_table.puts_fit [OF wf room] by blast
  note added = add_methods_puts [OF ms]
  have find: "find_method name (rp\<lparr>rp_methods := ms\<rparr>) = map_of ?regs name" for name
  proof -
    have "get_entry (rp_methods rp) name = None" unfolding assms(1) by (rule get_entry_unused)
    moreover have "map_of (rev ?regs) name = map_of ?regs name"
      by (simp add: builtin_methods_def)
    ultimately show ?thesis using names_table.get_puts [OF ms, of name] by (simp add: find_method_def split: option.split)
  qed
  have "methods_are (rp\<lparr>rp_methods := ms\<rparr>) (builtin_spec cfg cenv table)"
    unfolding methods_are_def find
    using builtin_implements [of _ _ cfg cenv table] builtin_spec_None [of cfg cenv table]
    by (auto split: option.split simp: map_of_eq_None_iff dest: map_of_SomeD)
  moreover have "rp' = rp\<lparr>rp_methods := ms\<rparr>" and "ret = fst (sh_add (Some ''reset main_device'') (Some ''Restart the device'')
      (Some (AppCmd (reset_command :: 'r client_world app_handler))) (add_builtins (replicate (k_shell_max_cmds cfg) None)))"
    using assms(3) added by (auto simp: register_builtin_methods_def Let_def split: prod.splits)
  ultimately show ?thesis using reset_command_added [OF assms(2)] by blast
qed

subsection \<open>Properties\<close>

text \<open>
  C30: The built-in requests. On fresh tables, \<open>register_builtin_methods\<close> registers all six methods, each
  of which implements its specification, so that every request to them is answered as the theorems on
  requests say; and it succeeds if and only if the shell has at least twelve command slots, although the
  configuration allows from eight on: with fewer the command that restarts the device does not fit, and the
  client does not start.
\<close>

theorem builtins_registered:
  fixes rp :: "('q, 'r client_world) sc_rpc"
  assumes "rp_methods rp = replicate MAX_METHODS None" and "8 \<le> k_shell_max_cmds cfg"
    and "register_builtin_methods cfg cenv table (rp, add_builtins (replicate (k_shell_max_cmds cfg) None)) = (ret, rp', shell)"
  shows "methods_are rp' (builtin_spec cfg cenv table) \<and> ret = (if 12 \<le> k_shell_max_cmds cfg then ESP_OK else ESP_ERR_NO_MEM)"
  using builtins_added [OF assms] by blast

subsection \<open>A sample registration\<close>

definition sample_chip :: shell_env where
  "sample_chip = \<lparr>ev_time_us = 5000, ev_project = ''p'', ev_version = ''1'', ev_date = ''d'', ev_time = ''t'', ev_idf_ver = ''6'',
     ev_elf_sha256 = [], ev_mac = [], ev_target = ''esp32'', ev_revision = 100, ev_cores = 2,
     ev_internal = \<lparr>hi_free = 9, hi_min_free = 8, hi_largest = 7\<rparr>, ev_external = \<lparr>hi_free = 0, hi_min_free = 0, hi_largest = 0\<rparr>,
     ev_psram_total = 0, ev_parts = [], ev_reset_reason = 1, ev_utc = [], ev_getaddrinfo = (\<lambda>_. (0, []))\<rparr>"

definition sample_cenv :: client_env where
  "sample_cenv = \<lparr>cx_chip = (\<lambda>_. sample_chip), cx_label = ''ota_0'', cx_boot_id = 7, cx_timer = (\<lambda>_. ESP_OK),
     cx_task_created = (\<lambda>_. True)\<rparr>"

theorem builtins_registered_witness:
  "\<exists>rp' shell :: string list client_world sc_shell.
    register_builtin_methods (kconfig_default\<lparr>k_shell_max_cmds := 8\<rparr>) sample_cenv []
      (snd (rpc_init kconfig_default (list_queue 4) True [] [] [] []), add_builtins (replicate 8 None)) = (ESP_ERR_NO_MEM, rp', shell)"
proof -
  let ?rp = "snd (rpc_init kconfig_default (list_queue 4) True [] [] [] []) :: (nat list, string list client_world) sc_rpc"
  let ?cfg = "kconfig_default\<lparr>k_shell_max_cmds := 8\<rparr>"
  have rp: "rp_methods ?rp = replicate MAX_METHODS None" and k: "8 \<le> k_shell_max_cmds ?cfg" by (simp_all add: rpc_init_def Let_def)
  obtain ret rp' shell where r: "register_builtin_methods ?cfg sample_cenv []
      (?rp, add_builtins (replicate (k_shell_max_cmds ?cfg) None)) = (ret, rp', shell)"
    by (cases "register_builtin_methods ?cfg sample_cenv [] (?rp, add_builtins (replicate (k_shell_max_cmds ?cfg) None))")
  from builtins_registered [OF rp k r] r show ?thesis by auto
qed

end
