(* ===== verification/Rx_Invariant.thy ===== *)
theory Rx_Invariant
  imports Mqtt_Rx
begin

text \<open>
  The MQTT task and the request task together: a step relation whose steps are the events of
  esp-mqtt, the request task's moves (take a request, answer it and give its slot back, begin and
  end a call) and the publishes of the other tasks, in any order. In every reachable state each
  slot is in exactly one place and every write so far stayed inside its buffer.
\<close>

subsection \<open>Buffers\<close>

definition slot_ok :: "kconfig \<Rightarrow> sc_rpc_slot \<Rightarrow> bool" where
  "slot_ok cfg slot \<longleftrightarrow>
     length (sl_method slot) = 48 \<and> NUL \<in> set (sl_method slot) \<and>
     length (sl_correlation slot) = 64 \<and> sl_correlation_len slot \<le> 64 \<and>
     length (sl_response_topic slot) = 96 \<and> NUL \<in> set (sl_response_topic slot) \<and>
     length (sl_payload slot) = k_payload_max cfg + 1 \<and> sl_payload_len slot \<le> k_payload_max cfg"

definition rpc_ok :: "kconfig \<Rightarrow> ('q, 'w) sc_rpc \<Rightarrow> bool" where
  "rpc_ok cfg rp \<longleftrightarrow>
     length (rp_slots rp) = k_queue_len cfg \<and> (\<forall>slot \<in> set (rp_slots rp). slot_ok cfg slot) \<and>
     length (rp_call_buf rp) = CALL_BUF_SIZE \<and> rp_call_len rp < CALL_BUF_SIZE \<and>
     length (rp_resp_buf rp) = k_result_max cfg"

definition rx_list :: "sc_mqtt \<Rightarrow> nat list" where
  "rx_list mq = (case mq_rx_slot mq of None \<Rightarrow> [] | Some idx \<Rightarrow> [idx])"

definition rx_inv :: "kconfig \<Rightarrow> 'q queue_api \<Rightarrow> ('q \<Rightarrow> nat list) \<Rightarrow> nat list \<Rightarrow> ('q, 'w) sc_rpc \<times> sc_mqtt \<Rightarrow> bool" where
  "rx_inv cfg api items held s \<longleftrightarrow>
     slots_conserved api (k_queue_len cfg) items (rx_list (snd s) @ held) (fst s) \<and>
     rpc_ok cfg (fst s) \<and> length (mq_rx_correlation (snd s)) \<le> 64"

lemma nul_list_update: "i < length xs \<Longrightarrow> NUL \<in> set (xs[i := NUL])"
  by (rule set_update_memI)

lemma slot_ok_init: "slot_ok cfg (slot_init cfg)"
  by (simp add: slot_ok_def slot_init_def)

lemma slot_ok_reset:
  "slot_ok cfg slot \<Longrightarrow> slot_ok cfg (slot\<lparr>sl_too_large := False, sl_correlation_len := 0, sl_payload_len := 0,
    sl_method := (sl_method slot)[0 := NUL], sl_response_topic := (sl_response_topic slot)[0 := NUL]\<rparr>)"
  by (simp add: slot_ok_def nul_list_update)

lemma length_dotted [simp]: "length (dotted m) = length m"
  by (simp add: dotted_def)

lemma slot_ok_fill: "slot_ok cfg slot \<Longrightarrow> slot_ok cfg (fill_slot cfg evt meth slot)"
  by (auto simp: slot_ok_def fill_slot_def Let_def nul_list_update split: option.split)

lemma slot_ok_store: "slot_ok cfg slot \<Longrightarrow> slot_ok cfg (store_payload cfg offset data slot)"
  by (simp add: slot_ok_def store_payload_def)

lemma slot_ok_end: "slot_ok cfg slot \<Longrightarrow> slot_ok cfg (slot\<lparr>sl_payload := (sl_payload slot)[i := NUL]\<rparr>)"
  by (simp add: slot_ok_def)

lemma rpc_ok_slot: "rpc_ok cfg rp \<Longrightarrow> idx < k_queue_len cfg \<Longrightarrow> slot_ok cfg (rp_slots rp ! idx)"
  by (simp add: rpc_ok_def)

lemma rpc_ok_set_slot: "rpc_ok cfg rp \<Longrightarrow> slot_ok cfg slot \<Longrightarrow> rpc_ok cfg (set_slot idx slot rp)"
  by (auto simp: rpc_ok_def set_slot_def dest: set_update_subset_insert [THEN subsetD])

lemma rpc_ok_queues [simp]:
  "rpc_ok cfg (give_back api idx rp) = rpc_ok cfg rp" "rpc_ok cfg (submit api idx rp) = rpc_ok cfg rp"
  "rpc_ok cfg (rp\<lparr>rp_ready := q\<rparr>) = rpc_ok cfg rp" "rpc_ok cfg (rp\<lparr>rp_free := q\<rparr>) = rpc_ok cfg rp"
  by (simp_all add: rpc_ok_def give_back_def submit_def)

lemma rpc_ok_deliver: "rpc_ok cfg rp \<Longrightarrow> rpc_ok cfg (deliver_response c data off whole rp)"
  by (simp add: rpc_ok_def deliver_response_def Let_def)

lemma conserved_frame [simp]:
  "slots_conserved api n items out (set_slot idx slot rp) = slots_conserved api n items out rp"
  "slots_conserved api n items out (deliver_response c data off whole rp) = slots_conserved api n items out rp"
  by (simp_all add: slots_conserved_def set_slot_def deliver_response_def Let_def)

subsection \<open>Every event keeps the invariant\<close>

lemma take_free_slot_ok:
  assumes "slots_conserved api (k_queue_len cfg) items out rp" and "rpc_ok cfg rp"
    and "take_free_slot api rp = (Some idx, rp')"
  shows "rpc_ok cfg rp' \<and> idx < k_queue_len cfg"
proof -
  have idx: "idx < k_queue_len cfg"
    using slots_range [OF slots_take [OF assms(1,3)], of idx] by simp
  with assms(2,3) slot_ok_reset [OF rpc_ok_slot [OF assms(2) idx]] show ?thesis
    by (auto simp: take_free_slot_def rpc_ok_def Let_def split: option.split_asm
        dest!: set_update_subset_insert [THEN subsetD])
qed

lemma rx_inv_drop:
  "rx_inv cfg api items held s \<Longrightarrow> rx_inv cfg api items held (drop_rx_slot api s) \<and> mq_rx_slot (snd (drop_rx_slot api s)) = None"
  by (auto simp: rx_inv_def drop_rx_slot_def rx_list_def split: option.splits dest: slots_give)

lemma rx_inv_start_request:
  assumes "rx_inv cfg api items held (rp, mq)" and "mq_rx_slot mq = None"
  shows "rx_inv cfg api items held (start_request cfg api evt meth (rp, mq))"
proof (cases "take_free_slot api rp")
  case (Pair o' rp')
  show ?thesis
  proof (cases o')
    case None
    then have "rp' = rp" using Pair by (auto simp: take_free_slot_def Let_def split: option.splits)
    with assms Pair None show ?thesis by (simp add: start_request_def rx_inv_def rx_list_def)
  next
    case (Some idx)
    have c: "slots_conserved api (k_queue_len cfg) items held rp" and ok: "rpc_ok cfg rp"
      using assms by (simp_all add: rx_inv_def rx_list_def)
    note t = Pair [unfolded Some]
    from take_free_slot_ok [OF c ok t] slots_take [OF c t] assms Pair Some show ?thesis
      by (simp add: start_request_def rx_inv_def rx_list_def rpc_ok_set_slot slot_ok_fill rpc_ok_slot)
  qed
qed

lemma rx_inv_mqtt [simp]:
  "rx_inv cfg api items held (rp, mq\<lparr>mq_rx_response := b\<rparr>) = rx_inv cfg api items held (rp, mq)"
  "rx_inv cfg api items held (rp, mq\<lparr>mq_connected := b\<rparr>) = rx_inv cfg api items held (rp, mq)"
  "rx_inv cfg api items held (rp, mq_call c mq) = rx_inv cfg api items held (rp, mq)"
  "rx_inv cfg api items held (rp, notify b mq) = rx_inv cfg api items held (rp, mq)"
  by (simp_all add: rx_inv_def rx_list_def notify_def)

lemma rx_inv_correlation:
  "rx_inv cfg api items held (rp, mq) \<Longrightarrow> length c \<le> 64 \<Longrightarrow>
    rx_inv cfg api items held (rp, mq\<lparr>mq_rx_response := b, mq_rx_correlation := c\<rparr>)"
  by (simp add: rx_inv_def rx_list_def)

lemma rx_inv_start_message:
  assumes "rx_inv cfg api items held s" and "start_message cfg api evt s = (go, s')"
  shows "rx_inv cfg api items held s'"
proof -
  obtain rp mq where d: "drop_rx_slot api s = (rp, mq)" by fastforce
  have inv: "rx_inv cfg api items held (rp, mq)" "mq_rx_slot mq = None"
    using rx_inv_drop [OF assms(1)] d by simp_all
  have "rx_inv cfg api items held (start_request cfg api evt meth (rp, mq\<lparr>mq_rx_response := False\<rparr>))" for meth
    using inv by (intro rx_inv_start_request) simp_all
  with inv assms(2) d show ?thesis
    by (auto simp: start_message_def Let_def intro!: rx_inv_correlation split: if_splits option.splits)
qed

lemma rx_inv_take_payload:
  assumes "rx_inv cfg api items held (rp, mq)"
  shows "rx_inv cfg api items held (take_payload cfg api evt (rp, mq))"
proof (cases "mq_rx_response mq \<or> mq_rx_slot mq = None")
  case True
  with assms show ?thesis
    by (auto simp: take_payload_def rx_inv_def rx_list_def rpc_ok_deliver Let_def)
next
  case False
  then obtain idx where idx: "mq_rx_slot mq = Some idx" "\<not> mq_rx_response mq" by blast
  with assms have c: "slots_conserved api (k_queue_len cfg) items (idx # held) rp" and ok: "rpc_ok cfg rp"
    by (simp_all add: rx_inv_def rx_list_def)
  have "idx < k_queue_len cfg" using slots_range [OF c, of idx] by simp
  note slot = slot_ok_store [OF rpc_ok_slot [OF ok this]]
  have "slots_conserved api (k_queue_len cfg) items (idx # held) (set_slot idx slot rp)" for slot
    using c by simp
  from slots_submit [OF this] c idx assms slot slot_ok_end [OF slot] ok show ?thesis
    by (auto simp: take_payload_def rx_inv_def rx_list_def Let_def intro!: rpc_ok_set_slot)
qed

lemma rx_inv_data: "rx_inv cfg api items held s \<Longrightarrow> rx_inv cfg api items held (handle_data cfg api evt s)"
  using rx_inv_start_message [of cfg api items held s evt] rx_inv_take_payload
  by (cases "start_message cfg api evt s"; cases s) (auto simp: handle_data_def)

lemma rx_inv_event:
  "rx_inv cfg api items held s \<Longrightarrow> rx_inv cfg api items held (event_handler cfg api env evt s)"
proof (induction cfg api env evt s rule: event_handler.induct)
  case (1 cfg api env rp mq)
  then show ?case by (simp add: Let_def)
next
  case (2 cfg api env rp mq)
  have "rx_inv cfg api items held (rp, mq\<lparr>mq_connected := False\<rparr>)"
    using 2 by simp
  from rx_inv_drop [OF this] show ?case by (auto simp: Let_def split: prod.split)
qed (simp_all add: rx_inv_data)

subsection \<open>The two tasks\<close>

text \<open>
  \<open>sy_held\<close> is the slot the request task has taken from the ready queue and not yet given back.
  \<open>handle\<close> and the events of esp-mqtt touch disjoint parts of the state (the held slot is never
  the one being filled, which is what the invariant shows), so an answer is one step.
\<close>

record ('q, 'w) rpc_sys =
  sy_rpc :: "('q, 'w) sc_rpc"
  sy_mqtt :: sc_mqtt
  sy_held :: "nat option"
  sy_world :: 'w

inductive rpc_step ::
    "kconfig \<Rightarrow> 'q queue_api \<Rightarrow> mqtt_env \<Rightarrow> (esp_err \<Rightarrow> string) \<Rightarrow> ('q, 'w) rpc_sys \<Rightarrow> ('q, 'w) rpc_sys \<Rightarrow> bool"
  for cfg api env err_name where
  event: "event_handler cfg api env evt (sy_rpc s, sy_mqtt s) = (rp, mq) \<Longrightarrow>
    rpc_step cfg api env err_name s (s\<lparr>sy_rpc := rp, sy_mqtt := mq\<rparr>)"
| receive: "sy_held s = None \<Longrightarrow> q_receive api (rp_ready (sy_rpc s)) = Some (idx, q) \<Longrightarrow>
    rpc_step cfg api env err_name s (s\<lparr>sy_rpc := (sy_rpc s)\<lparr>rp_ready := q\<rparr>, sy_held := Some idx\<rparr>)"
| answer: "sy_held s = Some idx \<Longrightarrow>
    handle cfg env err_name idx (sy_rpc s, sy_mqtt s, sy_world s) = (rp, mq, w) \<Longrightarrow>
    rpc_step cfg api env err_name s
      (s\<lparr>sy_rpc := give_back api idx rp, sy_mqtt := mq, sy_held := None, sy_world := w\<rparr>)"
| call: "sy_held s = None \<Longrightarrow> call_begin env meth params (sy_rpc s) (sy_mqtt s) = (ret, rp, mq) \<Longrightarrow>
    rpc_step cfg api env err_name s (s\<lparr>sy_rpc := rp, sy_mqtt := mq\<rparr>)"
| called: "sy_held s = None \<Longrightarrow> call_end ret answered doc (sy_rpc s) = (ret', doc', tok, rp) \<Longrightarrow>
    rpc_step cfg api env err_name s (s\<lparr>sy_rpc := rp\<rparr>)"
| other: "send env msg (sy_mqtt s) = (ret, mq) \<Longrightarrow> rpc_step cfg api env err_name s (s\<lparr>sy_mqtt := mq\<rparr>)"

text \<open>After \<open>init\<close> and the registration of methods, before the client is started.\<close>

definition booted ::
    "kconfig \<Rightarrow> 'q queue_api \<Rightarrow> ('q \<Rightarrow> nat list) \<Rightarrow> (string \<Rightarrow> 'w handler_spec option) \<Rightarrow> ('q, 'w) rpc_sys \<Rightarrow> bool" where
  "booted cfg api items methods s \<longleftrightarrow>
     (\<exists>free0 ready0 b1 b2 rp ms.
        items free0 = [] \<and> items ready0 = [] \<and> length b1 = k_result_max cfg \<and> length b2 = CALL_BUF_SIZE \<and>
        rpc_init cfg api True free0 ready0 b1 b2 = (ESP_OK, rp) \<and> sy_rpc s = rp\<lparr>rp_methods := ms\<rparr>) \<and>
     methods_are (sy_rpc s) methods \<and> (\<exists>device_id. sy_mqtt s = mqtt_init device_id) \<and> sy_held s = None"

definition held_list :: "('q, 'w) rpc_sys \<Rightarrow> nat list" where
  "held_list s = (case sy_held s of None \<Rightarrow> [] | Some idx \<Rightarrow> [idx])"

definition sys_inv ::
    "kconfig \<Rightarrow> 'q queue_api \<Rightarrow> ('q \<Rightarrow> nat list) \<Rightarrow> (string \<Rightarrow> 'w handler_spec option) \<Rightarrow> ('q, 'w) rpc_sys \<Rightarrow> bool" where
  "sys_inv cfg api items methods s \<longleftrightarrow>
     rx_inv cfg api items (held_list s) (sy_rpc s, sy_mqtt s) \<and> methods_are (sy_rpc s) methods"

lemma rpc_init_ok:
  assumes "rpc_init cfg api True free0 ready0 b1 b2 = (ESP_OK, rp)"
    and "length b1 = k_result_max cfg" and "length b2 = CALL_BUF_SIZE"
  shows "rpc_ok cfg rp"
  using assms by (auto simp: rpc_init_def rpc_ok_def CALL_BUF_SIZE_def slot_ok_init Let_def)

lemma sys_inv_booted:
  assumes "fifo_ok api (k_queue_len cfg) items" and "booted cfg api items methods s"
  shows "sys_inv cfg api items methods s"
proof -
  obtain free0 ready0 b1 b2 rp ms where b: "items free0 = []" "items ready0 = []" "length b1 = k_result_max cfg"
    "length b2 = CALL_BUF_SIZE" "rpc_init cfg api True free0 ready0 b1 b2 = (ESP_OK, rp)"
    "sy_rpc s = rp\<lparr>rp_methods := ms\<rparr>" "methods_are (sy_rpc s) methods" "sy_held s = None"
    and m: "\<exists>device_id. sy_mqtt s = mqtt_init device_id"
    using assms(2) unfolding booted_def by blast
  have "slots_conserved api (k_queue_len cfg) items [] rp"
    using rpc_init_conserved [OF assms(1) b(1,2,5)] by simp
  moreover have "rpc_ok cfg rp" by (rule rpc_init_ok [OF b(5,3,4)])
  ultimately show ?thesis
    using b(6-8) m by (auto simp: sys_inv_def rx_inv_def rx_list_def held_list_def mqtt_init_def slots_conserved_def rpc_ok_def)
qed

text \<open>Publishing does not touch the receiving half.\<close>

lemma send_frame:
  "send env m mq = (e, mq') \<Longrightarrow> mq_rx_slot mq' = mq_rx_slot mq \<and> mq_rx_correlation mq' = mq_rx_correlation mq"
  by (cases m) (auto simp: publish_def dest: publish_topic_frame split: if_splits)

lemma rx_inv_sent: "send env m mq = (e, mq') \<Longrightarrow>
    rx_inv cfg api items held (rp, mq') = rx_inv cfg api items held (rp, mq)"
  using send_frame [of env m mq e mq'] by (simp add: rx_inv_def rx_list_def)

lemma respond_send:
  assumes "respond env slot body mq = (e, mq')"
  shows "rx_inv cfg api items held (rp, mq') = rx_inv cfg api items held (rp, mq)"
proof -
  obtain e1 mq1 where first: "(if cstr (sl_response_topic slot) \<noteq> []
      then publish_topic env (cstr (sl_response_topic slot)) body 1 (Some (slot_props slot)) mq
      else (ESP_ERR_INVALID_ARG, mq)) = (e1, mq1)" by fastforce
  have 1: "rx_inv cfg api items held (rp, mq1) = rx_inv cfg api items held (rp, mq)"
    using first rx_inv_sent [of env "OnTopic (cstr (sl_response_topic slot)) body 1 (Some (slot_props slot))" mq e1 mq1
        cfg api items held rp]
    by (auto split: if_splits)
  have second: "(if e1 = ESP_ERR_INVALID_ARG then publish env ''res'' body 1 (Some (slot_props slot)) mq1
      else (e1, mq1)) = (e, mq')"
    using assms first by (auto simp: respond_def slot_props_def [symmetric] Let_def split: if_splits)
  with 1 show ?thesis
    using rx_inv_sent [of env "OnSub ''res'' body 1 (Some (slot_props slot))" mq1 e mq'
        cfg api items held rp] by (auto split: if_splits)
qed

lemma handle_rx_inv:
  assumes "rx_inv cfg api items held (rp, mq)" and "690 \<le> k_result_max cfg"
    and "methods_are rp methods" and "err_names_ok err_name"
    and "handle cfg env err_name idx (rp, mq, w) = (rp', mq', w')"
  shows "rx_inv cfg api items held (rp', mq') \<and> methods_are rp' methods"
proof -
  have "length (rp_resp_buf rp) = k_result_max cfg" using assms(1) by (simp add: rx_inv_def rpc_ok_def)
  from handle_body [OF this assms(2-5)] obtain v e where
    r: "respond env (rp_slots rp ! idx) (render v) mq = (e, mq')" and l: "length (rp_resp_buf rp') = k_result_max cfg"
    by blast
  obtain b where b: "rp' = rp\<lparr>rp_resp_buf := b\<rparr>" using handle_frame [OF assms(5)] by blast
  have "rx_inv cfg api items held (rp', mq)"
    using assms(1) l b by (simp add: rx_inv_def rpc_ok_def slots_conserved_def)
  moreover have "methods_are rp' methods" using assms(3) b by (simp add: methods_are_def find_method_def)
  ultimately show ?thesis using respond_send [OF r, of cfg api items held rp'] by simp
qed

lemma rp_methods_frame [simp]:
  "rp_methods (give_back api idx rp) = rp_methods rp" "rp_methods (submit api idx rp) = rp_methods rp"
  "rp_methods (set_slot idx slot rp) = rp_methods rp"
  "rp_methods (deliver_response c data off whole rp) = rp_methods rp"
  by (simp_all add: give_back_def submit_def set_slot_def deliver_response_def Let_def)

lemma take_free_slot_methods: "take_free_slot api rp = (o', rp') \<Longrightarrow> rp_methods rp' = rp_methods rp"
  by (auto simp: take_free_slot_def Let_def split: option.splits)

lemma drop_rx_slot_methods [simp]: "rp_methods (fst (drop_rx_slot api s)) = rp_methods (fst s)"
  by (simp add: drop_rx_slot_def split: option.split)

lemma start_request_methods [simp]:
  "rp_methods (fst (start_request cfg api evt m s)) = rp_methods (fst s)"
  by (simp add: start_request_def take_free_slot_methods split: prod.split option.split)

lemma start_message_methods [simp]:
  "rp_methods (fst (snd (start_message cfg api evt s))) = rp_methods (fst s)"
proof -
  obtain rp mq where d: "drop_rx_slot api s = (rp, mq)" by fastforce
  then have "rp_methods rp = rp_methods (fst s)" using drop_rx_slot_methods [of api s] by simp
  with d show ?thesis by (simp add: start_message_def Let_def)
qed

lemma take_payload_methods [simp]: "rp_methods (fst (take_payload cfg api evt s)) = rp_methods (fst s)"
  by (cases s) (simp add: take_payload_def Let_def split: option.split)

lemma event_methods: "rp_methods (fst (event_handler cfg api env evt s)) = rp_methods (fst s)"
proof (induction cfg api env evt s rule: event_handler.induct)
  case (2 cfg api env rp mq)
  show ?case
    using drop_rx_slot_methods [of api "(rp, mq\<lparr>mq_connected := False\<rparr>)"]
    by (cases "drop_rx_slot api (rp, mq\<lparr>mq_connected := False\<rparr>)") (simp add: Let_def)
next
  case (3 cfg api env evt s)
  show ?case
    using start_message_methods [of cfg api evt s]
    by (cases "start_message cfg api evt s") (simp add: handle_data_def)
qed (simp_all add: Let_def)

lemma sys_inv_step:
  assumes "rpc_step cfg api env err_name s t" and "sys_inv cfg api items methods s"
    and "690 \<le> k_result_max cfg" and "err_names_ok err_name"
  shows "sys_inv cfg api items methods t"
  using assms(1,2)
proof (cases rule: rpc_step.cases)
  case (event evt rp mq)
  have "methods_are rp methods"
    using assms(2) event_methods [of cfg api env evt "(sy_rpc s, sy_mqtt s)"] event(2) by (simp add: sys_inv_def methods_are_def find_method_def)
  with rx_inv_event [of cfg api items "held_list s" "(sy_rpc s, sy_mqtt s)" env evt] event assms(2)
  show ?thesis by (simp add: sys_inv_def held_list_def)
next
  case (receive idx q)
  have fifo: "fifo_ok api (k_queue_len cfg) items"
    using assms(2) by (simp add: sys_inv_def rx_inv_def slots_conserved_def)
  from fifo_receive_Some [OF fifo receive(3)] assms(2) receive
  show ?thesis
    by (simp add: sys_inv_def rx_inv_def held_list_def slots_conserved_def methods_are_def find_method_def)
next
  case (answer idx rp mq w)
  from assms(2) answer have "rx_inv cfg api items [idx] (sy_rpc s, sy_mqtt s)" "methods_are (sy_rpc s) methods"
    by (simp_all add: sys_inv_def held_list_def)
  from handle_rx_inv [OF this(1) assms(3) this(2) assms(4) answer(3)]
  have r: "rx_inv cfg api items [idx] (rp, mq)" "methods_are rp methods" by simp_all
  then have "slots_conserved api (k_queue_len cfg) items (idx # rx_list mq) rp"
    by (simp add: rx_inv_def slots_conserved_def add.commute)
  from slots_give [OF this] r answer show ?thesis
    by (simp add: sys_inv_def rx_inv_def held_list_def methods_are_def find_method_def give_back_def)
next
  case (call meth params ret rp mq)
  have "mq_rx_slot mq = mq_rx_slot (sy_mqtt s) \<and> mq_rx_correlation mq = mq_rx_correlation (sy_mqtt s)"
    using call(3) send_frame [of env "OnSub (call_topic meth) params 1 p" for p]
    by (auto simp: call_begin_def Let_def split: prod.splits)
  with call_begin_state [OF call(3)] call assms(2) show ?thesis
    by (simp add: sys_inv_def rx_inv_def rx_list_def held_list_def slots_conserved_def rpc_ok_def
        methods_are_def find_method_def CALL_BUF_SIZE_def)
next
  case (called ret answered doc ret' doc' tok rp)
  then have "rp = (sy_rpc s)\<lparr>rp_call_correlation := []\<rparr>"
    by (auto simp: call_end_def Let_def split: if_splits prod.splits)
  with called assms(2) show ?thesis
    by (simp add: sys_inv_def rx_inv_def held_list_def slots_conserved_def rpc_ok_def methods_are_def find_method_def)
next
  case (other msg ret mq)
  with rx_inv_sent [OF other(2), of cfg api items "held_list s" "sy_rpc s"] assms(2) show ?thesis
    by (simp add: sys_inv_def held_list_def)
qed

lemma sys_inv_reachable:
  assumes "(rpc_step cfg api env err_name)\<^sup>*\<^sup>* s0 s" and "booted cfg api items methods s0"
    and "fifo_ok api (k_queue_len cfg) items" and "690 \<le> k_result_max cfg" and "err_names_ok err_name"
  shows "sys_inv cfg api items methods s"
  using assms(1)
proof (induction rule: rtranclp_induct)
  case base
  show ?case by (rule sys_inv_booted [OF assms(3,2)])
next
  case (step s t)
  from step(2,3) assms(4,5) show ?case by (rule sys_inv_step)
qed

subsection \<open>Properties\<close>

text \<open>
  C3: No request slot is ever lost, duplicated or shared. However the events of esp-mqtt, the request
  task's moves, its calls and the publishes of other tasks interleave, every slot is at any time
  in exactly one place: free, ready, being filled by the MQTT task, or held by the request task.
  So the slot being filled is never the one being handled, and putting a slot on a queue never
  finds that queue full.
\<close>

theorem slots_never_lost:
  assumes "(rpc_step cfg api env err_name)\<^sup>*\<^sup>* s0 s" and "booted cfg api items methods s0"
    and "fifo_ok api (k_queue_len cfg) items" and "690 \<le> k_result_max cfg" and "err_names_ok err_name"
  shows "mset (items (rp_free (sy_rpc s))) + mset (items (rp_ready (sy_rpc s))) +
      mset (rx_list (sy_mqtt s)) + mset (held_list s) = mset [0..<k_queue_len cfg] \<and>
    set (rx_list (sy_mqtt s)) \<inter> set (held_list s) = {} \<and>
    (mq_rx_slot (sy_mqtt s) \<noteq> None \<longrightarrow> length (items (rp_ready (sy_rpc s))) < k_queue_len cfg) \<and>
    (mq_rx_slot (sy_mqtt s) \<noteq> None \<or> sy_held s \<noteq> None \<longrightarrow>
      length (items (rp_free (sy_rpc s))) < k_queue_len cfg)"
proof -
  have c: "slots_conserved api (k_queue_len cfg) items (rx_list (sy_mqtt s) @ held_list s) (sy_rpc s)"
    using sys_inv_reachable [OF assms] by (simp add: sys_inv_def rx_inv_def)
  from slots_distinct [OF c] have "set (rx_list (sy_mqtt s)) \<inter> set (held_list s) = {}" by auto
  with slots_count [OF c] c show ?thesis
    by (auto simp: slots_conserved_def rx_list_def held_list_def add.assoc split: option.splits)
qed

text \<open>
  C9: Whatever arrives from the network, nothing is written outside a buffer. In every reachable
  state, for any topics, properties, fragment offsets and lengths esp-mqtt may report, every slot's
  method and response topic are terminated inside their arrays, its correlation data and payload
  fit theirs, and the call's answer and the result buffer keep to their sizes.
\<close>

theorem requests_in_bounds:
  assumes "(rpc_step cfg api env err_name)\<^sup>*\<^sup>* s0 s" and "booted cfg api items methods s0"
    and "fifo_ok api (k_queue_len cfg) items" and "690 \<le> k_result_max cfg" and "err_names_ok err_name"
  shows "length (rp_slots (sy_rpc s)) = k_queue_len cfg \<and>
    (\<forall>slot \<in> set (rp_slots (sy_rpc s)).
      length (sl_method slot) = 48 \<and> length (cstr (sl_method slot)) < 48 \<and>
      length (sl_response_topic slot) = 96 \<and> length (cstr (sl_response_topic slot)) < 96 \<and>
      length (sl_correlation slot) = 64 \<and> sl_correlation_len slot \<le> 64 \<and>
      length (sl_payload slot) = k_payload_max cfg + 1 \<and> sl_payload_len slot \<le> k_payload_max cfg) \<and>
    length (rp_call_buf (sy_rpc s)) = 1024 \<and> rp_call_len (sy_rpc s) < 1024 \<and>
    length (rp_resp_buf (sy_rpc s)) = k_result_max cfg \<and> length (mq_rx_correlation (sy_mqtt s)) \<le> 64"
proof -
  have ok: "rpc_ok cfg (sy_rpc s)" "length (mq_rx_correlation (sy_mqtt s)) \<le> 64"
    using sys_inv_reachable [OF assms] by (simp_all add: sys_inv_def rx_inv_def)
  have cstr_less: "NUL \<in> set x \<Longrightarrow> length (cstr x) < length x" for x
    by (induction x) (auto simp: cstr_def)
  have "slot_ok cfg slot \<Longrightarrow> length (cstr (sl_method slot)) < 48 \<and> length (cstr (sl_response_topic slot)) < 96" for slot
    using cstr_less [of "sl_method slot"] cstr_less [of "sl_response_topic slot"] by (simp add: slot_ok_def)
  with ok show ?thesis by (auto simp: rpc_ok_def slot_ok_def CALL_BUF_SIZE_def)
qed

text \<open>A run of an example client: booted, connected, one request received in one piece.\<close>

definition sys_sample :: "(nat list, unit) rpc_sys" where
  "sys_sample = \<lparr>sy_rpc = ping_rpc\<lparr>rp_slots := replicate 4 (slot_init kconfig_default), rp_free := [0, 1, 2, 3],
       rp_ready := []\<rparr>, sy_mqtt = mqtt_init ''1'', sy_held = None, sy_world = ()\<rparr>"

lemma booted_sample: "booted kconfig_default (list_queue 4) (\<lambda>q. q) ping_methods sys_sample"
proof -
  have m: "methods_are (sy_rpc sys_sample) ping_methods"
    using ping_methods_are by (simp add: sys_sample_def methods_are_def find_method_def)
  obtain b1 b2 where b: "b1 = replicate 1536 NUL" "b2 = replicate 1024 NUL" by blast
  let ?rp = "snd (rpc_init kconfig_default (list_queue 4) True [] [] b1 b2) :: (nat list, unit) sc_rpc"
  have len: "length b1 = k_result_max kconfig_default" "length b2 = CALL_BUF_SIZE"
    by (simp_all add: b kconfig_default_def CALL_BUF_SIZE_def)
  have init: "rpc_init kconfig_default (list_queue 4) True [] [] b1 b2 = (ESP_OK, ?rp)"
    by (simp add: rpc_init_def Let_def)
  have "fold (\<lambda>idx q. snd (q_send (list_queue 4) idx q)) [0..<4] [] = [0, 1, 2, 3]"
    using fold_send [OF list_queue_ok, of "[]" "[0..<4]" 4] by (simp add: upt_rec numeral_2_eq_2 numeral_3_eq_3)
  moreover have "k_queue_len kconfig_default = 4" by (simp add: kconfig_default_def)
  ultimately have rp: "sy_rpc sys_sample = ?rp\<lparr>rp_methods := [Some (''ping'', ping_handler)]\<rparr>"
    unfolding sys_sample_def ping_rpc_def rpc_init_def Let_def b [symmetric] by simp
  have "sy_mqtt sys_sample = mqtt_init ''1''" "sy_held sys_sample = None" by (simp_all add: sys_sample_def)
  with m len init rp show ?thesis unfolding booted_def by blast
qed

lemma sys_sample_run:
  "\<exists>s. (rpc_step kconfig_default (list_queue 4) env_ok (\<lambda>e. ''ERR''))\<^sup>*\<^sup>* sys_sample s \<and> mq_connected (sy_mqtt s)"
proof -
  obtain rp mq where e: "event_handler kconfig_default (list_queue 4) env_ok MqttConnected (sy_rpc sys_sample, sy_mqtt sys_sample) = (rp, mq)"
    by fastforce
  then have "mq_connected mq" by (auto simp: env_ok_def Let_def notify_def split: if_splits)
  with rpc_step.event [OF e] show ?thesis
    by (intro exI [of _ "sys_sample\<lparr>sy_rpc := rp, sy_mqtt := mq\<rparr>"]) auto
qed

theorem slots_never_lost_witness:
  "\<exists>s. (rpc_step kconfig_default (list_queue 4) env_ok (\<lambda>e. ''ERR''))\<^sup>*\<^sup>* sys_sample s \<and> mq_connected (sy_mqtt s) \<and>
    set (rx_list (sy_mqtt s)) \<inter> set (held_list s) = {}"
proof -
  obtain s where s: "(rpc_step kconfig_default (list_queue 4) env_ok (\<lambda>e. ''ERR''))\<^sup>*\<^sup>* sys_sample s"
    "mq_connected (sy_mqtt s)" using sys_sample_run by blast
  have "fifo_ok (list_queue 4) (k_queue_len kconfig_default) (\<lambda>q. q)" "690 \<le> k_result_max kconfig_default"
    using list_queue_ok [of 4] by (simp_all add: kconfig_default_def)
  from slots_never_lost [OF s(1) booted_sample this err_names_sample] s show ?thesis by blast
qed

theorem requests_in_bounds_witness:
  "\<exists>s. (rpc_step kconfig_default (list_queue 4) env_ok (\<lambda>e. ''ERR''))\<^sup>*\<^sup>* sys_sample s \<and> mq_connected (sy_mqtt s) \<and>
    length (rp_slots (sy_rpc s)) = 4"
proof -
  obtain s where s: "(rpc_step kconfig_default (list_queue 4) env_ok (\<lambda>e. ''ERR''))\<^sup>*\<^sup>* sys_sample s"
    "mq_connected (sy_mqtt s)" using sys_sample_run by blast
  have "fifo_ok (list_queue 4) (k_queue_len kconfig_default) (\<lambda>q. q)" "690 \<le> k_result_max kconfig_default"
    using list_queue_ok [of 4] by (simp_all add: kconfig_default_def)
  from requests_in_bounds [OF s(1) booted_sample this err_names_sample] s show ?thesis
    by (auto simp: kconfig_default_def)
qed

end
