(* ===== verification/Rx_Request.thy ===== *)
theory Rx_Request
  imports Rx_Invariant
begin

text \<open>
  Reassembly: the fragments of one request message, as esp-mqtt hands them over, become one request
  in one slot, with the method, properties and payload of the message, put on the ready queue once.
\<close>

subsection \<open>Messages and their fragments\<close>

fun later_events :: "nat \<Rightarrow> nat \<Rightarrow> string list \<Rightarrow> mqtt_data list" where
  "later_events off whole [] = []"
| "later_events off whole (x # xs) =
     \<lparr>dt_topic = [], dt_data = x, dt_offset = off, dt_total = whole, dt_props = None\<rparr> #
     later_events (off + length x) whole xs"

definition message_events :: "string \<Rightarrow> mqtt_rx_props option \<Rightarrow> string list \<Rightarrow> mqtt_data list" where
  "message_events topic props chunks =
     (let whole = length (concat chunks) in
      \<lparr>dt_topic = topic, dt_data = hd chunks, dt_offset = 0, dt_total = whole, dt_props = props\<rparr> #
      later_events (length (hd chunks)) whole (tl chunks))"

text \<open>A message has one fragment, or several that are not empty.\<close>

definition chunked :: "string list \<Rightarrow> bool" where
  "chunked chunks \<longleftrightarrow> chunks \<noteq> [] \<and> (tl chunks \<noteq> [] \<longrightarrow> [] \<notin> set chunks)"

text \<open>The parts of the properties that a slot keeps.\<close>

definition kept_correlation :: "mqtt_rx_props option \<Rightarrow> string" where
  "kept_correlation props = (case props of None \<Rightarrow> []
     | Some p \<Rightarrow> if length (xp_correlation p) \<le> 64 then xp_correlation p else [])"

definition kept_response_topic :: "mqtt_rx_props option \<Rightarrow> string" where
  "kept_response_topic props = (case props of None \<Rightarrow> []
     | Some p \<Rightarrow> if length (xp_response_topic p) < 96 then cstr (xp_response_topic p) else [])"

text \<open>The slot of a message of \<open>whole\<close> bytes of which \<open>x\<close> has arrived.\<close>

definition slot_holds :: "kconfig \<Rightarrow> string \<Rightarrow> mqtt_rx_props option \<Rightarrow> nat \<Rightarrow> string \<Rightarrow> sc_rpc_slot \<Rightarrow> bool" where
  "slot_holds cfg meth props whole x slot \<longleftrightarrow>
     slot_ok cfg slot \<and> cstr (sl_method slot) = dotted (take 47 meth) \<and>
     take (sl_correlation_len slot) (sl_correlation slot) = kept_correlation props \<and>
     cstr (sl_response_topic slot) = kept_response_topic props \<and>
     (sl_too_large slot \<longleftrightarrow> whole > k_payload_max cfg) \<and>
     (if sl_too_large slot then sl_payload_len slot = 0
      else sl_payload_len slot = length x \<and> take (length x) (sl_payload slot) = x)"

subsection \<open>The first fragment\<close>

lemma cstr_terminated:
  assumes "length s < length buf"
  shows "cstr ((memcpy buf 0 s)[length s := NUL]) = cstr s"
proof -
  have "drop (length s) buf \<noteq> []" using assms by simp
  then obtain c cs where d: "drop (length s) buf = c # cs" by (cases "drop (length s) buf") auto
  then have "(memcpy buf 0 s)[length s := NUL] = s @ NUL # cs" by (simp add: memcpy_def)
  then show ?thesis by (simp add: cstr_append_NUL)
qed

lemma cstr_hd_nul: "xs \<noteq> [] \<Longrightarrow> cstr (xs[0 := NUL]) = []"
  by (cases xs) (simp_all add: cstr_def)

lemma dotted_nul: "NUL \<notin> set m \<Longrightarrow> NUL \<notin> set (dotted m)"
  by (auto simp: dotted_def)

definition fresh_slot :: "sc_rpc_slot \<Rightarrow> sc_rpc_slot" where
  "fresh_slot slot = slot\<lparr>sl_too_large := False, sl_correlation_len := 0, sl_payload_len := 0,
     sl_method := (sl_method slot)[0 := NUL], sl_response_topic := (sl_response_topic slot)[0 := NUL]\<rparr>"

lemma fill_slot_holds:
  assumes "slot_ok cfg slot" and "NUL \<notin> set meth" and "dt_props evt = props" and "dt_total evt = whole"
  shows "slot_holds cfg meth props whole [] (fill_slot cfg evt meth (fresh_slot slot))"
proof -
  let ?s = "fill_slot cfg evt meth (fresh_slot slot)"
  have len: "length (sl_method slot) = 48" "length (sl_response_topic slot) = 96" "length (sl_correlation slot) = 64"
    using assms(1) by (simp_all add: slot_ok_def)
  have ok: "slot_ok cfg ?s"
    using slot_ok_fill [OF slot_ok_reset [OF assms(1)]] by (simp add: fresh_slot_def)
  let ?m = "dotted (take 47 meth)" and ?n = "if length meth < 47 then length meth else 47"
  have n: "?n = length ?m" "take ?n meth = take 47 meth" by simp_all
  have "sl_method ?s = (memcpy ((sl_method slot)[0 := NUL]) 0 ?m)[length ?m := NUL]"
    using n by (simp add: fill_slot_def fresh_slot_def Let_def split: option.split)
  moreover have "cstr ?m = ?m" using assms(2) set_take_subset [of 47 meth]
    by (intro cstr_no_nul dotted_nul) auto
  ultimately have m: "cstr (sl_method ?s) = ?m"
    using cstr_terminated [of ?m "(sl_method slot)[0 := NUL]"] len by simp
  have c: "take (sl_correlation_len ?s) (sl_correlation ?s) = kept_correlation props"
    using len assms(3) take_memcpy [of 0 "sl_correlation slot"]
    by (auto simp: fill_slot_def fresh_slot_def kept_correlation_def Let_def split: option.split)
  have hd: "cstr ((sl_response_topic slot)[0 := NUL]) = []" by (rule cstr_hd_nul) (use len in auto)
  have r: "cstr (sl_response_topic ?s) = kept_response_topic props"
    using len assms(3) cstr_terminated [of "xp_response_topic p" "(sl_response_topic slot)[0 := NUL]" for p]
      hd cstr_no_nul [of "[]"]
    by (auto simp: fill_slot_def fresh_slot_def kept_response_topic_def Let_def split: option.split)
  have "sl_too_large ?s \<longleftrightarrow> whole > k_payload_max cfg" "sl_payload_len ?s = 0"
    using assms(4) by (auto simp: fill_slot_def fresh_slot_def Let_def split: option.split)
  with ok m c r show ?thesis by (simp add: slot_holds_def)
qed

lemma store_holds:
  assumes "slot_holds cfg meth props whole x slot" and "length x + length data \<le> whole"
  shows "slot_holds cfg meth props whole (x @ data) (store_payload cfg (length x) data slot)"
proof (cases "sl_too_large slot")
  case True
  with assms slot_ok_store show ?thesis by (simp add: slot_holds_def store_payload_def)
next
  case False
  with assms have fits: "length x + length data \<le> k_payload_max cfg" by (simp add: slot_holds_def)
  with False assms have "length x \<le> length (sl_payload slot)" by (simp add: slot_holds_def slot_ok_def)
  from take_memcpy [OF this, of data] False assms fits slot_ok_store [of cfg slot "length x" data]
  show ?thesis by (simp add: slot_holds_def store_payload_def)
qed

lemma end_holds:
  "slot_holds cfg meth props whole x slot \<Longrightarrow>
    slot_holds cfg meth props whole x (slot\<lparr>sl_payload := (sl_payload slot)[sl_payload_len slot := NUL]\<rparr>)"
  by (auto simp: slot_holds_def slot_ok_def)

subsection \<open>The whole message\<close>

text \<open>The state while the slot \<open>idx\<close> is being filled; the rest of the RPC state is \<open>rp0\<close>'s.\<close>

definition filling ::
    "kconfig \<Rightarrow> string \<Rightarrow> mqtt_rx_props option \<Rightarrow> nat \<Rightarrow> nat \<Rightarrow> string \<Rightarrow> ('q, 'w) sc_rpc \<Rightarrow>
     ('q, 'w) sc_rpc \<times> sc_mqtt \<Rightarrow> bool" where
  "filling cfg meth props whole idx x rp0 s \<longleftrightarrow>
     mq_rx_slot (snd s) = Some idx \<and> \<not> mq_rx_response (snd s) \<and> idx < length (rp_slots rp0) \<and>
     (\<exists>slot. fst s = set_slot idx slot rp0 \<and> slot_holds cfg meth props whole x slot)"

lemma set_slot_twice [simp]: "set_slot idx slot2 (set_slot idx slot1 rp) = set_slot idx slot2 rp"
  by (simp add: set_slot_def)

lemma take_payload_run:
  assumes "filling cfg meth props whole idx x rp0 s" and "dt_offset evt = length x" and "dt_total evt = whole"
    and "dt_data evt = y" and "length x + length y \<le> whole"
  shows "\<exists>slot. slot_holds cfg meth props whole (x @ y) slot \<and> take_payload cfg api evt s =
    (if length x + length y \<ge> whole
     then (submit api idx (set_slot idx (slot\<lparr>sl_payload := (sl_payload slot)[sl_payload_len slot := NUL]\<rparr>) rp0),
           (snd s)\<lparr>mq_rx_slot := None\<rparr>)
     else (set_slot idx slot rp0, snd s))"
proof -
  obtain slot where slot: "fst s = set_slot idx slot rp0" "slot_holds cfg meth props whole x slot"
    and mq: "mq_rx_slot (snd s) = Some idx" "\<not> mq_rx_response (snd s)" "idx < length (rp_slots rp0)"
    using assms(1) unfolding filling_def by blast
  have "rp_slots (fst s) ! idx = slot" using slot(1) mq(3) by (simp add: set_slot_def)
  with mq slot(1) assms(2-4) store_holds [OF slot(2) assms(5)] show ?thesis
    by (intro exI [of _ "store_payload cfg (length x) y slot"]) (cases s, simp add: take_payload_def Let_def)
qed

lemma take_payload_last:
  assumes "filling cfg meth props whole idx x rp0 s" and "dt_offset evt = length x" and "dt_total evt = whole"
    and "dt_data evt = y" and "length x + length y = whole"
  shows "\<exists>slot. take_payload cfg api evt s = (submit api idx (set_slot idx slot rp0), (snd s)\<lparr>mq_rx_slot := None\<rparr>) \<and>
    slot_holds cfg meth props whole (x @ y) slot"
  using take_payload_run [OF assms(1-4), of api] assms(5) end_holds by fastforce

lemma take_payload_more:
  assumes "filling cfg meth props whole idx x rp0 s" and "dt_offset evt = length x" and "dt_total evt = whole"
    and "dt_data evt = y" and "length x + length y < whole"
  shows "filling cfg meth props whole idx (x @ y) rp0 (take_payload cfg api evt s)"
    and "snd (take_payload cfg api evt s) = snd s"
  using take_payload_run [OF assms(1-4), of api] assms(1,5) by (auto simp: filling_def)

lemma later_filling:
  assumes "filling cfg meth props whole idx x rp0 s" and "length x + length (concat xs) = whole"
    and "length x < whole" and "[] \<notin> set xs" and "x \<noteq> []"
  shows "\<exists>slot. fold (handle_data cfg api) (later_events (length x) whole xs) s =
      (submit api idx (set_slot idx slot rp0), (snd s)\<lparr>mq_rx_slot := None\<rparr>) \<and>
    slot_holds cfg meth props whole (x @ concat xs) slot"
  using assms
proof (induction xs arbitrary: x s)
  case (Cons y ys)
  let ?evt = "\<lparr>dt_topic = [], dt_data = y, dt_offset = length x, dt_total = whole, dt_props = None\<rparr>"
  have le: "length x + length y \<le> whole" using Cons.prems(2) by simp
  have one: "handle_data cfg api ?evt s = take_payload cfg api ?evt s"
    using Cons.prems(5) by (simp add: handle_data_def)
  show ?case
  proof (cases "length x + length y = whole")
    case True
    then have "ys = []" using Cons.prems(2,4) by (cases ys) auto
    with take_payload_last [OF Cons.prems(1), of ?evt y api] True one show ?thesis by auto
  next
    case False
    with le have lt: "length x + length y < whole" by simp
    note f = take_payload_more [OF Cons.prems(1) _ _ _ lt, of ?evt api, simplified]
    have "length (x @ y) < whole" "length (x @ y) + length (concat ys) = whole" "[] \<notin> set ys" "x @ y \<noteq> []"
      using lt Cons.prems by auto
    from Cons.IH [OF f(1) this(2,1,3,4)] f(2) one show ?thesis by simp
  qed
qed simp

text \<open>The topic of a request for a method (slashes for dots), below a client's own prefix.\<close>

definition request_topic :: "sc_mqtt \<Rightarrow> string \<Rightarrow> string" where
  "request_topic mq meth = mq_down mq @ ''req/'' @ meth"

definition topics_ok :: "sc_mqtt \<Rightarrow> bool" where
  "topics_ok mq \<longleftrightarrow> NUL \<notin> set (mq_down mq) \<and> mq_down_len mq = length (mq_down mq)"

lemma drop_rx_slot_mqtt:
  "snd (drop_rx_slot api (rp, mq)) = mq\<lparr>mq_rx_slot := None\<rparr>"
  by (cases "mq_rx_slot mq") (simp_all add: drop_rx_slot_def)

lemma start_message_request:
  assumes "topics_ok mq" and "NUL \<notin> set meth" and "meth \<noteq> []" and "dt_topic evt = request_topic mq meth"
  shows "start_message cfg api evt (rp, mq) =
    (True, start_request cfg api evt meth (fst (drop_rx_slot api (rp, mq)), mq\<lparr>mq_rx_slot := None, mq_rx_response := False\<rparr>))"
proof -
  have "NUL \<notin> set (mq_down mq @ ''req/'' @ meth)" using assms(1,2) by (auto simp: topics_ok_def)
  then have "strncmp_eq (dt_topic evt) (mq_down mq) (mq_down_len mq)"
    using assms(1,4) by (simp add: strncmp_eq_def request_topic_def topics_ok_def cstr_no_nul)
  moreover have "strncmp_eq (''req/'' @ meth) ''req/'' 4"
    using assms(2) by (simp add: strncmp_eq_def cstr_no_nul)
  moreover have "drop (mq_down_len mq) (dt_topic evt) = ''req/'' @ meth" "mq_down_len mq < length (dt_topic evt)"
    using assms(1,4) by (simp_all add: request_topic_def topics_ok_def)
  ultimately show ?thesis
    using assms(3) drop_rx_slot_mqtt [of api rp mq]
    by (cases "drop_rx_slot api (rp, mq)") (simp add: start_message_def Let_def)
qed

lemma take_free_slot_fresh:
  "take_free_slot api rp = (Some idx, rp') \<Longrightarrow>
    \<exists>q. rp' = set_slot idx (fresh_slot (rp_slots rp ! idx)) (rp\<lparr>rp_free := q\<rparr>)"
  by (auto simp: take_free_slot_def set_slot_def fresh_slot_def Let_def split: option.splits)

lemma take_free_slot_receive:
  assumes "fifo_ok api n items" and "items (rp_free rp) = idx # rest"
  shows "\<exists>q. items q = rest \<and>
    take_free_slot api rp = (Some idx, set_slot idx (fresh_slot (rp_slots rp ! idx)) (rp\<lparr>rp_free := q\<rparr>))"
proof -
  obtain q where "q_receive api (rp_free rp) = Some (idx, q)" "items q = rest"
    using receive_Cons [OF assms] by blast
  then show ?thesis by (intro exI [of _ q]) (simp add: take_free_slot_def set_slot_def fresh_slot_def Let_def)
qed

lemma request_received:
  assumes "rx_inv cfg api items held (rp, mq)" and "topics_ok mq" and "NUL \<notin> set meth" and "meth \<noteq> []"
    and "chunked chunks" and "items (rp_free (fst (drop_rx_slot api (rp, mq)))) = idx # rest"
  shows "\<exists>slot q. fold (handle_data cfg api) (message_events (request_topic mq meth) props chunks) (rp, mq) =
      (submit api idx (set_slot idx slot ((fst (drop_rx_slot api (rp, mq)))\<lparr>rp_free := q\<rparr>)),
       mq\<lparr>mq_rx_slot := None, mq_rx_response := False\<rparr>) \<and>
    items q = rest \<and> slot_holds cfg meth props (length (concat chunks)) (concat chunks) slot"
proof -
  let ?rp1 = "fst (drop_rx_slot api (rp, mq))" and ?mq1 = "mq\<lparr>mq_rx_slot := None, mq_rx_response := False\<rparr>"
  let ?whole = "length (concat chunks)"
  obtain y ys where ch: "chunks = y # ys" using assms(5) by (cases chunks) (auto simp: chunked_def)
  let ?evt = "\<lparr>dt_topic = request_topic mq meth, dt_data = y, dt_offset = 0, dt_total = ?whole, dt_props = props\<rparr>"
  have inv: "rx_inv cfg api items held (?rp1, ?mq1)"
    using rx_inv_drop [OF assms(1)] drop_rx_slot_mqtt [of api rp mq]
    by (cases "drop_rx_slot api (rp, mq)") (simp add: rx_inv_def rx_list_def)
  then have fifo: "fifo_ok api (k_queue_len cfg) items" and ok: "rpc_ok cfg ?rp1"
    and c: "slots_conserved api (k_queue_len cfg) items held ?rp1"
    by (simp_all add: rx_inv_def rx_list_def slots_conserved_def)
  have idx: "idx < k_queue_len cfg" using slots_range [OF c, of idx] assms(6) by simp
  obtain q where q: "items q = rest" "take_free_slot api ?rp1 =
      (Some idx, set_slot idx (fresh_slot (rp_slots ?rp1 ! idx)) (?rp1\<lparr>rp_free := q\<rparr>))"
    using take_free_slot_receive [OF fifo assms(6)] by blast
  let ?rp0 = "?rp1\<lparr>rp_free := q\<rparr>"
  let ?slot = "fill_slot cfg ?evt meth (fresh_slot (rp_slots ?rp1 ! idx))"
  have len: "length (rp_slots ?rp1) = k_queue_len cfg" using ok by (simp add: rpc_ok_def)
  have start: "start_message cfg api ?evt (rp, mq) = (True, set_slot idx ?slot ?rp0, ?mq1\<lparr>mq_rx_slot := Some idx\<rparr>)"
    using start_message_request [OF assms(2-4), of ?evt cfg api rp] q(2) idx len
    by (simp add: start_request_def set_slot_def)
  have "slot_holds cfg meth props ?whole [] ?slot"
    by (rule fill_slot_holds [OF rpc_ok_slot [OF ok idx] assms(3)]) simp_all
  then have f: "filling cfg meth props ?whole idx [] ?rp0 (set_slot idx ?slot ?rp0, ?mq1\<lparr>mq_rx_slot := Some idx\<rparr>)"
    (is "filling _ _ _ _ _ _ _ ?s") using idx len by (auto simp: filling_def)
  have first: "handle_data cfg api ?evt (rp, mq) = take_payload cfg api ?evt ?s"
    using start by (simp add: handle_data_def)
  have events: "message_events (request_topic mq meth) props chunks = ?evt # later_events (length y) ?whole ys"
    by (simp add: message_events_def ch Let_def)
  have le: "length y \<le> ?whole" by (simp add: ch)
  show ?thesis
  proof (cases "length y = ?whole")
    case True
    then have ys: "ys = []" using assms(5) ch by (cases ys) (auto simp: chunked_def)
    obtain slot where
      "take_payload cfg api ?evt ?s = (submit api idx (set_slot idx slot ?rp0), (snd ?s)\<lparr>mq_rx_slot := None\<rparr>)"
      "slot_holds cfg meth props ?whole y slot"
      using take_payload_last [OF f, of ?evt y api] True by auto
    with events first q(1) ch ys show ?thesis by (intro exI [of _ slot] exI [of _ q]) simp
  next
    case False
    with le have lt: "length [] + length y < ?whole" by simp
    from False have "ys \<noteq> []" using ch by auto
    then have ne: "[] \<notin> set ys" "y \<noteq> []" using assms(5) ch by (auto simp: chunked_def)
    have more: "filling cfg meth props ?whole idx y ?rp0 (take_payload cfg api ?evt ?s)"
      "snd (take_payload cfg api ?evt ?s) = snd ?s"
      using take_payload_more [OF f _ _ _ lt, of ?evt api] by simp_all
    have "length y + length (concat ys) = ?whole" "length y < ?whole" using ch lt by simp_all
    from later_filling [OF more(1) this ne, of api] more(2) obtain slot where
      "fold (handle_data cfg api) (later_events (length y) ?whole ys) (take_payload cfg api ?evt ?s) =
        (submit api idx (set_slot idx slot ?rp0), (snd ?s)\<lparr>mq_rx_slot := None\<rparr>)"
      "slot_holds cfg meth props ?whole (y @ concat ys) slot" by auto
    with events first q(1) ch show ?thesis by (intro exI [of _ slot] exI [of _ q]) simp
  qed
qed

subsection \<open>An example\<close>

lemma ping_rx_inv: "rx_inv kconfig_default (list_queue 4) (\<lambda>q. q) [] (ping_rpc, online)"
proof -
  have "slot_ok kconfig_default ping_slot" by (simp add: ping_slot_def slot_ok_def slot_init_def)
  moreover have "set (rp_slots ping_rpc) = {ping_slot, slot_init kconfig_default}"
    "length (rp_slots ping_rpc) = 4" by (auto simp: ping_rpc_def)
  moreover have "length (rp_call_buf ping_rpc) = CALL_BUF_SIZE" "rp_call_len ping_rpc < CALL_BUF_SIZE"
    "length (rp_resp_buf ping_rpc) = k_result_max kconfig_default" "k_queue_len kconfig_default = 4"
    by (simp_all add: ping_rpc_def CALL_BUF_SIZE_def kconfig_default_def)
  ultimately have "rpc_ok kconfig_default ping_rpc" using slot_ok_init by (simp add: rpc_ok_def)
  with ping_conserved show ?thesis
    by (simp add: rx_inv_def rx_list_def online_def mqtt_init_def kconfig_default_def)
qed

lemma online_topics: "topics_ok online"
  by (simp add: topics_ok_def online_def mqtt_init_def snprintf_def)

lemma online_idle: "mq_rx_slot online = None"
  by (simp add: online_def mqtt_init_def)

lemma request_becomes_ready:
  assumes "rx_inv cfg api items held (rp, mq)" and "topics_ok mq" and "NUL \<notin> set meth" and "meth \<noteq> []"
    and "chunked chunks" and "items (rp_free (fst (drop_rx_slot api (rp, mq)))) = idx # rest"
  shows "case fold (handle_data cfg api) (message_events (request_topic mq meth) props chunks) (rp, mq) of (rp', mq') \<Rightarrow>
    slot_holds cfg meth props (length (concat chunks)) (concat chunks) (rp_slots rp' ! idx) \<and>
    items (rp_ready rp') = items (rp_ready rp) @ [idx] \<and> items (rp_free rp') = rest \<and>
    rp_signals rp' = rp_signals rp @ [SetRequest] \<and> (\<forall>j. j \<noteq> idx \<longrightarrow> rp_slots rp' ! j = rp_slots rp ! j) \<and>
    mq' = mq\<lparr>mq_rx_slot := None, mq_rx_response := False\<rparr> \<and> rx_inv cfg api items held (rp', mq')"
proof -
  let ?rp1 = "fst (drop_rx_slot api (rp, mq))"
  obtain slot q where run: "fold (handle_data cfg api) (message_events (request_topic mq meth) props chunks) (rp, mq) =
      (submit api idx (set_slot idx slot (?rp1\<lparr>rp_free := q\<rparr>)), mq\<lparr>mq_rx_slot := None, mq_rx_response := False\<rparr>)"
    and q: "items q = rest" and slot: "slot_holds cfg meth props (length (concat chunks)) (concat chunks) slot"
    using request_received [OF assms] by blast
  have fold_inv: "rx_inv cfg api items held (fold (handle_data cfg api) evts s)"
    if "rx_inv cfg api items held s" for evts s
    using that by (induction evts arbitrary: s) (simp_all add: rx_inv_data)
  have same: "rp_slots ?rp1 = rp_slots rp" "rp_signals ?rp1 = rp_signals rp" "rp_ready ?rp1 = rp_ready rp"
    by (simp_all add: drop_rx_slot_def give_back_def split: option.split)
  have inv: "rx_inv cfg api items held (?rp1, mq\<lparr>mq_rx_slot := None\<rparr>)"
    using rx_inv_drop [OF assms(1)] drop_rx_slot_mqtt [of api rp mq] by (cases "drop_rx_slot api (rp, mq)") simp
  then have c: "slots_conserved api (k_queue_len cfg) items held ?rp1" and ok: "rpc_ok cfg ?rp1"
    by (simp_all add: rx_inv_def rx_list_def)
  have idx: "idx < length (rp_slots rp)" using slots_range [OF c, of idx] assms(6) ok same(1) by (simp add: rpc_ok_def)
  have "length (items (rp_ready rp)) < k_queue_len cfg" using slots_count [OF c] assms(6) same(3) by simp
  then have ready: "items (snd (q_send api idx (rp_ready rp))) = items (rp_ready rp) @ [idx]"
    using c by (intro fifo_send) (simp_all add: slots_conserved_def)
  show ?thesis
    using run q slot same idx ready fold_inv [OF assms(1), of "message_events (request_topic mq meth) props chunks"]
    by (simp add: submit_def set_slot_def)
qed

subsection \<open>Properties\<close>

text \<open>
  C4: A request arrives whole. Whatever was received before (also an unfinished message), once all
  fragments of a message on \<open>down/req/<method>\<close> have been handled and there was a free slot, exactly
  one slot has moved from the front of the free queue to the end of the ready queue and the request
  task has been signalled once; the slot holds the method (slashes as dots, at most 47 characters),
  the correlation data and response topic when they fit, and the whole payload, or the mark that it
  is too large; no other slot has changed, and none is being filled.
\<close>

theorem request_reassembled:
  assumes "rx_inv cfg api items held (rp, mq)" and "topics_ok mq" and "NUL \<notin> set meth" and "meth \<noteq> []"
    and "chunked chunks" and "items (rp_free (fst (drop_rx_slot api (rp, mq)))) = idx # rest"
  shows "case fold (handle_data cfg api) (message_events (request_topic mq meth) props chunks) (rp, mq) of (rp', mq') \<Rightarrow>
    slot_holds cfg meth props (length (concat chunks)) (concat chunks) (rp_slots rp' ! idx) \<and>
    items (rp_ready rp') = items (rp_ready rp) @ [idx] \<and> items (rp_free rp') = rest \<and>
    rp_signals rp' = rp_signals rp @ [SetRequest] \<and> (\<forall>j. j \<noteq> idx \<longrightarrow> rp_slots rp' ! j = rp_slots rp ! j) \<and>
    mq' = mq\<lparr>mq_rx_slot := None, mq_rx_response := False\<rparr> \<and> rx_inv cfg api items held (rp', mq')"
  by (rule request_becomes_ready [OF assms])

theorem request_reassembled_witness:
  "case fold (handle_data kconfig_default (list_queue 4))
      (message_events (request_topic online ''ota/start'') None [''{'', ''}'']) (ping_rpc, online) of (rp', mq') \<Rightarrow>
    slot_holds kconfig_default ''ota/start'' None 2 ''{}'' (rp_slots rp' ! 1) \<and> rp_ready rp' = [0, 1] \<and>
    rp_free rp' = [2, 3] \<and> rp_signals rp' = [SetRequest]"
proof -
  have free: "rp_free (fst (drop_rx_slot (list_queue 4) (ping_rpc, online))) = 1 # [2, 3]"
    by (simp add: drop_rx_slot_def online_idle ping_rpc_def)
  have "chunked [''{'', ''}'']" by (simp add: chunked_def)
  from request_reassembled [OF ping_rx_inv online_topics _ _ this free, of "''ota/start''" None]
  show ?thesis by (simp add: ping_rpc_def numeral_2_eq_2 numeral_3_eq_3 split: prod.split_asm)
qed

text \<open>
  C37: A request that finds no free slot is dropped, whatever its size and number of fragments: no
  slot is written, nothing becomes ready and nobody is signalled, and the next message starts
  from a clean state.
\<close>

theorem request_dropped:
  assumes "rx_inv cfg api items held (rp, mq)" and "topics_ok mq" and "NUL \<notin> set meth" and "meth \<noteq> []"
    and "chunked chunks" and "mq_rx_slot mq = None" and "items (rp_free rp) = []"
  shows "fold (handle_data cfg api) (message_events (request_topic mq meth) props chunks) (rp, mq) =
    (rp, mq\<lparr>mq_rx_slot := None, mq_rx_response := False\<rparr>)"
proof -
  let ?mq1 = "mq\<lparr>mq_rx_slot := None, mq_rx_response := False\<rparr>"
  obtain y ys where ch: "chunks = y # ys" using assms(5) by (cases chunks) (auto simp: chunked_def)
  have "fifo_ok api (k_queue_len cfg) items" using assms(1) by (simp add: rx_inv_def slots_conserved_def)
  from receive_Nil [OF this assms(7)] have none: "take_free_slot api rp = (None, rp)"
    by (simp add: take_free_slot_def)
  have idle: "take_payload cfg api evt (rp, ?mq1) = (rp, ?mq1)" for evt
    by (simp add: take_payload_def Let_def)
  have later: "fold (handle_data cfg api) (later_events off whole xs) (rp, ?mq1) = (rp, ?mq1)"
    if "off \<noteq> 0" for off whole xs
    using that by (induction off whole xs rule: later_events.induct) (simp_all add: handle_data_def idle)
  let ?evt = "\<lparr>dt_topic = request_topic mq meth, dt_data = y, dt_offset = 0,
    dt_total = length (concat chunks), dt_props = props\<rparr>"
  have "start_message cfg api ?evt (rp, mq) = (True, rp, ?mq1)"
    using start_message_request [OF assms(2-4), of ?evt cfg api rp] none assms(6)
    by (simp add: start_request_def drop_rx_slot_def)
  then have first: "handle_data cfg api ?evt (rp, mq) = (rp, ?mq1)" by (simp add: handle_data_def idle)
  have "ys = [] \<or> length y \<noteq> 0" using assms(5) ch by (auto simp: chunked_def)
  then show ?thesis using first later [of "length y" "length (concat chunks)" ys] ch
    by (auto simp: message_events_def Let_def)
qed

theorem request_dropped_witness:
  "fold (handle_data kconfig_default (list_queue 4)) (message_events (request_topic online ''info'') None [''{'', ''}''])
      (ping_rpc\<lparr>rp_free := [], rp_ready := [0, 1, 2, 3]\<rparr>, online) =
    (ping_rpc\<lparr>rp_free := [], rp_ready := [0, 1, 2, 3]\<rparr>, online\<lparr>mq_rx_slot := None, mq_rx_response := False\<rparr>)"
proof -
  let ?rp = "ping_rpc\<lparr>rp_free := [], rp_ready := [0, 1, 2, 3]\<rparr>"
  have "slots_conserved (list_queue 4) 4 (\<lambda>q. q) [] ?rp"
    by (simp add: slots_conserved_def list_queue_ok ping_rpc_def upt_rec numeral_2_eq_2 numeral_3_eq_3)
  moreover have "rpc_ok kconfig_default ?rp" "length (mq_rx_correlation online) \<le> 64"
    using ping_rx_inv by (simp_all add: rx_inv_def rpc_ok_def)
  ultimately have "rx_inv kconfig_default (list_queue 4) (\<lambda>q. q) [] (?rp, online)"
    by (simp add: rx_inv_def rx_list_def online_idle kconfig_default_def)
  then show ?thesis
    by (rule request_dropped) (simp_all add: online_topics online_idle chunked_def)
qed

end
