(* ===== verification/Client_Turn.thy ===== *)
theory Client_Turn
  imports Client Builtin_Answers Rx_Request
begin

text \<open>
  What the request task guarantees: its clock arithmetic is right across the wrap-around of the tick
  counter; one turn answers every waiting request and reports the status when it is due; and a request
  that arrives is answered in the next turn.
\<close>

subsection \<open>Ticks\<close>

lemma tick_difference:
  assumes "int n - int t < 2 ^ 31" and "- (2 ^ 31) \<le> int n - int t"
  shows "sint (of_nat n - of_nat t :: u32) = int n - int t"
proof -
  have "(of_nat n - of_nat t :: u32) = word_of_int (int n - int t)" by simp
  then have "sint (of_nat n - of_nat t :: u32) = signed_take_bit (32 - 1) (int n - int t)"
    by (simp only: sint_sbintrunc' len_num1 len_bit0 len_bit1) simp
  also have "\<dots> = int n - int t"
    using assms by (intro signed_take_bit_int_eq_self) simp_all
  finally show ?thesis .
qed

subsection \<open>The link stays up during a turn\<close>

lemma handle_link:
  assumes "handle cfg env err_name idx (rp, mq, w) = (rp', mq', w')" and "NUL \<notin> set (mq_up mq)"
  shows "mq_up mq' = mq_up mq \<and> mq_connected mq' = mq_connected mq"
  using assms respond_sent [OF _ assms(2)] by (auto simp: handle_def Let_def split: prod.splits)

lemma fold_handle_link:
  "fold (handle cfg env err_name) idxs (rp, mq, w) = (rp', mq', w') \<Longrightarrow> NUL \<notin> set (mq_up mq) \<Longrightarrow>
    mq_up mq' = mq_up mq \<and> mq_connected mq' = mq_connected mq"
proof (induction idxs arbitrary: rp mq w)
  case (Cons i idxs)
  obtain rp1 mq1 w1 where h: "handle cfg env err_name i (rp, mq, w) = (rp1, mq1, w1)" by (metis prod_cases3)
  from handle_link [OF h Cons.prems(2)] Cons.IH [of rp1 mq1 w1] Cons.prems h show ?case by simp
qed simp

lemma handle_ready_link:
  assumes "slots_conserved api n items out rp" and "handle_ready cfg api env err_name (rp, mq, w) = Some (rp', mq', w')"
    and "NUL \<notin> set (mq_up mq)"
  shows "mq_up mq' = mq_up mq \<and> mq_connected mq' = mq_connected mq"
proof -
  from handle_ready_fold [OF assms(1), of cfg env err_name mq w] assms(2) obtain rp1 where
    "fold (handle cfg env err_name) (items (rp_ready rp)) (rp, mq, w) = (rp1, mq', w')" by auto
  then show ?thesis by (rule fold_handle_link) (rule assms(3))
qed

subsection \<open>One turn\<close>

text \<open>The client can answer and report: its tables, its link, and what it reports.\<close>

definition client_ready ::
    "kconfig \<Rightarrow> 'q queue_api \<Rightarrow> ('q \<Rightarrow> nat list) \<Rightarrow> nat list \<Rightarrow> mqtt_env \<Rightarrow> (esp_err \<Rightarrow> string) \<Rightarrow>
     (string \<Rightarrow> 'r client_world handler_spec option) \<Rightarrow> ('q, 'r) client \<Rightarrow> bool" where
  "client_ready cfg api items held menv err_name methods c \<longleftrightarrow>
     slots_conserved api (k_queue_len cfg) items held (cl_rpc c) \<and> length (rp_resp_buf (cl_rpc c)) = k_result_max cfg \<and>
     690 \<le> k_result_max cfg \<and> methods_are (cl_rpc c) methods \<and> err_names_ok err_name \<and> env_takes menv \<and>
     mq_connected (cl_mqtt c) \<and> NUL \<notin> set (mq_up (cl_mqtt c)) \<and> length (mq_up (cl_mqtt c)) \<le> 80"

definition turn_due :: "('q, 'r) client \<Rightarrow> turn_input \<Rightarrow> bool" where
  "turn_due c inp \<longleftrightarrow> has_bit (cl_events c) BIT_REPORT_STATUS \<or> report_due (cl_next_report c) (tn_checked inp)"

lemma turn_answers:
  assumes "client_ready cfg api items held menv err_name methods c" and "\<not> has_bit (cl_events c) BIT_CONNECTED"
    and "turn_due c inp \<Longrightarrow> \<forall>t. status_ok cfg (cx_chip cenv t) es False (cl_status c)"
    and "answers cfg err_name methods (map ((!) (rp_slots (cl_rpc c))) (items (rp_ready (cl_rpc c)))) (cl_world c) = (vs, w')"
  shows "\<exists>c'. run_turn cfg api menv cenv err_name beat inp c = Some c' \<and> cl_world c' = w' \<and>
    items (rp_ready (cl_rpc c')) = [] \<and>
    sent (cl_mqtt c') = sent (cl_mqtt c) @ map (answer_message (mq_up (cl_mqtt c))) vs @
      (if turn_due c inp then [status_message cfg (cx_chip cenv (cw_calls w')) es False (cl_status c) (mq_up (cl_mqtt c))] else []) \<and>
    cl_next_report c' = (if turn_due c inp then tn_reported inp + beat else cl_next_report c)"
proof -
  define c1 where "c1 = (if has_bit (cl_events c) BIT_DISCONNECTED
      then tell False (c\<lparr>cl_events := cl_events c AND NOT WAIT_MASK\<rparr>) else c\<lparr>cl_events := cl_events c AND NOT WAIT_MASK\<rparr>)"
  have same: "cl_rpc c1 = cl_rpc c" "cl_mqtt c1 = cl_mqtt c" "cl_world c1 = cl_world c" "cl_status c1 = cl_status c"
    "cl_next_report c1 = cl_next_report c"
    by (simp_all add: c1_def tell_def)
  note r = assms(1) [unfolded client_ready_def]
  from ready_requests_answered [of api "k_queue_len cfg" items held "cl_rpc c" cfg methods err_name menv "cl_mqtt c" "cl_world c"] r assms(4)
  obtain rp' mq' where h: "handle_ready cfg api menv err_name (cl_rpc c, cl_mqtt c, cl_world c) = Some (rp', mq', w')"
    "sent mq' = sent (cl_mqtt c) @ map (answer_message (mq_up (cl_mqtt c))) vs" "items (rp_ready rp') = []"
    by auto
  have link: "mq_up mq' = mq_up (cl_mqtt c)" "mq_connected mq'"
    using handle_ready_link [OF _ h(1)] r by auto
  let ?c2 = "c1\<lparr>cl_rpc := rp', cl_mqtt := mq', cl_world := w'\<rparr>"
  have turn: "run_turn cfg api menv cenv err_name beat inp c = Some (if turn_due c inp
      then (report_status cfg menv cenv False ?c2)\<lparr>cl_next_report := tn_reported inp + beat\<rparr> else ?c2)"
    unfolding run_turn_def take_events_def Let_def prod.case if_not_P [OF assms(2)] c1_def [symmetric] same h(1) option.case
    using link(2) by (simp add: turn_due_def same)
  show ?thesis
  proof (cases "turn_due c inp")
    case False
    then show ?thesis unfolding turn using h(2,3) same(5) by simp
  next
    case True
    with assms(3) have "status_ok cfg (cx_chip cenv (cw_calls w')) es False (cl_status c)" by blast
    from status_report_sends [OF this, of menv mq'] r link obtain buf mq2 where
      s: "status_report cfg menv (cx_chip cenv (cw_calls w')) False (cl_status c, mq') = (ESP_OK, cl_status c\<lparr>st_buf := buf\<rparr>, mq2)"
      "sent mq2 = sent mq' @ [status_message cfg (cx_chip cenv (cw_calls w')) es False (cl_status c) (mq_up (cl_mqtt c))]"
      by auto
    have "report_status cfg menv cenv False ?c2 = ?c2\<lparr>cl_status := cl_status c\<lparr>st_buf := buf\<rparr>, cl_mqtt := mq2\<rparr>"
      by (simp add: report_status_def same s(1))
    with True show ?thesis unfolding turn using h(2,3) s(2) by simp
  qed
qed

subsection \<open>Events of esp-mqtt, as the client sees them\<close>

text \<open>Data only adds signals, and no callback of the connection is made.\<close>

lemma take_free_slot_signals: "take_free_slot api rp = (x, rp') \<Longrightarrow> rp_signals rp' = rp_signals rp"
  by (auto simp: take_free_slot_def Let_def split: option.splits)

lemma start_request_signals: "rp_signals (fst (start_request cfg api evt m s)) = rp_signals (fst s)"
  by (auto simp: start_request_def set_slot_def dest: take_free_slot_signals split: prod.split option.split)

lemma start_message_signals: "rp_signals (fst (snd (start_message cfg api evt s))) = rp_signals (fst s)"
proof -
  obtain rp mq where d: "drop_rx_slot api s = (rp, mq)" by fastforce
  have "rp_signals (fst (drop_rx_slot api s)) = rp_signals (fst s)"
    by (simp add: drop_rx_slot_def give_back_def split: option.split)
  with d show ?thesis by (simp add: start_message_def Let_def start_request_signals)
qed

lemma take_payload_signals: "\<exists>new. rp_signals (fst (take_payload cfg api evt s)) = rp_signals (fst s) @ new"
  by (cases s) (simp add: take_payload_def submit_def set_slot_def deliver_response_def Let_def split: option.split)

lemma handle_data_signals: "\<exists>new. rp_signals (fst (handle_data cfg api evt s)) = rp_signals (fst s) @ new"
proof -
  obtain go s1 where m: "start_message cfg api evt s = (go, s1)" by (cases "start_message cfg api evt s")
  with start_message_signals [of cfg api evt s] have s1: "rp_signals (fst s1) = rp_signals (fst s)" by simp
  consider "handle_data cfg api evt s = s" | "handle_data cfg api evt s = s1" | "handle_data cfg api evt s = take_payload cfg api evt s1"
    | "handle_data cfg api evt s = take_payload cfg api evt s"
    using m by (cases "dt_offset evt = 0"; cases go) (simp_all add: handle_data_def)
  then show ?thesis
    using take_payload_signals [of cfg api evt s] take_payload_signals [of cfg api evt s1] s1 by cases simp_all
qed

lemma drop_rx_slot_notified: "mq_notified (snd (drop_rx_slot api s)) = mq_notified (snd s)"
  by (simp add: drop_rx_slot_def split: option.split)

lemma start_request_notified: "mq_notified (snd (start_request cfg api evt m s)) = mq_notified (snd s)"
  by (simp add: start_request_def split: prod.split option.split)

lemma take_payload_notified: "mq_notified (snd (take_payload cfg api evt s)) = mq_notified (snd s)"
  by (cases s) (simp add: take_payload_def Let_def split: option.split)

lemma handle_data_notified: "mq_notified (snd (handle_data cfg api evt s)) = mq_notified (snd s)"
proof -
  obtain rp mq where d: "drop_rx_slot api s = (rp, mq)" by fastforce
  with drop_rx_slot_notified [of api s] have "mq_notified (snd (snd (start_message cfg api evt s))) = mq_notified (snd s)"
    by (simp add: start_message_def Let_def start_request_notified)
  then show ?thesis by (cases "start_message cfg api evt s") (simp add: handle_data_def take_payload_notified)
qed

lemma client_data_events:
  assumes "fold (handle_data cfg api) evts (cl_rpc c, cl_mqtt c) = (rp, mq)"
  shows "\<exists>new. rp_signals rp = rp_signals (cl_rpc c) @ new \<and>
    fold (client_event cfg api menv) (map MqttData evts) c =
      c\<lparr>cl_rpc := rp, cl_mqtt := mq, cl_events := fold (\<lambda>b bits. bits OR b) (map signal_bit new) (cl_events c)\<rparr>"
  using assms
proof (induction evts arbitrary: c)
  case (Cons evt evts)
  obtain rp1 mq1 where h: "handle_data cfg api evt (cl_rpc c, cl_mqtt c) = (rp1, mq1)" by fastforce
  obtain new1 where n1: "rp_signals rp1 = rp_signals (cl_rpc c) @ new1"
    using handle_data_signals [of cfg api evt "(cl_rpc c, cl_mqtt c)"] h by auto
  have "mq_notified mq1 = mq_notified (cl_mqtt c)"
    using handle_data_notified [of cfg api evt "(cl_rpc c, cl_mqtt c)"] h by simp
  with h n1 have e: "client_event cfg api menv (MqttData evt) c = c\<lparr>cl_rpc := rp1, cl_mqtt := mq1,
      cl_events := fold (\<lambda>b bits. bits OR b) (map signal_bit new1) (cl_events c)\<rparr>" (is "_ = ?c1")
    by (simp add: client_event_def Let_def)
  from Cons.IH [of ?c1] Cons.prems h obtain new2 where "rp_signals rp = rp_signals rp1 @ new2"
    "fold (client_event cfg api menv) (map MqttData evts) ?c1 = ?c1\<lparr>cl_rpc := rp, cl_mqtt := mq,
      cl_events := fold (\<lambda>b bits. bits OR b) (map signal_bit new2) (cl_events ?c1)\<rparr>" by auto
  with n1 e show ?case by (intro exI [of _ "new1 @ new2"]) simp
qed simp

subsection \<open>A request, from its fragments to its answer\<close>

text \<open>The answer to a request for \<open>name\<close> with this payload, and the topic it goes to.\<close>

definition request_answer ::
    "kconfig \<Rightarrow> (esp_err \<Rightarrow> string) \<Rightarrow> (string \<Rightarrow> 'w handler_spec option) \<Rightarrow> string \<Rightarrow> string \<Rightarrow> 'w \<Rightarrow> json \<times> 'w" where
  "request_answer cfg err_name methods name payload w =
     (let fail = (\<lambda>msg. error_answer (take 111 msg)) in
      if length payload > k_payload_max cfg
      then (fail (''request larger than '' @ dec_text (int (k_payload_max cfg)) @ '' bytes''), w)
      else case methods name of
        None \<Rightarrow> (fail (''unknown method '' @ name), w)
      | Some spec \<Rightarrow>
          (case reader_parse (if payload = [] then ''{}'' else payload) (sc_json_doc 32) of (pret, params) \<Rightarrow>
             if pret \<noteq> ESP_OK then (fail ''params must be a JSON object'', w)
             else case spec name params w of (ret, msg, es, w') \<Rightarrow>
               if cstr msg \<noteq> [] then (fail (cstr msg), w')
               else if ret \<noteq> ESP_OK then (fail (err_name ret), w')
               else if length (render (ok_answer es)) \<ge> k_result_max cfg
               then (fail (''result larger than '' @ dec_text (int (k_result_max cfg)) @ '' bytes''), w')
               else (ok_answer es, w')))"

definition request_reply_topic :: "string \<Rightarrow> mqtt_rx_props option \<Rightarrow> string" where
  "request_reply_topic up props =
     (let t = kept_response_topic props in if t \<noteq> [] \<and> prefix up t then t else up @ ''res'')"

definition answer_props :: "mqtt_rx_props option \<Rightarrow> sc_publish_props" where
  "answer_props props = \<lparr>pp_content_type = Some CONTENT_TYPE, pp_correlation = kept_correlation props,
     pp_response_topic = None\<rparr>"

lemma slot_answer:
  assumes "slot_holds cfg meth props (length x) x slot"
  shows "answer_of cfg err_name methods slot w = request_answer cfg err_name methods (dotted (take 47 meth)) x w"
    and "reply_topic up slot = request_reply_topic up props" and "slot_props slot = answer_props props"
proof -
  have large: "sl_too_large slot \<longleftrightarrow> k_payload_max cfg < length x"
    and meth: "cstr (sl_method slot) = dotted (take 47 meth)"
    using assms by (simp_all add: slot_holds_def)
  have payload: "(if sl_payload_len slot > 0 then take (sl_payload_len slot) (sl_payload slot) else ''{}'') =
      (if x = [] then ''{}'' else x)" if "\<not> sl_too_large slot"
    using assms that by (simp add: slot_holds_def)
  show "answer_of cfg err_name methods slot w = request_answer cfg err_name methods (dotted (take 47 meth)) x w"
  proof (cases "sl_too_large slot")
    case True
    with large show ?thesis by (simp add: answer_of_def request_answer_def Let_def)
  next
    case False
    with large show ?thesis
      unfolding answer_of_def request_answer_def Let_def meth payload [OF False] by (simp only: if_False)
  qed
  show "reply_topic up slot = request_reply_topic up props" "slot_props slot = answer_props props"
    using assms by (simp_all add: slot_holds_def reply_topic_def request_reply_topic_def slot_props_def answer_props_def)
qed

lemma quiet_turn:
  assumes "\<not> has_bit (cl_events c) BIT_CONNECTED" and "\<not> turn_due c inp"
    and "handle_ready cfg api menv err_name (cl_rpc c, cl_mqtt c, cl_world c) = Some (rp, mq, w)"
  shows "\<exists>c'. run_turn cfg api menv cenv err_name beat inp c = Some c' \<and> cl_rpc c' = rp \<and> cl_mqtt c' = mq \<and> cl_world c' = w"
proof -
  define c1 where "c1 = (if has_bit (cl_events c) BIT_DISCONNECTED
      then tell False (c\<lparr>cl_events := cl_events c AND NOT WAIT_MASK\<rparr>) else c\<lparr>cl_events := cl_events c AND NOT WAIT_MASK\<rparr>)"
  have same: "cl_rpc c1 = cl_rpc c" "cl_mqtt c1 = cl_mqtt c" "cl_world c1 = cl_world c" "cl_next_report c1 = cl_next_report c"
    by (simp_all add: c1_def tell_def)
  have "run_turn cfg api menv cenv err_name beat inp c = Some (c1\<lparr>cl_rpc := rp, cl_mqtt := mq, cl_world := w\<rparr>)"
    unfolding run_turn_def take_events_def Let_def prod.case if_not_P [OF assms(1)] c1_def [symmetric] same assms(3) option.case
    using assms(2) by (simp add: turn_due_def same)
  then show ?thesis by simp
qed

lemma single_request_turn:
  assumes "client_ready cfg api items held menv err_name methods c" and "\<not> has_bit (cl_events c) BIT_CONNECTED"
    and "\<not> turn_due c inp" and "items (rp_ready (cl_rpc c)) = [idx]"
    and "answer_of cfg err_name methods (rp_slots (cl_rpc c) ! idx) (cl_world c) = (v, w')"
  shows "\<exists>c'. run_turn cfg api menv cenv err_name beat inp c = Some c' \<and> cl_world c' = w' \<and>
    mq_calls (cl_mqtt c') = mq_calls (cl_mqtt c) @ [TakeLock, SetProps (slot_props (rp_slots (cl_rpc c) ! idx)),
      Publish (reply_topic (mq_up (cl_mqtt c)) (rp_slots (cl_rpc c) ! idx)) (render v) 1, GiveLock] \<and>
    length (render v) < k_result_max cfg"
proof -
  let ?slot = "rp_slots (cl_rpc c) ! idx"
  note r = assms(1) [unfolded client_ready_def]
  obtain q f rp mq w where h: "handle cfg menv err_name idx (cl_rpc c, cl_mqtt c, cl_world c) = (rp, mq, w)"
    "handle_ready cfg api menv err_name (cl_rpc c, cl_mqtt c, cl_world c) = Some (rp\<lparr>rp_ready := q, rp_free := f\<rparr>, mq, w)"
    using handle_ready_fold [of api "k_queue_len cfg" items held "cl_rpc c" cfg menv err_name "cl_mqtt c" "cl_world c"] r assms(4) by auto
  from handle_body [OF _ _ _ _ h(1)] r obtain v' e where
    v: "answer_of cfg err_name methods ?slot (cl_world c) = (v', w)"
      "respond menv ?slot (render v') (cl_mqtt c) = (e, mq)" "length (render v') < k_result_max cfg" by blast
  have eq: "v' = v" "w = w'" using v(1) assms(5) by simp_all
  have "mq_calls mq = mq_calls (cl_mqtt c) @ [TakeLock, SetProps (slot_props ?slot),
      Publish (reply_topic (mq_up (cl_mqtt c)) ?slot) (render v) 1, GiveLock]"
    using respond_takes [of menv "cl_mqtt c" ?slot "render v"] r v(2) eq(1) by auto
  with quiet_turn [OF assms(2,3) h(2), of cenv beat] v(3) eq show ?thesis by auto
qed

text \<open>A connected client with no request waiting.\<close>

definition client_idle ::
    "kconfig \<Rightarrow> 'q queue_api \<Rightarrow> ('q \<Rightarrow> nat list) \<Rightarrow> mqtt_env \<Rightarrow> (esp_err \<Rightarrow> string) \<Rightarrow>
     (string \<Rightarrow> 'r client_world handler_spec option) \<Rightarrow> ('q, 'r) client \<Rightarrow> bool" where
  "client_idle cfg api items menv err_name methods c \<longleftrightarrow>
     rx_inv cfg api items [] (cl_rpc c, cl_mqtt c) \<and> items (rp_ready (cl_rpc c)) = [] \<and> 1 \<le> k_queue_len cfg \<and>
     690 \<le> k_result_max cfg \<and> methods_are (cl_rpc c) methods \<and> err_names_ok err_name \<and> env_takes menv \<and>
     mq_connected (cl_mqtt c) \<and> topics_ok (cl_mqtt c) \<and> NUL \<notin> set (mq_up (cl_mqtt c)) \<and> length (mq_up (cl_mqtt c)) \<le> 80 \<and>
     \<not> has_bit (cl_events c) BIT_CONNECTED"

lemma has_bit_or: "has_bit (x OR y) b \<longleftrightarrow> has_bit x b \<or> has_bit y b"
proof -
  have "(x OR y) AND b = (x AND b) OR (y AND b)" by (rule bit.conj_disj_distrib2)
  then show ?thesis by (simp add: has_bit_def or_eq_0_iff)
qed

lemma has_bit_request [simp]:
  "has_bit BIT_REQUEST BIT_REQUEST" "\<not> has_bit BIT_REQUEST BIT_CONNECTED" "\<not> has_bit BIT_REQUEST BIT_REPORT_STATUS"
  by (simp_all add: has_bit_def BIT_REQUEST_def BIT_CONNECTED_def BIT_REPORT_STATUS_def)

lemma all_slots_free:
  assumes "rx_inv cfg api items [] (rp, mq)" and "items (rp_ready rp) = []" and "1 \<le> k_queue_len cfg"
  shows "\<exists>idx rest. items (rp_free (fst (drop_rx_slot api (rp, mq)))) = idx # rest"
proof -
  let ?rp1 = "fst (drop_rx_slot api (rp, mq))"
  have "rp_ready ?rp1 = rp_ready rp" by (simp add: drop_rx_slot_def give_back_def split: option.split)
  moreover have "slots_conserved api (k_queue_len cfg) items [] ?rp1"
    using rx_inv_drop [OF assms(1)] drop_rx_slot_mqtt [of api rp mq]
    by (cases "drop_rx_slot api (rp, mq)") (simp add: rx_inv_def rx_list_def)
  ultimately have "length (items (rp_free ?rp1)) = k_queue_len cfg" using slots_count assms(2) by fastforce
  with assms(3) show ?thesis by (cases "items (rp_free ?rp1)") auto
qed

lemma methods_are_same: "methods_are rp methods \<Longrightarrow> rp_methods rp' = rp_methods rp \<Longrightarrow> methods_are rp' methods"
  by (simp add: methods_are_def find_method_def)

lemma handle_data_methods: "rp_methods (fst (handle_data cfg api evt s)) = rp_methods (fst s)"
  using start_message_methods [of cfg api evt s] by (cases "start_message cfg api evt s") (simp add: handle_data_def)

lemma fold_data_methods: "rp_methods (fst (fold (handle_data cfg api) evts s)) = rp_methods (fst s)"
  by (induction evts arbitrary: s) (simp_all add: handle_data_methods)

text \<open>Once its fragments have arrived, the request is the only one waiting, and the task has been woken.\<close>

lemma request_arrives:
  assumes "client_idle cfg api items menv err_name methods c" and "NUL \<notin> set meth" and "meth \<noteq> []" and "chunked chunks"
    and "c1 = fold (client_event cfg api menv) (map MqttData (message_events (request_topic (cl_mqtt c) meth) props chunks)) c"
  shows "\<exists>idx. client_ready cfg api items [] menv err_name methods c1 \<and> items (rp_ready (cl_rpc c1)) = [idx] \<and>
    slot_holds cfg meth props (length (concat chunks)) (concat chunks) (rp_slots (cl_rpc c1) ! idx) \<and>
    cl_mqtt c1 = (cl_mqtt c)\<lparr>mq_rx_slot := None, mq_rx_response := False\<rparr> \<and>
    cl_events c1 = cl_events c OR BIT_REQUEST \<and> cl_world c1 = cl_world c \<and> cl_next_report c1 = cl_next_report c"
proof -
  note i = assms(1) [unfolded client_idle_def]
  let ?evts = "message_events (request_topic (cl_mqtt c) meth) props chunks"
  have inv: "rx_inv cfg api items [] (cl_rpc c, cl_mqtt c)" and topics: "topics_ok (cl_mqtt c)" using i by simp_all
  obtain idx rest where free: "items (rp_free (fst (drop_rx_slot api (cl_rpc c, cl_mqtt c)))) = idx # rest"
    using all_slots_free [OF inv] i by blast
  obtain rp mq where f: "fold (handle_data cfg api) ?evts (cl_rpc c, cl_mqtt c) = (rp, mq)" by fastforce
  have r: "slot_holds cfg meth props (length (concat chunks)) (concat chunks) (rp_slots rp ! idx)"
    "items (rp_ready rp) = [idx]" "rp_signals rp = rp_signals (cl_rpc c) @ [SetRequest]"
    "mq = (cl_mqtt c)\<lparr>mq_rx_slot := None, mq_rx_response := False\<rparr>" "rx_inv cfg api items [] (rp, mq)"
    using request_becomes_ready [OF inv topics assms(2-4) free, of props, unfolded f prod.case] i by (blast, force, blast+)
  obtain new where new: "rp_signals rp = rp_signals (cl_rpc c) @ new" "c1 = c\<lparr>cl_rpc := rp, cl_mqtt := mq,
      cl_events := fold (\<lambda>b bits. bits OR b) (map signal_bit new) (cl_events c)\<rparr>"
    unfolding assms(5) using client_data_events [OF f] by blast
  moreover from new(1) r(3) have "new = [SetRequest]" by simp
  ultimately have c1: "c1 = c\<lparr>cl_rpc := rp, cl_mqtt := mq, cl_events := cl_events c OR BIT_REQUEST\<rparr>"
    by (simp add: signal_bit_def)
  have "methods_are rp methods"
    using i fold_data_methods [of cfg api ?evts "(cl_rpc c, cl_mqtt c)"] f by (simp add: methods_are_same [of "cl_rpc c"])
  moreover have "slots_conserved api (k_queue_len cfg) items [] rp" "length (rp_resp_buf rp) = k_result_max cfg"
    using r(4,5) by (simp_all add: rx_inv_def rx_list_def rpc_ok_def)
  ultimately have "client_ready cfg api items [] menv err_name methods c1"
    using i r(4) by (simp add: client_ready_def c1)
  with r(1,2,4) show ?thesis by (intro exI [of _ idx]) (simp add: c1)
qed

subsection \<open>Properties\<close>

text \<open>
  C31: The heartbeat clock is right across the wrap-around of the tick counter. As long as the next report
  and the present differ by less than 2^31 ticks, the 32-bit arithmetic of the request task agrees with
  unbounded tick counts: it waits exactly until the report is due, and finds it due exactly from then on.
\<close>

theorem heartbeat_clock:
  assumes "\<bar>int next - int now\<bar> < 2 ^ 31"
  shows "wait_ticks (of_nat next) (of_nat now) = int (next - now) \<and>
    (report_due (of_nat next) (of_nat now) \<longleftrightarrow> next \<le> now)"
proof -
  have "sint (of_nat next - of_nat now :: u32) = int next - int now"
    using assms by (intro tick_difference) linarith+
  then show ?thesis by (auto simp: wait_ticks_def report_due_def Let_def)
qed

theorem heartbeat_clock_witness:
  "wait_ticks (of_nat (2 ^ 32 + 10)) (of_nat (2 ^ 32 - 20)) = 30 \<and> \<not> report_due (of_nat (2 ^ 32 + 10)) (of_nat (2 ^ 32 - 20))"
  using heartbeat_clock [of "2 ^ 32 + 10" "2 ^ 32 - 20"] by simp

text \<open>
  C1: A request that arrives is answered. Whatever was received before, once the fragments of a request on
  \<open>down/req/<method>\<close> have arrived at a connected client with no request waiting, the request task has been
  woken, and its next turn returns, having published exactly one message: the complete JSON of the
  specified answer to this method and payload (an error for a payload that is too large, an unknown method or
  bad parameters), at QoS 1, with the request's correlation data, on the topic the request names if
  it lies below the device's own prefix and otherwise on \<open>up/res\<close>; the world is as the handler left it.
\<close>

theorem request_to_answer:
  assumes "client_idle cfg api items menv err_name methods c" and "NUL \<notin> set meth" and "meth \<noteq> []" and "chunked chunks"
    and "\<not> turn_due c inp"
    and "request_answer cfg err_name methods (dotted (take 47 meth)) (concat chunks) (cl_world c) = (v, w')"
    and "c1 = fold (client_event cfg api menv) (map MqttData (message_events (request_topic (cl_mqtt c) meth) props chunks)) c"
  shows "has_bit (cl_events c1) BIT_REQUEST \<and>
    (\<exists>c2. run_turn cfg api menv cenv err_name beat inp c1 = Some c2 \<and> cl_world c2 = w' \<and>
      mq_calls (cl_mqtt c2) = mq_calls (cl_mqtt c) @ [TakeLock, SetProps (answer_props props),
        Publish (request_reply_topic (mq_up (cl_mqtt c)) props) (render v) 1, GiveLock] \<and>
      length (render v) < k_result_max cfg)"
proof -
  from request_arrives [OF assms(1-4,7)] obtain idx where
    a: "client_ready cfg api items [] menv err_name methods c1" "items (rp_ready (cl_rpc c1)) = [idx]"
      "slot_holds cfg meth props (length (concat chunks)) (concat chunks) (rp_slots (cl_rpc c1) ! idx)"
      "cl_mqtt c1 = (cl_mqtt c)\<lparr>mq_rx_slot := None, mq_rx_response := False\<rparr>"
      "cl_events c1 = cl_events c OR BIT_REQUEST" "cl_world c1 = cl_world c" "cl_next_report c1 = cl_next_report c"
    by blast
  note s = slot_answer [OF a(3)]
  have "answer_of cfg err_name methods (rp_slots (cl_rpc c1) ! idx) (cl_world c1) = (v, w')"
    unfolding s(1) a(6) by (rule assms(6))
  moreover have "\<not> has_bit (cl_events c1) BIT_CONNECTED" "\<not> turn_due c1 inp" "has_bit (cl_events c1) BIT_REQUEST"
    using assms(1,5) a(5,7) by (simp_all add: client_idle_def has_bit_or turn_due_def)
  ultimately show ?thesis
    using single_request_turn [OF a(1) _ _ a(2), of inp v w' cenv beat] a(4) s(2,3) by auto
qed

subsection \<open>A sample request\<close>

text \<open>A client without any method, connected.\<close>

definition sample_client :: "(nat list, unit) client" where
  "sample_client = \<lparr>cl_rpc = snd (rpc_init kconfig_default (list_queue 4) True [] [] (zeroed 1536) (zeroed 1024)),
     cl_mqtt = online, cl_status = status_init 0,
     cl_world = \<lparr>cw_logs = snd (log_init kconfig_default True True True 0 () () []), cw_ota = ota_init,
       cw_shell_out = [], cw_calls = []\<rparr>,
     cl_first = False, cl_has_cb = False, cl_told = [], cl_events = 0, cl_next_report = 100\<rparr>"

definition sample_turn :: turn_input where
  "sample_turn = \<lparr>tn_unix = 0, tn_pending = False, tn_time = [], tn_update = [], tn_connected = 0, tn_checked = 1, tn_reported = 2\<rparr>"

lemma sample_client_idle: "client_idle kconfig_default (list_queue 4) (\<lambda>q. q) env_ok (\<lambda>e. ''ERR'') (\<lambda>_. None) sample_client"
proof -
  define b1 b2 where "b1 = zeroed 1536" and "b2 = zeroed 1024"
  let ?init = "rpc_init kconfig_default (list_queue 4) True [] [] b1 b2 :: esp_err \<times> (nat list, unit client_world) sc_rpc"
  obtain e rp where i: "?init = (e, rp)" by fastforce
  have k: "k_queue_len kconfig_default = 4" "k_result_max kconfig_default = 1536" by (simp_all add: kconfig_default_def)
  have len: "length b1 = k_result_max kconfig_default" "length b2 = CALL_BUF_SIZE"
    by (simp_all add: b1_def b2_def zeroed_def k CALL_BUF_SIZE_def)
  have c: "e = ESP_OK" "slots_conserved (list_queue 4) (k_queue_len kconfig_default) (\<lambda>q. q) [] rp"
    using rpc_init_conserved [OF _ _ _ i, of "\<lambda>q. q"] list_queue_ok [of 4] k by simp_all
  with rpc_init_ok [OF _ len] i have ok: "rpc_ok kconfig_default rp" by simp
  have rp: "cl_rpc sample_client = rp" using i by (simp add: sample_client_def b1_def b2_def)
  have m: "methods_are rp (\<lambda>_. None)" and r: "rp_ready rp = []"
    using i by (auto simp: rpc_init_def methods_are_def find_method_def get_entry_unused Let_def)
  have "rx_inv kconfig_default (list_queue 4) (\<lambda>q. q) [] (rp, online)"
    using c(2) ok by (simp add: rx_inv_def rx_list_def online_def mqtt_init_def)
  then show ?thesis
    unfolding client_idle_def rp using m r k err_names_sample env_ok_takes online_topics
    by (simp add: sample_client_def has_bit_def)
qed

theorem request_to_answer_witness:
  "\<exists>c2. run_turn kconfig_default (list_queue 4) env_ok sample_cenv (\<lambda>e. ''ERR'') 60 sample_turn
      (fold (client_event kconfig_default (list_queue 4) env_ok)
        (map MqttData (message_events (request_topic online ''gpio/read'') None [''{'', ''}''])) sample_client) = Some c2 \<and>
    mq_calls (cl_mqtt c2) = [TakeLock, SetProps (answer_props None),
      Publish ''d/1/up/res'' (render (error_answer ''unknown method gpio.read'')) 1, GiveLock]"
proof -
  have a: "request_answer kconfig_default (\<lambda>e. ''ERR'') (\<lambda>_. None) (dotted (take 47 ''gpio/read'')) (concat [''{'', ''}''])
      (cl_world sample_client) = (error_answer ''unknown method gpio.read'', cl_world sample_client)"
    by (simp add: request_answer_def kconfig_default_def dotted_def)
  have due: "\<not> turn_due sample_client sample_turn"
    by (simp add: turn_due_def sample_client_def sample_turn_def has_bit_def report_due_def)
  have t: "request_reply_topic (mq_up online) None = ''d/1/up/res''"
    by (simp add: request_reply_topic_def kept_response_topic_def)
  have mq: "cl_mqtt sample_client = online" "mq_calls online = []" by (simp_all add: sample_client_def online_def mqtt_init_def)
  have "chunked [''{'', ''}'']" by (simp add: chunked_def)
  from request_to_answer [OF sample_client_idle _ _ this due a refl, of None sample_cenv 60] mq t
  show ?thesis by (auto simp del: render.simps)
qed

end
