(* ===== verification/Client_Invariant.thy ===== *)
theory Client_Invariant
  imports Client_Turn
begin

text \<open>
  The client as a whole: a step relation whose steps are the events of esp-mqtt, the turns of the request
  task, the calls of applications and the work of the other tasks, in any order. What \<open>init\<close>
  establishes holds in every reachable state, and every turn of the request task returns.

  An event is handled between two turns; during a turn's calls to the platform the fragments of the answer
  arrive (finer interleavings of the two tasks are the subject of \<open>Rx_Invariant\<close>).
\<close>

subsection \<open>The invariant\<close>

definition topics_of :: "string \<Rightarrow> sc_mqtt \<Rightarrow> bool" where
  "topics_of did mq \<longleftrightarrow> mq_up mq = ''d/'' @ did @ ''/up/'' \<and> mq_down mq = ''d/'' @ did @ ''/down/'' \<and>
     mq_down_len mq = length (mq_down mq)"

definition rx_core ::
    "kconfig \<Rightarrow> 'q queue_api \<Rightarrow> ('q \<Rightarrow> nat list) \<Rightarrow> (string \<Rightarrow> 'w handler_spec option) \<Rightarrow> string \<Rightarrow>
     ('q, 'w) sc_rpc \<times> sc_mqtt \<Rightarrow> bool" where
  "rx_core cfg api items methods did s \<longleftrightarrow>
     rx_inv cfg api items [] s \<and> methods_are (fst s) methods \<and> topics_of did (snd s)"

definition client_inv ::
    "kconfig \<Rightarrow> 'q queue_api \<Rightarrow> ('q \<Rightarrow> nat list) \<Rightarrow> (string \<Rightarrow> 'r client_world handler_spec option) \<Rightarrow> string \<Rightarrow>
     ('q, 'r) client \<Rightarrow> bool" where
  "client_inv cfg api items methods did c \<longleftrightarrow> rx_core cfg api items methods did (cl_rpc c, cl_mqtt c)"

lemma topics_of_same:
  "mq_up mq' = mq_up mq \<Longrightarrow> mq_down mq' = mq_down mq \<Longrightarrow> mq_down_len mq' = mq_down_len mq \<Longrightarrow>
    topics_of did mq' = topics_of did mq"
  by (simp add: topics_of_def)

subsection \<open>Every part keeps it\<close>

lemma publish_topic_topics: "publish_topic env t d q p mq = (e, mq') \<Longrightarrow> topics_of did mq' = topics_of did mq"
  using publish_topic_frame(1,2,4) [of env t d q p mq e mq'] by (simp add: topics_of_def)

lemma send_topics: "send env m mq = (e, mq') \<Longrightarrow> topics_of did mq' = topics_of did mq"
  by (cases m) (auto simp: publish_def publish_topic_topics split: if_splits)

lemma core_sent:
  "rx_core cfg api items methods did (rp, mq) \<Longrightarrow> send env m mq = (e, mq') \<Longrightarrow> rx_core cfg api items methods did (rp, mq')"
  using rx_inv_sent [of env m mq e mq' cfg api items "[]" rp] send_topics [of env m mq e mq' did] by (simp add: rx_core_def)

lemma core_published:
  "rx_core cfg api items methods did (rp, mq) \<Longrightarrow> publish env t d q p mq = (e, mq') \<Longrightarrow> rx_core cfg api items methods did (rp, mq')"
  using core_sent [of cfg api items methods did rp mq env "OnSub t d q p" e mq'] by simp

lemma drop_rx_slot_topics: "topics_of did (snd (drop_rx_slot api s)) = topics_of did (snd s)"
  by (cases s) (simp add: drop_rx_slot_mqtt topics_of_def)

lemma start_request_topics: "topics_of did (snd (start_request cfg api evt m s)) = topics_of did (snd s)"
  by (simp add: start_request_def topics_of_def split: prod.split option.split)

lemma start_message_topics: "topics_of did (snd (snd (start_message cfg api evt s))) = topics_of did (snd s)"
proof -
  obtain rp mq where d: "drop_rx_slot api s = (rp, mq)" by fastforce
  have t: "topics_of did (mq\<lparr>mq_rx_response := b\<rparr>) = topics_of did mq"
    "topics_of did (mq\<lparr>mq_rx_response := b, mq_rx_correlation := x\<rparr>) = topics_of did mq" for b x
    by (simp_all add: topics_of_def)
  from d drop_rx_slot_topics [of did api s] show ?thesis
    by (simp add: start_message_def Let_def start_request_topics t)
qed

lemma take_payload_topics: "topics_of did (snd (take_payload cfg api evt s)) = topics_of did (snd s)"
  by (cases s) (simp add: take_payload_def Let_def topics_of_def split: option.split)

lemma handle_data_topics: "topics_of did (snd (handle_data cfg api evt s)) = topics_of did (snd s)"
  using start_message_topics [of did cfg api evt s]
  by (cases "start_message cfg api evt s") (simp add: handle_data_def take_payload_topics)

lemma event_topics: "topics_of did (snd (event_handler cfg api env evt s)) = topics_of did (snd s)"
proof (induction cfg api env evt s rule: event_handler.induct)
  case (1 cfg api env rp mq)
  show ?case by (simp add: Let_def topics_of_def notify_def mq_call_def)
next
  case (2 cfg api env rp mq)
  obtain rp1 mq1 where d: "drop_rx_slot api (rp, mq\<lparr>mq_connected := False\<rparr>) = (rp1, mq1)" by fastforce
  with drop_rx_slot_topics [of did api "(rp, mq\<lparr>mq_connected := False\<rparr>)"] have "topics_of did mq1 = topics_of did mq"
    by (simp add: topics_of_def)
  then show ?case by (simp add: d Let_def notify_def topics_of_def)
next
  case (3 cfg api env evt s)
  show ?case by (simp add: handle_data_topics)
qed simp_all

lemma core_event:
  assumes "rx_core cfg api items methods did s"
  shows "rx_core cfg api items methods did (event_handler cfg api env evt s)"
proof -
  have "methods_are (fst (event_handler cfg api env evt s)) methods"
    using assms event_methods [of cfg api env evt s] by (simp add: methods_are_same [of "fst s"] rx_core_def)
  with assms rx_inv_event [of cfg api items "[]" s env evt] event_topics [of did cfg api env evt s] show ?thesis
    by (simp add: rx_core_def)
qed

lemma core_rpc:
  "rx_core cfg api items methods did (rp, mq) \<Longrightarrow> rpc_ok cfg rp' \<Longrightarrow>
    slots_conserved api (k_queue_len cfg) items (rx_list mq) rp' \<Longrightarrow> rp_methods rp' = rp_methods rp \<Longrightarrow>
    rx_core cfg api items methods did (rp', mq)"
  by (simp add: rx_core_def rx_inv_def methods_are_same [of rp])

lemma coreD:
  "rx_core cfg api items methods did (rp, mq) \<Longrightarrow>
    rpc_ok cfg rp \<and> slots_conserved api (k_queue_len cfg) items (rx_list mq) rp \<and> methods_are rp methods"
  by (simp add: rx_core_def rx_inv_def)

lemma core_begin:
  assumes "rx_core cfg api items methods did (rp, mq)" and "call_begin env meth ps rp mq = (e, rp', mq')"
  shows "rx_core cfg api items methods did (rp', mq')"
proof -
  obtain p where p: "publish env (call_topic meth) ps 1 p mq = (e, mq')"
    using assms(2) by (auto simp: call_begin_def Let_def split: prod.splits)
  have "rx_core cfg api items methods did (rp', mq)"
    unfolding call_begin_state [OF assms(2)] using coreD [OF assms(1)]
    by (intro core_rpc [OF assms(1)]) (simp_all add: rpc_ok_def slots_conserved_def CALL_BUF_SIZE_def)
  then show ?thesis by (rule core_published) (rule p)
qed

lemma core_deliver:
  "rx_core cfg api items methods did (rp, mq) \<Longrightarrow> rx_core cfg api items methods did (fold deliver ds rp, mq)"
proof (induction ds arbitrary: rp)
  case (Cons d ds)
  have "rx_core cfg api items methods did (deliver d rp, mq)"
    using coreD [OF Cons.prems] by (intro core_rpc [OF Cons.prems]) (simp_all add: deliver_def rpc_ok_deliver)
  with Cons.IH show ?case by simp
qed simp

lemma core_end:
  assumes "rx_core cfg api items methods did (rp, mq)" and "call_end ret answered doc rp = (ret', doc', tok, rp')"
  shows "rx_core cfg api items methods did (rp', mq)"
proof -
  have rp': "rp' = rp\<lparr>rp_call_correlation := []\<rparr>"
    using assms(2) by (auto simp: call_end_def Let_def split: if_splits prod.splits)
  show ?thesis
    unfolding rp' using coreD [OF assms(1)]
    by (intro core_rpc [OF assms(1)]) (simp_all add: rpc_ok_def slots_conserved_def)
qed

lemma core_call:
  assumes "rx_core cfg api items methods did (rp, mq)"
    and "rpc_call env meth ps ds doc (rp, mq) = (ret, doc', tok, rp', mq')"
  shows "rx_core cfg api items methods did (rp', mq')"
proof -
  obtain e rp1 mq1 where b: "call_begin env meth ps rp mq = (e, rp1, mq1)" by (metis prod_cases3)
  define rp2 where "rp2 = (if e = ESP_OK then fold deliver ds rp1 else rp1)"
  have "rx_core cfg api items methods did (rp2, mq1)"
    by (simp add: rp2_def core_deliver core_begin [OF assms(1) b])
  moreover obtain answered where "call_end e answered doc rp2 = (ret, doc', tok, rp')" and "mq' = mq1"
    using assms(2) b by (auto simp: rpc_call_def rp2_def Let_def split: prod.splits)
  ultimately show ?thesis using core_end by blast
qed

lemma handle_mqtt:
  assumes "handle cfg env err_name idx (rp, mq, w) = (rp', mq', w')"
  shows "topics_of did mq' = topics_of did mq \<and> mq_rx_slot mq' = mq_rx_slot mq"
proof -
  obtain slot body e where "respond env slot body mq = (e, mq')"
    using assms by (auto simp: handle_def Let_def split: prod.splits)
  then show ?thesis
    by (auto simp: respond_def publish_def Let_def publish_topic_topics publish_topic_frame(5) split: if_splits prod.splits)
qed

lemma fold_handle_core:
  "rx_core cfg api items methods did (rp, mq) \<Longrightarrow> 690 \<le> k_result_max cfg \<Longrightarrow> err_names_ok err_name \<Longrightarrow>
    fold (handle cfg env err_name) idxs (rp, mq, w) = (rp', mq', w') \<Longrightarrow>
    rx_core cfg api items methods did (rp', mq') \<and> mq_rx_slot mq' = mq_rx_slot mq"
proof (induction idxs arbitrary: rp mq w)
  case (Cons i idxs)
  obtain rp1 mq1 w1 where h: "handle cfg env err_name i (rp, mq, w) = (rp1, mq1, w1)" by (metis prod_cases3)
  have i: "rx_inv cfg api items [] (rp, mq)" "methods_are rp methods" "topics_of did mq"
    using Cons.prems(1) by (simp_all add: rx_core_def)
  have m: "topics_of did mq1" "mq_rx_slot mq1 = mq_rx_slot mq" using handle_mqtt [OF h] i(3) by simp_all
  with handle_rx_inv [OF i(1) Cons.prems(2) i(2) Cons.prems(3) h] have "rx_core cfg api items methods did (rp1, mq1)"
    by (simp add: rx_core_def)
  from Cons.IH [OF this Cons.prems(2,3)] Cons.prems(4) h m(2) show ?case by simp
qed simp

lemma core_ready:
  assumes "rx_core cfg api items methods did (rp, mq)" and "690 \<le> k_result_max cfg" and "err_names_ok err_name"
  shows "\<exists>rp' mq' w'. handle_ready cfg api env err_name (rp, mq, w) = Some (rp', mq', w') \<and>
    rx_core cfg api items methods did (rp', mq')"
proof -
  note d = coreD [OF assms(1)]
  have c: "slots_conserved api (k_queue_len cfg) items (rx_list mq) rp" using d by simp
  obtain q f rp1 mq1 w1 where h: "fold (handle cfg env err_name) (items (rp_ready rp)) (rp, mq, w) = (rp1, mq1, w1)"
    "handle_ready cfg api env err_name (rp, mq, w) = Some (rp1\<lparr>rp_ready := q, rp_free := f\<rparr>, mq1, w1)"
    "items q = []" "items f = items (rp_free rp) @ items (rp_ready rp)"
    using handle_ready_fold [OF c] by blast
  from fold_handle_core [OF assms h(1)] have r: "rx_core cfg api items methods did (rp1, mq1)" "rx_list mq1 = rx_list mq"
    by (simp_all add: rx_list_def)
  have "slots_conserved api (k_queue_len cfg) items (rx_list mq1) (rp1\<lparr>rp_ready := q, rp_free := f\<rparr>)"
    using c h(3,4) r(2) by (simp add: slots_conserved_def)
  then have "rx_core cfg api items methods did (rp1\<lparr>rp_ready := q, rp_free := f\<rparr>, mq1)"
    using coreD [OF r(1)] by (intro core_rpc [OF r(1)]) simp_all
  with h(2) show ?thesis by blast
qed

subsection \<open>The turns of the request task\<close>

lemma inv_report:
  assumes "client_inv cfg api items methods did c"
  shows "client_inv cfg api items methods did (report_status cfg menv cenv birth c)"
proof -
  obtain ret st mq where s: "status_report cfg menv (cx_chip cenv (cw_calls (cl_world c))) birth (cl_status c, cl_mqtt c) = (ret, st, mq)"
    by (metis prod_cases3)
  then have "rx_core cfg api items methods did (cl_rpc c, mq)"
    using assms core_published [of cfg api items methods did "cl_rpc c" "cl_mqtt c"]
    by (auto simp: status_report_def client_inv_def Let_def split: prod.splits if_splits)
  with s show ?thesis by (simp add: report_status_def client_inv_def)
qed

lemma inv_sync:
  assumes "client_inv cfg api items methods did c"
  shows "client_inv cfg api items methods did (sync_time menv now ds c)"
proof -
  obtain ret doc tok rp mq where r: "rpc_call menv ''time'' ''{}'' ds (sc_json_doc 16) (cl_rpc c, cl_mqtt c) = (ret, doc, tok, rp, mq)"
    by (metis prod_cases5)
  from core_call [OF assms [unfolded client_inv_def] r] assms show ?thesis
    by (simp add: sync_time_def r client_inv_def Let_def split: option.split)
qed

lemma inv_update:
  assumes "client_inv cfg api items methods did c"
  shows "client_inv cfg api items methods did (check_for_update menv cenv ds c)"
proof -
  obtain ret doc tok rp mq where r: "rpc_call menv ''ota.check'' ''{}'' ds (sc_json_doc 24) (cl_rpc c, cl_mqtt c) = (ret, doc, tok, rp, mq)"
    by (metis prod_cases5)
  from core_call [OF assms [unfolded client_inv_def] r] show ?thesis
    by (simp add: check_for_update_def r client_inv_def Let_def split: prod.split)
qed

lemma inv_connected:
  assumes "client_inv cfg api items methods did c"
  shows "client_inv cfg api items methods did (on_connected cfg menv cenv inp c)"
proof -
  have confirm: "client_inv cfg api items methods did (confirm_running_image cfg p (c\<lparr>cl_first := False\<rparr>)) =
      client_inv cfg api items methods did c" for p and c :: "('a, 'b) client"
    by (simp add: confirm_running_image_def client_inv_def)
  have "client_inv cfg api items methods did (tell up c) = client_inv cfg api items methods did c" for up and c :: "('a, 'b) client"
    by (simp add: tell_def client_inv_def)
  with inv_report [OF assms] show ?thesis
    by (simp add: on_connected_def Let_def inv_update inv_sync confirm)
qed

lemma inv_turn:
  assumes "client_inv cfg api items methods did c" and "690 \<le> k_result_max cfg" and "err_names_ok err_name"
  shows "\<exists>c'. run_turn cfg api menv cenv err_name beat inp c = Some c' \<and> client_inv cfg api items methods did c'"
proof -
  define c0 where "c0 = c\<lparr>cl_events := cl_events c AND NOT WAIT_MASK\<rparr>"
  define c1 where "c1 = (if has_bit (cl_events c) BIT_CONNECTED
      then (on_connected cfg menv cenv inp c0)\<lparr>cl_next_report := tn_connected inp + beat\<rparr> else c0)"
  define c2 where "c2 = (if has_bit (cl_events c) BIT_DISCONNECTED then tell False c1 else c1)"
  have i0: "client_inv cfg api items methods did c0" using assms(1) by (simp add: c0_def client_inv_def)
  have "client_inv cfg api items methods did c1"
    using i0 inv_connected [OF i0, of menv cenv inp] by (simp add: c1_def client_inv_def)
  then have i: "rx_core cfg api items methods did (cl_rpc c2, cl_mqtt c2)" by (simp add: c2_def tell_def client_inv_def)
  obtain rp mq w where h: "handle_ready cfg api menv err_name (cl_rpc c2, cl_mqtt c2, cl_world c2) = Some (rp, mq, w)"
    "rx_core cfg api items methods did (rp, mq)" using core_ready [OF i assms(2,3)] by blast
  let ?c3 = "c2\<lparr>cl_rpc := rp, cl_mqtt := mq, cl_world := w\<rparr>"
  have i3: "client_inv cfg api items methods did ?c3" using h(2) by (simp add: client_inv_def)
  have "run_turn cfg api menv cenv err_name beat inp c = Some (if has_bit (cl_events c) BIT_REPORT_STATUS \<or>
        report_due (cl_next_report ?c3) (tn_checked inp)
      then (if mq_connected (cl_mqtt ?c3) then report_status cfg menv cenv False ?c3 else ?c3)\<lparr>cl_next_report := tn_reported inp + beat\<rparr>
      else ?c3)"
    unfolding run_turn_def take_events_def Let_def prod.case c0_def [symmetric] c1_def [symmetric] c2_def [symmetric] h(1) option.case ..
  moreover have "client_inv cfg api items methods did (c\<lparr>cl_next_report := t\<rparr>) = client_inv cfg api items methods did c"
    for t and c :: "('a, 'b) client" by (simp add: client_inv_def)
  ultimately show ?thesis using i3 inv_report [OF i3] by simp
qed

subsection \<open>What \<open>init\<close> establishes\<close>

lemma length_cstr_stored: "length (cstr (memcpy buf 0 (v @ [NUL]))) \<le> length v"
proof -
  have "length (takeWhile (\<lambda>c. c \<noteq> NUL) (v @ NUL # r)) \<le> length v" for r by (induction v) simp_all
  then show ?thesis by (simp add: memcpy_def cstr_def)
qed

lemma loaded_device_id:
  assumes "cred_load api n cr = (ESP_OK, cr')" and "nvs_ok api view"
  shows "length (device_id cr') < 16"
proof -
  obtain v1 v2 v3 where v: "nv_get api KEY_DEVICE_ID 16 n = (ESP_OK, v1)" and cr': "cr' = cr\<lparr>cr_identity := \<lparr>
      en_device_id = memcpy (en_device_id enroll_response_init) 0 (v1 @ [NUL]),
      en_password = memcpy (en_password enroll_response_init) 0 (v2 @ [NUL]),
      en_mqtt_url = memcpy (en_mqtt_url enroll_response_init) 0 (v3 @ [NUL])\<rparr>\<rparr>"
    using assms(1) by (auto simp: cred_load_def Let_def split: prod.splits if_splits)
  have "length v1 < 16" using assms(2) v unfolding nvs_ok_def by blast
  with length_cstr_stored [of "en_device_id enroll_response_init" v1] show ?thesis by (simp add: device_id_def cr')
qed

lemma init_device_id:
  assumes "init_credentials cfg henv napi cf w = (ESP_OK, cr, w')" and "nvs_ok napi view"
  shows "length (device_id cr) < 16 \<and> NUL \<notin> set (device_id cr)"
proof -
  obtain ret cr1 where l: "cred_load napi (hw_nvs w) credentials_init = (ret, cr1)" by fastforce
  consider "ret = ESP_OK" "cr = cr1" | url where "enroll cfg henv napi url (cf_pairing_token cf) (cf_device_name cf) (cr1, w) = (ESP_OK, cr, w')"
    using assms(1) l by (auto simp: init_credentials_def Let_def split: if_splits)
  then have "length (device_id cr) < 16"
  proof cases
    case 1
    with loaded_device_id [OF _ assms(2)] l show ?thesis by simp
  next
    case 2
    then show ?thesis
    proof (cases rule: enroll_cases)
      case (enrolled base tok len buf resp)
      with decode_enroll_response_fields [OF enrolled(8) enroll_response_init_ok] show ?thesis by (simp add: device_id_def)
    qed simp_all
  qed
  then show ?thesis using nul_notin_cstr by (simp add: device_id_def)
qed

lemma init_topics: "length did < 16 \<Longrightarrow> topics_of did (mqtt_init did)"
  by (simp add: topics_of_def mqtt_init_def snprintf_def)

lemma client_init_inv:
  fixes qapi :: "'q queue_api" and table :: "'r client_world sc_shell" and c :: "('q, 'r) client"
  assumes "client_init cfg qapi napi cenv ie table cf w = (ESP_OK, Some (c, shell), w')"
    and "fifo_ok qapi (k_queue_len cfg) items" and "nvs_ok napi view" and "kconfig_ok cfg"
    and "items (ie_free ie) = []" and "items (ie_ready ie) = []"
    and "length (ie_resp_buf ie) = k_result_max cfg" and "length (ie_call_buf ie) = CALL_BUF_SIZE"
  shows "\<exists>did. length did < 16 \<and> NUL \<notin> set did \<and> client_inv cfg qapi items (builtin_spec cfg cenv table) did c"
proof -
  obtain cr w1 where cred: "init_credentials cfg (ie_enroll ie) napi cf w = (ESP_OK, cr, w1)"
    using assms(1) by (auto simp: client_init_def Let_def split: prod.splits if_splits)
  let ?did = "device_id cr"
  obtain e1 and rp :: "('q, 'r client_world) sc_rpc" where
    rp: "rpc_init cfg qapi (ie_rpc ie) (ie_free ie) (ie_ready ie) (ie_resp_buf ie) (ie_call_buf ie) = (e1, rp)" by fastforce
  obtain e2 mq where mq: "mqtt_setup (ie_mqtt ie) ?did = (e2, mq)" by fastforce
  obtain ret rp' shell' where reg: "register_builtin_methods cfg cenv table
      (rp, add_builtins (replicate (k_shell_max_cmds cfg) None)) = (ret, rp', shell')" by (metis prod_cases3)
  have ok: "e1 = ESP_OK" "cl_rpc c = rp'" "cl_mqtt c = mqtt_set_connection_cb True mq"
    using assms(1) cred rp mq reg
    by (auto simp: client_init_def Let_def split: prod.splits if_splits)
  have r: "ie_rpc ie" "rpc_init cfg qapi True (ie_free ie) (ie_ready ie) (ie_resp_buf ie) (ie_call_buf ie) = (ESP_OK, rp)"
    using rp ok(1) by (auto simp: rpc_init_def Let_def split: if_splits)
  note rok = rpc_init_ok [OF r(2) assms(7,8)]
  have cons: "slots_conserved qapi (k_queue_len cfg) items [] rp" using rpc_init_conserved [OF assms(2,5,6) r(2)] by simp
  have fresh: "rp_methods rp = replicate MAX_METHODS None" using r(2) by (auto simp: rpc_init_def Let_def)
  from builtins_added [OF fresh _ reg] assms(4) obtain ms where
    m: "methods_are rp' (builtin_spec cfg cenv table)" "rp' = rp\<lparr>rp_methods := ms\<rparr>" by (auto simp: kconfig_ok_def)
  have q: "mq = mqtt_init ?did" using mq by (auto simp: mqtt_setup_def Let_def split: if_splits)
  note d = init_device_id [OF cred assms(3)]
  have "rx_inv cfg qapi items [] (cl_rpc c, cl_mqtt c)"
    using cons rok unfolding ok(2,3) m(2) q
    by (simp add: rx_inv_def rx_list_def mqtt_set_connection_cb_def mqtt_init_def slots_conserved_def rpc_ok_def)
  moreover have "topics_of ?did (cl_mqtt c)"
    using init_topics d unfolding ok(3) q by (simp add: mqtt_set_connection_cb_def topics_of_def)
  ultimately have "client_inv cfg qapi items (builtin_spec cfg cenv table) ?did c"
    using m(1) ok(2) by (simp add: client_inv_def rx_core_def)
  with d show ?thesis by blast
qed

subsection \<open>The steps\<close>

text \<open>
  \<open>other\<close> and \<open>work\<close>: the upload and update tasks publish, and change their own state.
\<close>

inductive client_step ::
    "kconfig \<Rightarrow> 'q queue_api \<Rightarrow> mqtt_env \<Rightarrow> client_env \<Rightarrow> (esp_err \<Rightarrow> string) \<Rightarrow> u32 \<Rightarrow>
     ('q, 'r) client \<Rightarrow> ('q, 'r) client \<Rightarrow> bool"
  for cfg qapi menv cenv err_name beat where
  event: "client_step cfg qapi menv cenv err_name beat c (client_event cfg qapi menv evt c)"
| turn: "run_turn cfg qapi menv cenv err_name beat inp c = Some c' \<Longrightarrow> client_step cfg qapi menv cenv err_name beat c c'"
| start: "client_start menv (Some c) = (ret, Some c') \<Longrightarrow> client_step cfg qapi menv cenv err_name beat c c'"
| stop: "client_stop menv (Some c) = (ret, Some c') \<Longrightarrow> client_step cfg qapi menv cenv err_name beat c c'"
| publish: "publish_event menv name json (Some c) = (ret, Some c') \<Longrightarrow> client_step cfg qapi menv cenv err_name beat c c'"
| report: "request_status_report (Some c) = Some c' \<Longrightarrow> client_step cfg qapi menv cenv err_name beat c c'"
| other: "send menv msg (cl_mqtt c) = (ret, mq) \<Longrightarrow> client_step cfg qapi menv cenv err_name beat c (c\<lparr>cl_mqtt := mq\<rparr>)"
| work: "client_step cfg qapi menv cenv err_name beat c (c\<lparr>cl_world := w\<rparr>)"

lemma inv_event:
  assumes "client_inv cfg qapi items methods did c"
  shows "client_inv cfg qapi items methods did (client_event cfg qapi menv evt c)"
  using core_event [OF assms [unfolded client_inv_def], of menv evt]
  by (cases "event_handler cfg qapi menv evt (cl_rpc c, cl_mqtt c)") (simp add: client_event_def client_inv_def Let_def)

lemma core_flags:
  "rx_core cfg api items methods did (rp, mq\<lparr>mq_connected := b\<rparr>) = rx_core cfg api items methods did (rp, mq)"
  "rx_core cfg api items methods did (rp, mq_call k mq) = rx_core cfg api items methods did (rp, mq)"
  by (simp_all add: rx_core_def topics_of_def mq_call_def rx_inv_def rx_list_def)

lemma inv_step:
  assumes "client_step cfg qapi menv cenv err_name beat c c'" and "client_inv cfg qapi items methods did c"
    and "690 \<le> k_result_max cfg" and "err_names_ok err_name"
  shows "client_inv cfg qapi items methods did c'"
  using assms(1)
proof (cases rule: client_step.cases)
  case event
  then show ?thesis using inv_event [OF assms(2)] by simp
next
  case (turn inp)
  with inv_turn [OF assms(2-4), where inp = inp and menv = menv and cenv = cenv and beat = beat] show ?thesis by simp
next
  case start
  then show ?thesis using assms(2) by (auto simp: client_start_def mqtt_start_def client_inv_def core_flags)
next
  case stop
  then show ?thesis using assms(2) by (auto simp: client_stop_def mqtt_stop_def client_inv_def core_flags)
next
  case publish
  then show ?thesis
    using assms(2) core_published [of cfg qapi items methods did "cl_rpc c" "cl_mqtt c"]
    by (auto simp: publish_event_def client_inv_def split: prod.splits)
next
  case report
  then show ?thesis using assms(2) by (auto simp: request_status_report_def set_event_def client_inv_def)
next
  case other
  then show ?thesis using assms(2) core_sent by (auto simp: client_inv_def)
next
  case work
  then show ?thesis using assms(2) by (simp add: client_inv_def)
qed

lemma inv_reachable:
  assumes "(client_step cfg qapi menv cenv err_name beat)\<^sup>*\<^sup>* c1 c" and "client_inv cfg qapi items methods did c1"
    and "690 \<le> k_result_max cfg" and "err_names_ok err_name"
  shows "client_inv cfg qapi items methods did c"
  using assms(1)
proof (induction rule: rtranclp_induct)
  case base
  show ?case by (rule assms(2))
next
  case (step c c')
  from inv_step [OF step(2,3) assms(3,4)] show ?case .
qed

text \<open>A client that keeps the invariant is ready for the next request as soon as it is connected and idle.\<close>

lemma inv_idle:
  assumes "client_inv cfg api items methods did c" and "length did < 16" and "NUL \<notin> set did" and "kconfig_ok cfg"
    and "690 \<le> k_result_max cfg" and "err_names_ok err_name" and "env_takes menv"
    and "mq_connected (cl_mqtt c)" and "items (rp_ready (cl_rpc c)) = []" and "\<not> has_bit (cl_events c) BIT_CONNECTED"
  shows "client_idle cfg api items menv err_name methods c"
  using assms by (auto simp: client_idle_def client_inv_def rx_core_def topics_of_def topics_ok_def kconfig_ok_def)

subsection \<open>Properties\<close>

text \<open>
  C6: What \<open>init\<close> establishes holds for good, and the request task never hangs or loses a slot. After a
  successful \<open>init\<close> every built-in request is served; and whatever methods the application then
  registers, in every state reached by any sequence of network events, turns of the request task (also
  through a reconnection, a heartbeat, or calls to the platform that fail), calls of the application and
  publishes of the other tasks: every slot is free, ready or being filled, all buffers keep their sizes, the topics are
  those of the device's own ID, and every turn returns.
\<close>

theorem client_invariant:
  fixes c :: "('q, 'r) client" and table :: "'r client_world sc_shell"
  assumes "client_init cfg qapi napi cenv ie table cf w = (ESP_OK, Some (c0, shell), w')"
    and "fifo_ok qapi (k_queue_len cfg) items" and "nvs_ok napi view" and "kconfig_ok cfg"
    and "items (ie_free ie) = []" and "items (ie_ready ie) = []"
    and "length (ie_resp_buf ie) = k_result_max cfg" and "length (ie_call_buf ie) = CALL_BUF_SIZE"
    and "690 \<le> k_result_max cfg" and "err_names_ok err_name"
    and "c1 = c0\<lparr>cl_rpc := (cl_rpc c0)\<lparr>rp_methods := ms\<rparr>\<rparr>" and "methods_are (cl_rpc c1) methods"
    and "(client_step cfg qapi menv cenv err_name beat)\<^sup>*\<^sup>* c1 c"
  shows "methods_are (cl_rpc c0) (builtin_spec cfg cenv table) \<and>
    (\<exists>did. length did < 16 \<and> NUL \<notin> set did \<and> mq_up (cl_mqtt c) = ''d/'' @ did @ ''/up/'' \<and>
      mq_down (cl_mqtt c) = ''d/'' @ did @ ''/down/'') \<and> topics_ok (cl_mqtt c) \<and>
    methods_are (cl_rpc c) methods \<and> rx_inv cfg qapi items [] (cl_rpc c, cl_mqtt c) \<and>
    (\<forall>inp. \<exists>c'. run_turn cfg qapi menv cenv err_name beat inp c = Some c')"
proof -
  obtain did where did: "length did < 16" "NUL \<notin> set did"
    and i0: "client_inv cfg qapi items (builtin_spec cfg cenv table) did c0"
    using client_init_inv [OF assms(1-8)] by blast
  have "client_inv cfg qapi items methods did c1"
    using i0 assms(12) unfolding assms(11)
    by (simp add: client_inv_def rx_core_def rx_inv_def rpc_ok_def slots_conserved_def)
  from inv_reachable [OF assms(13) this assms(9,10)] have i: "client_inv cfg qapi items methods did c" .
  have "topics_ok (cl_mqtt c)" using i did by (auto simp: client_inv_def rx_core_def topics_of_def topics_ok_def)
  moreover have "\<exists>c'. run_turn cfg qapi menv cenv err_name beat inp c = Some c'" for inp
    using inv_turn [OF i assms(9,10)] by blast
  ultimately show ?thesis
    using i i0 did by (auto simp: client_inv_def rx_core_def topics_of_def)
qed

subsection \<open>A sample client\<close>

definition sample_init :: "(nat list, unit) init_env" where
  "sample_init = \<lparr>ie_boot = 7, ie_creds = True, ie_enroll = sample_enroll 201, ie_parts = True, ie_timer = ESP_OK,
     ie_rpc = True, ie_free = [], ie_ready = [], ie_resp_buf = zeroed 1536, ie_call_buf = zeroed 1024,
     ie_mqtt = \<lparr>mi_mutex = True, mi_client = True, mi_connect_property = ESP_OK, mi_register_event = ESP_OK\<rparr>,
     ie_logs = True, ie_log_task = True, ie_log_sink = True, ie_bin_ring = (), ie_text_ring = (),
     ie_batch = zeroed 2048, ie_shell_out = zeroed 768, ie_task = True, ie_task_now = 10, ie_beat = 30000, ie_has_cb = False\<rparr>"

definition sample_config :: sc_config where
  "sample_config = \<lparr>cf_api_url = None, cf_pairing_token = None, cf_device_name = None, cf_re_enroll = False\<rparr>"

definition sample_flash :: "(string \<rightharpoonup> string) enroll_world" where
  "sample_flash = \<lparr>hw_nvs = [KEY_DEVICE_ID \<mapsto> ''1'', KEY_PASSWORD \<mapsto> ''p'', KEY_MQTT_URL \<mapsto> ''wss://x''], hw_posts = []\<rparr>"

abbreviation sample_start :: "esp_err \<times> ((nat list, unit) client \<times> unit client_world sc_shell) option \<times> (string \<rightharpoonup> string) enroll_world" where
  "sample_start \<equiv> client_init kconfig_default (list_queue 4) map_nvs sample_cenv sample_init [] sample_config sample_flash"

lemma sample_start_ok: "\<exists>c shell w. sample_start = (ESP_OK, Some (c, shell), w)"
proof -
  obtain cr where load: "cred_load map_nvs (hw_nvs sample_flash) credentials_init = (ESP_OK, cr)"
    by (simp add: cred_load_def map_nvs_def sample_flash_def KEY_DEVICE_ID_def KEY_PASSWORD_def KEY_MQTT_URL_def)
  then have cred: "init_credentials kconfig_default (ie_enroll sample_init) map_nvs sample_config sample_flash = (ESP_OK, cr, sample_flash)"
    by (simp add: init_credentials_def sample_config_def)
  obtain e1 and rp :: "(nat list, unit client_world) sc_rpc" where rp: "rpc_init kconfig_default (list_queue 4) (ie_rpc sample_init)
      (ie_free sample_init) (ie_ready sample_init) (ie_resp_buf sample_init) (ie_call_buf sample_init) = (e1, rp)" by fastforce
  then have e1: "e1 = ESP_OK" and fresh: "rp_methods rp = replicate MAX_METHODS None"
    by (auto simp: rpc_init_def sample_init_def Let_def)
  obtain ret rp' shell where reg: "register_builtin_methods kconfig_default sample_cenv [] (rp, add_builtins
      (replicate (k_shell_max_cmds kconfig_default) None)) = (ret, rp', shell)" by (metis prod_cases3)
  have "12 \<le> k_shell_max_cmds kconfig_default" by (simp add: kconfig_default_def)
  with builtins_added [OF fresh _ reg] have ret: "ret = ESP_OK" by simp
  have link: "mqtt_setup (ie_mqtt sample_init) did = (ESP_OK, mqtt_init did)" for did
    by (simp add: mqtt_setup_def sample_init_def)
  obtain lu where logs: "log_init kconfig_default (ie_logs sample_init) (ie_log_task sample_init) (ie_log_sink sample_init)
      (ie_boot sample_init) (ie_bin_ring sample_init) (ie_text_ring sample_init) (ie_batch sample_init) = (ESP_OK, lu)"
    by (simp add: log_init_def sample_init_def)
  have flags: "ie_creds sample_init" "ie_parts sample_init" "ie_task sample_init" "ie_timer sample_init = ESP_OK"
    by (simp_all add: sample_init_def)
  show ?thesis
    unfolding client_init_def cred rp link logs Let_def prod.case
    by (simp add: flags e1 reg ret)
qed

theorem client_invariant_witness:
  "\<exists>c shell w. sample_start = (ESP_OK, Some (c, shell), w) \<and> topics_ok (cl_mqtt c) \<and>
    (\<exists>c'. run_turn kconfig_default (list_queue 4) env_ok sample_cenv (\<lambda>e. ''ERR'') 60 sample_turn
      (client_event kconfig_default (list_queue 4) env_ok MqttConnected c) = Some c')"
proof -
  obtain c shell w where s: "sample_start = (ESP_OK, Some (c, shell), w)" using sample_start_ok by blast
  have k: "k_result_max kconfig_default = 1536" "k_queue_len kconfig_default = 4" by (simp_all add: kconfig_default_def)
  have ie: "ie_free sample_init = []" "ie_ready sample_init = []" "length (ie_resp_buf sample_init) = k_result_max kconfig_default"
    "length (ie_call_buf sample_init) = CALL_BUF_SIZE"
    unfolding k by (simp_all add: sample_init_def zeroed_def CALL_BUF_SIZE_def)
  have fifo: "fifo_ok (list_queue 4) (k_queue_len kconfig_default) (\<lambda>q. q)" using list_queue_ok [of 4] k by simp
  obtain did where "client_inv kconfig_default (list_queue 4) (\<lambda>q. q) (builtin_spec kconfig_default sample_cenv []) did c"
    using client_init_inv [OF s fifo map_nvs_ok kconfig_default_ok ie] by blast
  then have m: "methods_are (cl_rpc c) (builtin_spec kconfig_default sample_cenv [])" by (simp add: client_inv_def rx_core_def)
  have same: "c = c\<lparr>cl_rpc := (cl_rpc c)\<lparr>rp_methods := rp_methods (cl_rpc c)\<rparr>\<rparr>" by simp
  have "690 \<le> k_result_max kconfig_default" by (simp add: k)
  note inv = client_invariant [OF s fifo map_nvs_ok kconfig_default_ok ie this err_names_sample same m,
      where menv = env_ok and beat = 60]
  have "topics_ok (cl_mqtt c)" using inv [of c] by simp
  moreover have "(client_step kconfig_default (list_queue 4) env_ok sample_cenv (\<lambda>e. ''ERR'') 60)\<^sup>*\<^sup>*
      c (client_event kconfig_default (list_queue 4) env_ok MqttConnected c)"
    by (intro r_into_rtranclp client_step.event)
  from inv [OF this] have "\<exists>c'. run_turn kconfig_default (list_queue 4) env_ok sample_cenv (\<lambda>e. ''ERR'') 60 sample_turn
      (client_event kconfig_default (list_queue 4) env_ok MqttConnected c) = Some c'" by blast
  ultimately show ?thesis using s by blast
qed

end
