(* ===== verification/Client_Reports.thy ===== *)
theory Client_Reports
  imports Client_Invariant
begin

text \<open>
  What the platform and the application see of the request task: the birth report and the calls of the
  first connection, the answers and heartbeats of a turn, and the callbacks.
\<close>

subsection \<open>What has been sent stays sent\<close>

definition sends_on :: "sc_mqtt \<Rightarrow> sc_mqtt \<Rightarrow> bool" where
  "sends_on mq mq' \<longleftrightarrow> (\<exists>new. sent mq' = sent mq @ new) \<and> mq_up mq' = mq_up mq \<and> mq_connected mq' = mq_connected mq"

lemma sends_on_refl: "sends_on mq mq"
  by (simp add: sends_on_def)

lemma sends_on_trans: "sends_on mq1 mq2 \<Longrightarrow> sends_on mq2 mq3 \<Longrightarrow> sends_on mq1 mq3"
  by (auto simp: sends_on_def)

lemma publish_sends_on: "publish env t d q p mq = (e, mq') \<Longrightarrow> sends_on mq mq'"
  using publish_sent(1,3,4) [of env t d q p mq e mq'] by (auto simp: sends_on_def)

lemma handle_sends_on:
  assumes "handle cfg env err_name idx (rp, mq, w) = (rp', mq', w')" and "NUL \<notin> set (mq_up mq)"
  shows "sends_on mq mq'"
proof -
  obtain slot body e where "respond env slot body mq = (e, mq')"
    using assms(1) by (auto simp: handle_def Let_def split: prod.splits)
  from respond_sent [OF this assms(2)] show ?thesis by (auto simp: sends_on_def)
qed

lemma fold_handle_sends_on:
  "fold (handle cfg env err_name) idxs (rp, mq, w) = (rp', mq', w') \<Longrightarrow> NUL \<notin> set (mq_up mq) \<Longrightarrow> sends_on mq mq'"
proof (induction idxs arbitrary: rp mq w)
  case (Cons i idxs)
  obtain rp1 mq1 w1 where h: "handle cfg env err_name i (rp, mq, w) = (rp1, mq1, w1)" by (metis prod_cases3)
  note s = handle_sends_on [OF h Cons.prems(2)]
  then have "NUL \<notin> set (mq_up mq1)" using Cons.prems(2) by (simp add: sends_on_def)
  with Cons.IH [of rp1 mq1 w1] Cons.prems(1) h s show ?case by (auto intro: sends_on_trans)
qed (simp add: sends_on_refl)

lemma ready_sends_on:
  assumes "rx_core cfg api items methods did (rp, mq)" and "NUL \<notin> set (mq_up mq)"
    and "handle_ready cfg api env err_name (rp, mq, w) = Some (rp', mq', w')"
  shows "sends_on mq mq'"
proof -
  have c: "slots_conserved api (k_queue_len cfg) items (rx_list mq) rp" using coreD [OF assms(1)] by simp
  from handle_ready_fold [OF c, of cfg env err_name mq w] assms(3) obtain rp1 where
    "fold (handle cfg env err_name) (items (rp_ready rp)) (rp, mq, w) = (rp1, mq', w')" by auto
  then show ?thesis by (rule fold_handle_sends_on) (rule assms(2))
qed

lemma report_sends_on: "sends_on (cl_mqtt c) (cl_mqtt (report_status cfg menv cenv birth c))"
  by (auto simp: report_status_def status_report_def Let_def sends_on_refl dest: publish_sends_on split: prod.split)

subsection \<open>What the application is not told\<close>

text \<open>After \<open>stop\<close> the DISCONNECTED event finds the flag cleared and tells nobody.\<close>

lemma stop_not_told:
  assumes "client_stop menv (Some c) = (ret, Some c1)"
  shows "mq_notified (cl_mqtt (client_event cfg api menv' MqttDisconnected c1)) = mq_notified (cl_mqtt c)"
proof -
  let ?mq = "(cl_mqtt c1)\<lparr>mq_connected := False\<rparr>"
  have c1: "cl_mqtt c1 = mq_call ClientStop ((cl_mqtt c)\<lparr>mq_connected := False\<rparr>)"
    using assms by (auto simp: client_stop_def mqtt_stop_def)
  obtain rp mq where d: "drop_rx_slot api (cl_rpc c1, ?mq) = (rp, mq)" by (cases "drop_rx_slot api (cl_rpc c1, ?mq)")
  then have "mq = ?mq\<lparr>mq_rx_slot := None\<rparr>" using drop_rx_slot_mqtt [of api "cl_rpc c1" ?mq] by simp
  then show ?thesis by (simp add: client_event_def Let_def c1 mq_call_def d [unfolded c1 mq_call_def, simplified])
qed

text \<open>Events whose names agree in their first 43 characters are published under the same topic.\<close>

lemma event_names_cut:
  assumes "length name = 43" and "NUL \<notin> set (name @ tail)"
  shows "publish_event menv (name @ tail) json co = publish_event menv name json co"
proof -
  have "cstr (name @ tail) = name @ tail" "cstr name = name" using assms(2) by (simp_all add: cstr_no_nul)
  with assms(1) have "snprintf 48 (''evt/'' @ cstr (name @ tail)) = snprintf 48 (''evt/'' @ cstr name)" by (simp add: snprintf_def)
  then show ?thesis by (simp only: publish_event_def)
qed

subsection \<open>The calls of the first connection\<close>

lemma call_sends:
  assumes "rpc_call menv meth ps ds doc (rp, mq) = (ret, doc', tok, rp', mq')" and "env_takes menv"
    and "mq_connected mq" and "NUL \<notin> set (mq_up mq)" and "NUL \<notin> set (call_topic meth)"
    and "length (mq_up mq) + length (call_topic meth) < 96"
  shows "sent mq' = sent mq @ [(mq_up mq @ call_topic meth, ps, 1)] \<and> mq_up mq' = mq_up mq \<and> mq_connected mq'"
proof -
  obtain e rp1 mq1 where b: "call_begin menv meth ps rp mq = (e, rp1, mq1)" by (metis prod_cases3)
  then obtain p where p: "publish menv (call_topic meth) ps 1 (Some p) mq = (e, mq1)"
    by (auto simp: call_begin_def Let_def split: prod.splits)
  have "e = ESP_OK" using publish_takes [OF assms(2-6), of ps 1 p] p by simp
  moreover have "mq' = mq1" using assms(1) b by (auto simp: rpc_call_def Let_def split: prod.splits)
  ultimately show ?thesis using publish_sent(2-4) [OF p] assms(3) by simp
qed

lemma first_calls: "call_topic ''time'' = ''req/time''" "call_topic ''ota.check'' = ''req/ota/check''"
  by (simp_all add: call_topic_def snprintf_def)

text \<open>The client can publish.\<close>

definition link_up :: "mqtt_env \<Rightarrow> ('q, 'r) client \<Rightarrow> bool" where
  "link_up menv c \<longleftrightarrow> env_takes menv \<and> mq_connected (cl_mqtt c) \<and> NUL \<notin> set (mq_up (cl_mqtt c)) \<and>
     length (mq_up (cl_mqtt c)) \<le> 80"

lemma link_up_same: "link_up menv c \<Longrightarrow> cl_mqtt c' = cl_mqtt c \<Longrightarrow> link_up menv c'"
  by (simp add: link_up_def)

definition time_request :: "string \<Rightarrow> int \<Rightarrow> (string \<times> string \<times> int) list" where
  "time_request up now = (if now > 1700000000 then [] else [(up @ ''req/time'', ''{}'', 1)])"

lemma sync_time_sends:
  assumes "link_up menv c"
  shows "link_up menv (sync_time menv now ds c) \<and>
    sent (cl_mqtt (sync_time menv now ds c)) = sent (cl_mqtt c) @ time_request (mq_up (cl_mqtt c)) now \<and>
    mq_up (cl_mqtt (sync_time menv now ds c)) = mq_up (cl_mqtt c)"
proof (cases "now > 1700000000")
  case True
  then show ?thesis using assms by (simp add: sync_time_def time_request_def)
next
  case False
  obtain ret doc tok rp mq where r: "rpc_call menv ''time'' ''{}'' ds (sc_json_doc 16) (cl_rpc c, cl_mqtt c) = (ret, doc, tok, rp, mq)"
    by (metis prod_cases5)
  have "cl_mqtt (sync_time menv now ds c) = mq" using False r by (simp add: sync_time_def Let_def split: option.split)
  with call_sends [OF r] assms False show ?thesis by (simp add: link_up_def first_calls time_request_def)
qed

lemma update_check_sends:
  assumes "link_up menv c"
  shows "link_up menv (check_for_update menv cenv ds c) \<and>
    sent (cl_mqtt (check_for_update menv cenv ds c)) = sent (cl_mqtt c) @ [(mq_up (cl_mqtt c) @ ''req/ota/check'', ''{}'', 1)] \<and>
    mq_up (cl_mqtt (check_for_update menv cenv ds c)) = mq_up (cl_mqtt c)"
proof -
  obtain ret doc tok rp mq where r: "rpc_call menv ''ota.check'' ''{}'' ds (sc_json_doc 24) (cl_rpc c, cl_mqtt c) = (ret, doc, tok, rp, mq)"
    by (metis prod_cases5)
  have "cl_mqtt (check_for_update menv cenv ds c) = mq" using r by (simp add: check_for_update_def Let_def split: prod.split)
  with call_sends [OF r] assms show ?thesis by (simp add: link_up_def first_calls)
qed

definition first_requests :: "string \<Rightarrow> turn_input \<Rightarrow> (string \<times> string \<times> int) list" where
  "first_requests up inp = time_request up (tn_unix inp) @ [(up @ ''req/ota/check'', ''{}'', 1)]"

text \<open>The callbacks, and the mark of the first connection, are touched by no part of these.\<close>

lemma report_fields [simp]:
  "cl_told (report_status cfg menv cenv birth c) = cl_told c" "cl_has_cb (report_status cfg menv cenv birth c) = cl_has_cb c"
  "cl_first (report_status cfg menv cenv birth c) = cl_first c"
  by (simp_all add: report_status_def split: prod.split)

lemma sync_fields [simp]:
  "cl_told (sync_time menv now ds c) = cl_told c" "cl_has_cb (sync_time menv now ds c) = cl_has_cb c"
  "cl_first (sync_time menv now ds c) = cl_first c"
  by (simp_all add: sync_time_def Let_def split: prod.split option.split)

lemma update_fields [simp]:
  "cl_told (check_for_update menv cenv ds c) = cl_told c" "cl_has_cb (check_for_update menv cenv ds c) = cl_has_cb c"
  "cl_first (check_for_update menv cenv ds c) = cl_first c"
  by (simp_all add: check_for_update_def Let_def split: prod.split)

lemma confirm_fields [simp]:
  "cl_told (confirm_running_image cfg p c) = cl_told c" "cl_has_cb (confirm_running_image cfg p c) = cl_has_cb c"
  "cl_first (confirm_running_image cfg p c) = cl_first c" "cl_mqtt (confirm_running_image cfg p c) = cl_mqtt c"
  by (simp_all add: confirm_running_image_def)

lemma tell_fields [simp]:
  "cl_has_cb (tell up c) = cl_has_cb c" "cl_first (tell up c) = cl_first c" "cl_mqtt (tell up c) = cl_mqtt c"
  "cl_told (tell up c) = cl_told c @ (if cl_has_cb c then [up] else [])" "cl_rpc (tell up c) = cl_rpc c"
  by (simp_all add: tell_def)

lemma birth_sends:
  assumes "link_up menv c" and "status_ok cfg (cx_chip cenv (cw_calls (cl_world c))) es True (cl_status c)"
  shows "link_up menv (report_status cfg menv cenv True c) \<and>
    sent (cl_mqtt (report_status cfg menv cenv True c)) = sent (cl_mqtt c) @
      [status_message cfg (cx_chip cenv (cw_calls (cl_world c))) es True (cl_status c) (mq_up (cl_mqtt c))] \<and>
    mq_up (cl_mqtt (report_status cfg menv cenv True c)) = mq_up (cl_mqtt c)"
proof -
  from status_report_sends [OF assms(2)] assms(1) obtain buf mq where
    "status_report cfg menv (cx_chip cenv (cw_calls (cl_world c))) True (cl_status c, cl_mqtt c) = (ESP_OK, (cl_status c)\<lparr>st_buf := buf\<rparr>, mq)"
    "sent mq = sent (cl_mqtt c) @ [status_message cfg (cx_chip cenv (cw_calls (cl_world c))) es True (cl_status c) (mq_up (cl_mqtt c))]"
    "mq_up mq = mq_up (cl_mqtt c)" "mq_connected mq" unfolding link_up_def by blast
  with assms(1) show ?thesis by (simp add: report_status_def link_up_def)
qed

lemma on_connected_sends:
  assumes "link_up menv c" and "status_ok cfg (cx_chip cenv (cw_calls (cl_world c))) es True (cl_status c)"
    and "c' = on_connected cfg menv cenv inp c"
  shows "link_up menv c' \<and> mq_up (cl_mqtt c') = mq_up (cl_mqtt c) \<and> \<not> cl_first c' \<and> cl_has_cb c' = cl_has_cb c \<and>
    cl_told c' = cl_told c @ (if cl_has_cb c then [True] else []) \<and>
    sent (cl_mqtt c') = sent (cl_mqtt c) @
      status_message cfg (cx_chip cenv (cw_calls (cl_world c))) es True (cl_status c) (mq_up (cl_mqtt c)) #
      (if cl_first c then first_requests (mq_up (cl_mqtt c)) inp else [])"
proof -
  define c1 where "c1 = report_status cfg menv cenv True c"
  note b = birth_sends [OF assms(1,2), folded c1_def]
  have fields: "cl_told c1 = cl_told c" "cl_has_cb c1 = cl_has_cb c" "cl_first c1 = cl_first c" by (simp_all add: c1_def)
  show ?thesis
  proof (cases "cl_first c")
    case True
    define c2 where "c2 = confirm_running_image cfg (tn_pending inp) (c1\<lparr>cl_first := False\<rparr>)"
    have c2: "cl_mqtt c2 = cl_mqtt c1" "cl_told c2 = cl_told c1" "cl_has_cb c2 = cl_has_cb c1" "\<not> cl_first c2"
      by (simp_all add: c2_def)
    then have "link_up menv c2" using b link_up_same by blast
    note s = sync_time_sends [OF this, of "tn_unix inp" "tn_time inp"]
    note u = update_check_sends [OF s [THEN conjunct1], of cenv "tn_update inp"]
    have "c' = tell True (check_for_update menv cenv (tn_update inp) (sync_time menv (tn_unix inp) (tn_time inp) c2))"
      using True fields by (simp add: assms(3) on_connected_def c1_def [symmetric] c2_def Let_def)
    moreover from this have "link_up menv c'" by (simp add: link_up_same [OF u [THEN conjunct1]])
    ultimately show ?thesis using b s u c2 fields True by (simp add: first_requests_def)
  next
    case False
    then have c': "c' = tell True c1" using fields by (simp add: assms(3) on_connected_def c1_def [symmetric] Let_def)
    then have "link_up menv c'" by (simp add: link_up_same [OF b [THEN conjunct1]])
    with c' show ?thesis using b fields False by simp
  qed
qed

subsection \<open>Properties\<close>

text \<open>
  C16: A connection is announced. The turn that finds the connection up returns, and the first thing it
  publishes is the birth report, with quality of service 1, before any answer; on the first connection since the start the
  request for the time (if nobody has set the clock) and the question for a pending update follow, each once;
  the application's callback is told of the connection once, and of a loss only if one was seen too.
\<close>

theorem connection_announced:
  assumes "client_inv cfg api items methods did c" and "length did < 16" and "NUL \<notin> set did"
    and "690 \<le> k_result_max cfg" and "err_names_ok err_name" and "env_takes menv" and "mq_connected (cl_mqtt c)"
    and "has_bit (cl_events c) BIT_CONNECTED"
    and "status_ok cfg (cx_chip cenv (cw_calls (cl_world c))) es True (cl_status c)"
  shows "\<exists>c' rest. run_turn cfg api menv cenv err_name beat inp c = Some c' \<and>
    sent (cl_mqtt c') = sent (cl_mqtt c) @
      status_message cfg (cx_chip cenv (cw_calls (cl_world c))) es True (cl_status c) (mq_up (cl_mqtt c)) #
      (if cl_first c then first_requests (mq_up (cl_mqtt c)) inp else []) @ rest \<and>
    \<not> cl_first c' \<and>
    cl_told c' = cl_told c @ (if cl_has_cb c then True # (if has_bit (cl_events c) BIT_DISCONNECTED then [False] else []) else [])"
proof -
  define c0 where "c0 = c\<lparr>cl_events := cl_events c AND NOT WAIT_MASK\<rparr>"
  define c1 where "c1 = (on_connected cfg menv cenv inp c0)\<lparr>cl_next_report := tn_connected inp + beat\<rparr>"
  define c2 where "c2 = (if has_bit (cl_events c) BIT_DISCONNECTED then tell False c1 else c1)"
  have up: "link_up menv c" using assms(1-3,6,7) by (auto simp: link_up_def client_inv_def rx_core_def topics_of_def)
  define d where "d = on_connected cfg menv cenv inp c0"
  have up0: "link_up menv c0" by (rule link_up_same [OF up]) (simp add: c0_def)
  have c0: "cl_mqtt c0 = cl_mqtt c" "cl_world c0 = cl_world c" "cl_status c0 = cl_status c"
    "cl_first c0 = cl_first c" "cl_has_cb c0 = cl_has_cb c" "cl_told c0 = cl_told c"
    by (simp_all add: c0_def)
  note o = on_connected_sends [OF up0 _ d_def, where es = es, unfolded c0, OF assms(9)]
  have d: "cl_mqtt c1 = cl_mqtt d" "cl_first c1 = cl_first d" "cl_has_cb c1 = cl_has_cb d" "cl_told c1 = cl_told d"
    by (simp_all add: c1_def d_def)
  have s: "link_up menv c1" using o link_up_same [OF _ d(1)] by blast
  have mq: "cl_mqtt c2 = cl_mqtt c1" "cl_rpc c2 = cl_rpc c1" by (simp_all add: c2_def)
  have "client_inv cfg api items methods did c0" using assms(1) by (simp add: c0_def client_inv_def)
  from inv_connected [OF this, of menv cenv inp] have i: "rx_core cfg api items methods did (cl_rpc c2, cl_mqtt c2)"
    by (simp add: mq c1_def client_inv_def)
  obtain rp mq' w where h: "handle_ready cfg api menv err_name (cl_rpc c2, cl_mqtt c2, cl_world c2) = Some (rp, mq', w)"
    using core_ready [OF i assms(4,5)] by blast
  let ?c3 = "c2\<lparr>cl_rpc := rp, cl_mqtt := mq', cl_world := w\<rparr>"
  let ?c4 = "if has_bit (cl_events c) BIT_REPORT_STATUS \<or> report_due (cl_next_report ?c3) (tn_checked inp)
      then (if mq_connected (cl_mqtt ?c3) then report_status cfg menv cenv False ?c3 else ?c3)\<lparr>cl_next_report := tn_reported inp + beat\<rparr>
      else ?c3"
  have turn: "run_turn cfg api menv cenv err_name beat inp c = Some ?c4"
    unfolding run_turn_def take_events_def Let_def prod.case if_P [OF assms(8)] c0_def [symmetric] c1_def [symmetric]
      c2_def [symmetric] h option.case ..
  have "sends_on (cl_mqtt c2) mq'" using ready_sends_on [OF i _ h] s mq by (simp add: link_up_def)
  moreover have "sends_on mq' (cl_mqtt ?c4)"
    using report_sends_on [of ?c3 cfg menv cenv False] by (simp add: sends_on_refl)
  ultimately have "sends_on (cl_mqtt c1) (cl_mqtt ?c4)" unfolding mq by (rule sends_on_trans)
  then obtain rest where "sent (cl_mqtt ?c4) = sent (cl_mqtt c1) @ rest" by (auto simp: sends_on_def)
  with turn o d show ?thesis
    by (intro exI [of _ ?c4] exI [of _ rest]) (simp add: c2_def)
qed

text \<open>
  C17: A turn answers everything that waits, and then reports if it is time. While the connection takes
  messages, a turn without a new connection returns, having published exactly the specified answers to all
  waiting requests in their order of arrival, followed by one status report if one was asked for or the
  heartbeat is due, and by nothing otherwise; the next heartbeat is set one interval after a report, and
  unchanged without one.
\<close>

theorem turn_answers_and_reports:
  assumes "client_ready cfg api items held menv err_name methods c" and "\<not> has_bit (cl_events c) BIT_CONNECTED"
    and "turn_due c inp \<Longrightarrow> \<forall>t. status_ok cfg (cx_chip cenv t) es False (cl_status c)"
    and "answers cfg err_name methods (map ((!) (rp_slots (cl_rpc c))) (items (rp_ready (cl_rpc c)))) (cl_world c) = (vs, w')"
  shows "\<exists>c'. run_turn cfg api menv cenv err_name beat inp c = Some c' \<and> cl_world c' = w' \<and>
    items (rp_ready (cl_rpc c')) = [] \<and>
    sent (cl_mqtt c') = sent (cl_mqtt c) @ map (answer_message (mq_up (cl_mqtt c))) vs @
      (if turn_due c inp then [status_message cfg (cx_chip cenv (cw_calls w')) es False (cl_status c) (mq_up (cl_mqtt c))] else []) \<and>
    cl_next_report c' = (if turn_due c inp then tn_reported inp + beat else cl_next_report c)"
  by (rule turn_answers [OF assms])

subsection \<open>Sample turns\<close>

lemma sample_status:
  "status_ok kconfig_default sample_chip [] birth (cl_status sample_client)"
proof -
  have "length (render (status_json (status_msg kconfig_default sample_chip 0 True) [])) < 640"
    "length (render (status_json (status_msg kconfig_default sample_chip 0 False) [])) < 640"
    unfolding status_msg_def sample_chip_def kconfig_default_def by code_simp+
  then have "length (render (status_json (status_msg kconfig_default sample_chip 0 birth) [])) < 640"
    by (cases birth) (simp_all del: render.simps)
  moreover have "ev_reset_reason sample_chip < 2 ^ 31" by (simp add: sample_chip_def)
  moreover have "\<exists>d < MAX_DEPTH. cb_adds None d []"
    by (intro exI [of _ 0]) (simp add: cb_adds_def MAX_DEPTH_def)
  moreover have "st_boot_id (cl_status sample_client) = 0" "st_extra (cl_status sample_client) = None"
    "length (st_buf (cl_status sample_client)) = STATUS_BUF"
    by (simp_all add: sample_client_def status_init_def zeroed_def)
  ultimately show ?thesis unfolding status_ok_def STATUS_BUF_def by simp
qed

theorem connection_announced_witness:
  "\<exists>c' rest. run_turn kconfig_default (list_queue 4) env_ok sample_cenv (\<lambda>e. ''ERR'') 60 sample_turn
      (sample_client\<lparr>cl_events := BIT_CONNECTED, cl_first := True, cl_has_cb := True\<rparr>) = Some c' \<and>
    sent (cl_mqtt c') = status_message kconfig_default sample_chip [] True (cl_status sample_client) ''d/1/up/'' #
      [(''d/1/up/req/time'', ''{}'', 1), (''d/1/up/req/ota/check'', ''{}'', 1)] @ rest \<and> cl_told c' = [True]"
proof -
  let ?c = "sample_client\<lparr>cl_events := BIT_CONNECTED, cl_first := True, cl_has_cb := True\<rparr>"
  have i: "rx_inv kconfig_default (list_queue 4) (\<lambda>q. q) [] (cl_rpc sample_client, cl_mqtt sample_client)"
    "methods_are (cl_rpc sample_client) (\<lambda>_. None)" "mq_connected (cl_mqtt sample_client)" "690 \<le> k_result_max kconfig_default"
    using sample_client_idle by (simp_all add: client_idle_def)
  have mq: "cl_mqtt sample_client = online" by (simp add: sample_client_def)
  have "topics_of ''1'' online" unfolding online_def by (simp add: topics_of_def mqtt_init_def snprintf_def)
  with i(1,2) mq have inv: "client_inv kconfig_default (list_queue 4) (\<lambda>q. q) (\<lambda>_. None) ''1'' ?c"
    by (simp add: client_inv_def rx_core_def)
  have bits: "has_bit (cl_events ?c) BIT_CONNECTED" "\<not> has_bit (cl_events ?c) BIT_DISCONNECTED"
    by (simp_all add: has_bit_def BIT_CONNECTED_def BIT_DISCONNECTED_def)
  have chip: "cx_chip sample_cenv t = sample_chip" for t by (simp add: sample_cenv_def)
  have st: "status_ok kconfig_default (cx_chip sample_cenv (cw_calls (cl_world ?c))) [] True (cl_status ?c)"
    using sample_status [of True] by (simp add: chip)
  have f: "first_requests ''d/1/up/'' sample_turn = [(''d/1/up/req/time'', ''{}'', 1), (''d/1/up/req/ota/check'', ''{}'', 1)]"
    by (simp add: first_requests_def time_request_def sample_turn_def)
  have told: "cl_told ?c = []" by (simp add: sample_client_def)
  from connection_announced [OF inv _ _ i(4) err_names_sample env_ok_takes _ bits(1) st, of 60 sample_turn] i(3) bits(2) f mq chip told
  show ?thesis by (auto simp del: render.simps)
qed

theorem turn_answers_and_reports_witness:
  "\<exists>c'. run_turn kconfig_default (list_queue 4) env_ok sample_cenv (\<lambda>e. ''ERR'') 60 (sample_turn\<lparr>tn_checked := 100, tn_reported := 101\<rparr>)
      sample_client = Some c' \<and>
    sent (cl_mqtt c') = [status_message kconfig_default sample_chip [] False (cl_status sample_client) ''d/1/up/''] \<and>
    cl_next_report c' = 161"
proof -
  let ?inp = "sample_turn\<lparr>tn_checked := 100, tn_reported := 101\<rparr>"
  have ready: "client_ready kconfig_default (list_queue 4) (\<lambda>q. q) [] env_ok (\<lambda>e. ''ERR'') (\<lambda>_. None) sample_client"
    and idle: "rp_ready (cl_rpc sample_client) = []" "\<not> has_bit (cl_events sample_client) BIT_CONNECTED"
    using sample_client_idle online_idle
    by (simp_all add: client_idle_def client_ready_def rx_inv_def rx_list_def rpc_ok_def sample_client_def)
  have due: "turn_due sample_client ?inp" by (simp add: turn_due_def report_due_def sample_client_def)
  have mq: "cl_mqtt sample_client = online" by (simp add: sample_client_def)
  have chip: "cx_chip sample_cenv t = sample_chip" for t by (simp add: sample_cenv_def)
  have "answers kconfig_default (\<lambda>e. ''ERR'') (\<lambda>_. None) (map ((!) (rp_slots (cl_rpc sample_client)))
      (rp_ready (cl_rpc sample_client))) (cl_world sample_client) = ([], cl_world sample_client)" by (simp add: idle(1))
  from turn_answers_and_reports [OF ready idle(2) _ this, of ?inp sample_cenv "[]" 60] due mq chip sample_status [of False]
  show ?thesis by (auto simp: sample_turn_def simp del: render.simps)
qed

end
