(* ===== verification/Builtin_Values.thy ===== *)
theory Builtin_Values
  imports Builtin_Answers
begin

text \<open>
  The built-in requests as functions of JSON values. A request's parameters are text that the reader
  reads; when the text is that of a JSON object, what each handler answers and what it does to the log
  levels, the update and the shell is a function of that object, without tokens, buffers or decoders.
\<close>

subsection \<open>Requests on values\<close>

type_synonym 'w value_spec = "json \<Rightarrow> 'w \<Rightarrow> esp_err \<times> string \<times> (string \<times> json) list \<times> 'w"

definition on_values :: "'w handler_spec \<Rightarrow> 'w value_spec \<Rightarrow> bool" where
  "on_values spec vs \<longleftrightarrow> (\<forall>m p v w. node p 0 v \<longrightarrow> spec m p w = vs v w)"

text \<open>A C string in a zeroed buffer; longer text is cut by the reader.\<close>

definition c_field :: "nat \<Rightarrow> json option \<Rightarrow> string" where
  "c_field cap v = write_out (zeroed cap) (json_str cap v)"

definition shell_value :: "kconfig \<Rightarrow> client_env \<Rightarrow> 'r client_world sc_shell \<Rightarrow> 'r client_world value_spec" where
  "shell_value cfg cenv table v w =
     (case str_member (Some v) ''line'' 520 of
        None \<Rightarrow> (ESP_ERR_INVALID_ARG, ''params.line must be a string of at most 519 bytes'', [], w)
      | Some line \<Rightarrow>
          (case run (cx_chip cenv (cw_calls w)) table line (sc_shell_out (cw_shell_out w) (SHELL_OUT_SIZE cfg)) w of
             (code, sh, w') \<Rightarrow>
               (ESP_OK, [],
                [(''code'', JInt (sint (word_of_int code :: u64))), (''output'', JStr (take (so_len sh) (so_buf sh)))] @
                  (if so_truncated sh then [(''truncated'', JBool True)] else []),
                w'\<lparr>cw_shell_out := so_buf sh\<rparr>)))"

definition reboot_value :: "client_env \<Rightarrow> 'r client_world value_spec" where
  "reboot_value cenv v w =
     (let ms = max 200 (case json_int (json_member v ''delayMs'') of None \<Rightarrow> 500 | Some d \<Rightarrow> d)
      in (cx_timer cenv (cw_calls w), [], [], cw_call (StartTimer (word_of_int (ms * 1000))) w))"

definition info_value :: "client_env \<Rightarrow> 'r client_world value_spec" where
  "info_value cenv v w = (ESP_OK, [], info_members cenv w, w)"

text \<open>
  \<open>log.config\<close>: the level of all tags, the levels of single tags, and the two switches. A level that is not a
  string of at most 15 characters is no level.
\<close>

definition level_of :: "json \<Rightarrow> string option" where
  "level_of v = map_option cstr (str_member (Some v) ''level'' 16)"

definition level_ok :: "json \<Rightarrow> bool" where
  "level_ok v \<longleftrightarrow> set_option (level_of v) \<subseteq> set level_names"

definition tags_of :: "json \<Rightarrow> (string \<times> int) list option" where
  "tags_of v =
     (case json_member v ''tags'' of
        None \<Rightarrow> Some []
      | Some (JObj ts) \<Rightarrow> those (map tag_entry ts)
      | _ \<Rightarrow> None)"

definition tag_calls :: "(string \<times> int) list \<Rightarrow> client_call list" where
  "tag_calls tags = concat (map (\<lambda>(tag, l). [On9logTag tag l, EspLogTag tag l]) tags)"

definition level_calls :: "string option \<Rightarrow> client_call list" where
  "level_calls level =
     (case level of
        None \<Rightarrow> []
      | Some name \<Rightarrow> [On9logLevel (level_from_name name), EspLogTag ''*'' (level_from_name name)])"

definition switched :: "bool option \<Rightarrow> bool \<Rightarrow> bool" where
  "switched to now = (case to of None \<Rightarrow> now | Some b \<Rightarrow> b)"

definition log_config_value :: "'r client_world value_spec" where
  "log_config_value v w =
     (case (level_ok v, tags_of v) of
        (True, Some tags) \<Rightarrow>
          (ESP_OK, [], [],
           w\<lparr>cw_calls := cw_calls w @ tag_calls tags @ level_calls (level_of v),
             cw_logs := (cw_logs w)\<lparr>
               lu_text_enabled := switched (json_bool (json_member v ''text'')) (lu_text_enabled (cw_logs w)),
               lu_bin_enabled := switched (json_bool (json_member v ''bin'')) (lu_bin_enabled (cw_logs w))\<rparr>\<rparr>)
      | _ \<Rightarrow> (ESP_ERR_INVALID_ARG, ''bad log.config params'', [], w))"

text \<open>\<open>ota.start\<close>: the update that an object describes.\<close>

definition update_of :: "json \<Rightarrow> sc_ota_params option" where
  "update_of v =
     (case (str_member (Some v) ''url'' 384, str_member (Some v) ''sha256'' 65, json_member v ''size'',
            str_member (Some v) ''taskId'' 40) of
        (Some url, Some sha, Some (JInt sz), Some task) \<Rightarrow>
          if length (cstr sha) = 64 \<and> 0 < sz \<and> sz \<le> UINT32_MAX
          then Some \<lparr>op_url = c_field 384 (json_member v ''url''), op_sha256 = c_field 65 (json_member v ''sha256''),
                     op_size = word_of_int sz,
                     op_version = (let ver = c_field 33 (json_member v ''version'') in
                       if str_member (Some v) ''version'' 33 = None then ver[0 := NUL] else ver),
                     op_task_id = c_field 40 (json_member v ''taskId'')\<rparr>
          else None
      | _ \<Rightarrow> None)"

definition ota_start_value :: "client_env \<Rightarrow> 'r client_world value_spec" where
  "ota_start_value cenv v w =
     (case update_of v of
        None \<Rightarrow> (ESP_ERR_INVALID_ARG, ''bad ota.start params'', [], w)
      | Some ps \<Rightarrow>
          if ot_running (cw_ota w) \<and> cstr (op_task_id ps) \<noteq> cstr (op_task_id (ot_params (cw_ota w)))
          then (ESP_ERR_INVALID_STATE, ''an update is already running'', [], w)
          else if ot_running (cw_ota w) then (ESP_OK, [], [], w)
          else (ESP_OK, [], [], w\<lparr>cw_ota := \<lparr>ot_params = ps, ot_running = cx_task_created cenv (cw_calls w),
                 ot_cancel_requested = False, ot_last_progress = -1, ot_last_report_us = 0\<rparr>\<rparr>))"

definition ota_cancel_value :: "'r client_world value_spec" where
  "ota_cancel_value v w =
     (if ot_running (cw_ota w) \<and> cstr (c_field 40 (json_member v ''taskId'')) = cstr (op_task_id (ot_params (cw_ota w)))
      then (ESP_OK, [], [], w\<lparr>cw_ota := (cw_ota w)\<lparr>ot_cancel_requested := True\<rparr>\<rparr>)
      else (ESP_ERR_NOT_FOUND, ''no such update running'', [], w))"

definition builtin_value ::
    "kconfig \<Rightarrow> client_env \<Rightarrow> 'r client_world sc_shell \<Rightarrow> string \<Rightarrow> 'r client_world value_spec option" where
  "builtin_value cfg cenv table = map_of
     [(''shell'', shell_value cfg cenv table), (''reboot'', reboot_value cenv), (''info'', info_value cenv),
      (''log.config'', log_config_value), (''ota.start'', ota_start_value cenv), (''ota.cancel'', ota_cancel_value)]"

subsection \<open>The handlers compute them\<close>

lemma call_fail_text: "s \<noteq> [] \<Longrightarrow> NUL \<notin> set s \<Longrightarrow> length s < 96 \<Longrightarrow> call_fail s = s"
  by (simp add: call_fail_def snprintf_def cstr_no_nul)

lemma plain_params [simp]: "plain_key ''line''" "plain_key ''delayMs''"
  by (simp_all add: plain_key_def escape_char_def)

lemma run_cstr: "cstr s = cstr s' \<Longrightarrow> run ev table s = run ev table s'"
  by (intro ext) (simp add: run_def sh_run_def)

lemma shell_on_values: "on_values (shell_spec cfg cenv (table :: 'r client_world sc_shell)) (shell_value cfg cenv table)"
  unfolding on_values_def
proof (intro allI impI)
  fix m p v and w :: "'r client_world"
  assume n: "node p 0 v"
  note g = get_str_member [OF n, of "''line''" 520]
  have f: "call_fail ''params.line must be a string of at most 519 bytes'' = ''params.line must be a string of at most 519 bytes''"
    by (simp add: call_fail_text)
  show "shell_spec cfg cenv table m p w = shell_value cfg cenv table v w"
  proof (cases "str_member (Some v) ''line'' 520")
    case None
    with g f show ?thesis by (simp add: shell_spec_def shell_value_def)
  next
    case (Some line)
    then have "length line < 520" by (auto simp: str_member_def split: option.splits json.splits if_split_asm)
    then have c: "cstr (write_out (zeroed 520) (True, line)) = cstr line" by (simp add: cstr_write_out zeroed_def)
    from g Some show ?thesis by (simp add: shell_spec_def shell_value_def run_cstr [OF c])
  qed
qed

lemma reboot_on_values: "on_values (silent_spec (reboot_method cenv)) (reboot_value cenv)"
  by (simp add: on_values_def silent_spec_def reboot_method_def reboot_value_def get_int_node Let_def max_def)

lemma info_on_values: "on_values (info_spec cenv) (info_value cenv)"
  by (simp add: on_values_def info_spec_def info_value_def)

lemma those_entries: "those (map f xs) = (if None \<in> set (map f xs) then None else Some (map (the \<circ> f) xs))"
  by (induction xs) (auto split: option.split)

lemma fold_apply_tags: "fold apply_tag_level tags w = w\<lparr>cw_calls := cw_calls w @ tag_calls tags\<rparr>"
  by (induction tags arbitrary: w) (simp_all add: tag_calls_def apply_tag_level_def cw_call_def split: prod.split)

lemma level_from_name_neg: "level_from_name name < 0 \<longleftrightarrow> name \<notin> set level_names"
  using level_from_name_cases [of name] by (auto simp: in_set_conv_nth)

lemmas log_config_parts = level_ok_def level_of_def tags_of_def those_entries level_from_name_neg log_config_init_def Let_def

lemma log_config_accepted:
  assumes "node p 0 v" and "level_ok v" and "tags_of v = Some tags"
  shows "decode_log_config p log_config_init =
    (ESP_OK, \<lparr>lc_level = (case level_of v of None \<Rightarrow> -1 | Some name \<Rightarrow> level_from_name name),
       lc_text = (case json_bool (json_member v ''text'') of None \<Rightarrow> -1 | Some b \<Rightarrow> if b then 1 else 0),
       lc_bin = (case json_bool (json_member v ''bin'') of None \<Rightarrow> -1 | Some b \<Rightarrow> if b then 1 else 0)\<rparr>, tags)"
  using assms(2,3)
  by (auto simp: decode_log_config_node [OF assms(1)] log_config_parts split: option.splits json.splits if_split_asm)

lemma log_config_refused:
  assumes "node p 0 v" and "\<not> (level_ok v \<and> tags_of v \<noteq> None)"
  shows "\<exists>out. decode_log_config p log_config_init = (ESP_ERR_INVALID_ARG, out, [])"
  using assms(2)
  by (auto simp: decode_log_config_node [OF assms(1)] log_config_parts split: option.splits json.splits if_split_asm)

lemma log_config_on_values: "on_values (silent_spec (log_config_method :: 'r client_world rpc_handler)) log_config_value"
  unfolding on_values_def
proof (intro allI impI)
  fix m p v and w :: "'r client_world"
  assume n: "node p 0 v"
  have f: "call_fail ''bad log.config params'' = ''bad log.config params''" by (simp add: call_fail_text)
  show "silent_spec log_config_method m p w = log_config_value v w"
  proof (cases "level_ok v \<and> tags_of v \<noteq> None")
    case False
    with log_config_refused [OF n] obtain out where "decode_log_config p log_config_init = (ESP_ERR_INVALID_ARG, out, [])" by blast
    with f False show ?thesis
      by (cases "level_ok v"; cases "tags_of v")
        (simp_all add: silent_spec_def log_config_method_def log_config_value_def Let_def)
  next
    case True
    then obtain tags where t: "tags_of v = Some tags" "level_ok v" by blast
    have l: "name \<in> set level_names" if "level_of v = Some name" for name using t(2) that by (simp add: level_ok_def)
    then have "\<not> level_from_name name < 0" if "level_of v = Some name" for name using that by (simp add: level_from_name_neg)
    then show ?thesis
      by (cases "level_of v"; cases "json_bool (json_member v ''text'')"; cases "json_bool (json_member v ''bin'')")
        (simp_all add: silent_spec_def log_config_method_def log_config_accepted [OF n t(2,1)] log_config_value_def t Let_def
          fold_apply_tags level_calls_def switched_def cw_call_def cw_logs_do_def set_text_enabled_def set_bin_enabled_def)
  qed
qed

text \<open>The parameters that \<open>decode_ota_params\<close> accepts are those of \<open>update_of\<close>.\<close>

lemma ota_params_values:
  assumes "node p i v"
  shows "(case update_of v of
       None \<Rightarrow> fst (decode_ota_params p i ota_params_init) \<noteq> ESP_OK
     | Some ps \<Rightarrow> decode_ota_params p i ota_params_init = (ESP_OK, ps))"
proof -
  have str: "get_str p i key cap = json_str cap (json_member v key)" if "plain_key key" for key cap
    by (rule get_str_node [OF assms that])
  have field: "cstr (c_field cap (json_member v key)) = cstr s" "fst (json_str cap (json_member v key))"
    if "str_member (Some v) key cap = Some s" for key cap s
  proof -
    from that have "json_str cap (json_member v key) = (True, s)" by (simp add: json_str_member)
    moreover from this have "length s < cap" by (simp add: json_str_True)
    ultimately show "cstr (c_field cap (json_member v key)) = cstr s" "fst (json_str cap (json_member v key))"
      by (simp_all add: c_field_def cstr_write_out zeroed_def)
  qed
  have no: "str_member (Some v) key cap = None \<longleftrightarrow> \<not> fst (json_str cap (json_member v key))" for key cap
    by (auto simp: json_str_def str_member_def split: option.splits json.splits if_split_asm)
  have size: "get_int p i ''size'' = json_int (json_member v ''size'')" by (rule get_int_node [OF assms]) simp
  show ?thesis
  proof (cases "update_of v")
    case None
    have "fst (decode_ota_params p i ota_params_init) \<noteq> ESP_OK"
    proof
      assume "fst (decode_ota_params p i ota_params_init) = ESP_OK"
      then obtain url sha sz task where m: "str_member (Some v) ''url'' 384 = Some url" "str_member (Some v) ''sha256'' 65 = Some sha"
        "json_member v ''size'' = Some (JInt sz)" "str_member (Some v) ''taskId'' 40 = Some task" "0 < sz" "sz \<le> UINT32_MAX"
        "length (cstr (write_out (op_sha256 ota_params_init) (True, sha))) = 64"
        unfolding decode_ota_params_render [OF assms] by blast
      moreover have "length sha < 65" using m(2) by (auto simp: str_member_def split: option.splits json.splits if_split_asm)
      then have "cstr (write_out (op_sha256 ota_params_init) (True, sha)) = cstr sha"
        by (simp add: cstr_write_out ota_params_init_def)
      ultimately show False using None by (simp add: update_of_def)
    qed
    with None show ?thesis by auto
  next
    case (Some ps)
    then obtain url sha sz task where m: "str_member (Some v) ''url'' 384 = Some url" "str_member (Some v) ''sha256'' 65 = Some sha"
      "json_member v ''size'' = Some (JInt sz)" "str_member (Some v) ''taskId'' 40 = Some task" "length (cstr sha) = 64"
      "0 < sz" "sz \<le> UINT32_MAX" and ps: "ps = \<lparr>op_url = c_field 384 (json_member v ''url''),
          op_sha256 = c_field 65 (json_member v ''sha256''), op_size = word_of_int sz,
          op_version = (let ver = c_field 33 (json_member v ''version'') in
                       if str_member (Some v) ''version'' 33 = None then ver[0 := NUL] else ver),
          op_task_id = c_field 40 (json_member v ''taskId'')\<rparr>"
      by (auto simp: update_of_def split: option.splits json.splits if_split_asm)
    have sz: "json_int (json_member v ''size'') = Some sz" using m(3,6,7) by (simp add: json_int_def)
    have sha: "length (cstr (c_field 65 (json_member v ''sha256''))) = 64" using field(1) [OF m(2)] m(5) by simp
    note ok = field(2) [OF m(1)] field(2) [OF m(2)] field(2) [OF m(4)]
    have "decode_ota_params p i ota_params_init = (ESP_OK, ps)"
      using ok sha m(6,7) unfolding ps
      by (simp add: decode_ota_params_def Let_def str size sz ota_params_init_def no c_field_def zeroed_def)
    with Some show ?thesis by simp
  qed
qed

lemma ota_start_on_values: "on_values (silent_spec (ota_start_method cenv)) (ota_start_value cenv)"
  unfolding on_values_def
proof (intro allI impI)
  fix m p v w
  assume n: "node p 0 v"
  have f: "call_fail ''bad ota.start params'' = ''bad ota.start params''"
    "call_fail ''an update is already running'' = ''an update is already running''" by (simp_all add: call_fail_text)
  obtain ret ps where d: "decode_ota_params p 0 ota_params_init = (ret, ps)" by fastforce
  show "silent_spec (ota_start_method cenv) m p w = ota_start_value cenv v w"
    using ota_params_values [OF n] f
    by (cases "cw_ota w") (simp add: silent_spec_def ota_start_method_def ota_start_value_def d ota_start_def Let_def split: option.splits)
qed

lemma ota_cancel_on_values: "on_values (silent_spec ota_cancel_method) ota_cancel_value"
  by (simp add: on_values_def silent_spec_def ota_cancel_method_def ota_cancel_value_def ota_cancel_def c_field_def
      get_str_node call_fail_text Let_def)

lemma builtin_on_values:
  assumes "builtin_value cfg cenv table name = Some vs"
  shows "\<exists>spec. builtin_spec cfg cenv table name = Some spec \<and> on_values spec vs"
  using assms
  by (auto simp: builtin_value_def builtin_spec_def shell_on_values reboot_on_values info_on_values log_config_on_values
      ota_start_on_values ota_cancel_on_values split: if_split_asm)

subsection \<open>Served requests\<close>

definition result_answer ::
    "kconfig \<Rightarrow> (esp_err \<Rightarrow> string) \<Rightarrow> esp_err \<Rightarrow> string \<Rightarrow> (string \<times> json) list \<Rightarrow> json" where
  "result_answer cfg err_name ret msg es =
     (if cstr msg \<noteq> [] then error_answer (take 111 (cstr msg))
      else if ret \<noteq> ESP_OK then error_answer (take 111 (err_name ret))
      else if length (render (ok_answer es)) \<ge> k_result_max cfg
      then error_answer (take 111 (''result larger than '' @ dec_text (int (k_result_max cfg)) @ '' bytes''))
      else ok_answer es)"

lemma render_not_Nil [simp]: "render (JObj ms) \<noteq> []"
  by simp

lemma answer_on_values:
  assumes "methods (cstr (sl_method slot)) = Some spec" and "on_values spec vs" and "\<not> sl_too_large slot"
    and "take (sl_payload_len slot) (sl_payload slot) = render (JObj ms)" and "json_size (JObj ms) \<le> 32"
    and "vs (JObj ms) w = (ret, msg, es, w')"
  shows "answer_of cfg err_name methods slot w = (result_answer cfg err_name ret msg es, w')"
proof -
  have "json_size (JObj ms) \<le> rd_max_tokens (sc_json_doc 32)" using assms(5) by (simp add: sc_json_doc_def)
  from reader_parse_render [OF this] obtain r where r: "reader_parse (render (JObj ms)) (sc_json_doc 32) = (ESP_OK, r)"
    "node r 0 (JObj ms)" by blast
  have "spec (cstr (sl_method slot)) r w = (ret, msg, es, w')"
    using assms(2) r(2) assms(6) unfolding on_values_def by metis
  moreover have "0 < sl_payload_len slot" using assms(4) render_not_Nil [of ms] by (cases "sl_payload_len slot") simp_all
  ultimately show ?thesis
    using assms(1,3,4) r(1) by (simp add: answer_of_def result_answer_def Let_def del: render.simps)
qed

text \<open>
  What ESP-IDF documents of \<open>esp_log_level_set\<close>: it sets the level of one tag, or with the tag \<open>*\<close> of all
  tags, and cannot raise it above \<open>CONFIG_LOG_MAXIMUM_LEVEL\<close> (\<open>max_level\<close>). \<open>esp_level\<close> is the highest level that a tag
  logs at after some calls; it is the contract of a build with levels per tag, which is ESP-IDF's default.
\<close>

definition esp_log_ok :: "int \<Rightarrow> (client_call list \<Rightarrow> string \<Rightarrow> int) \<Rightarrow> bool" where
  "esp_log_ok max_level esp_level \<longleftrightarrow>
     (\<forall>cs c t. esp_level (cs @ [c]) t =
        (case c of EspLogTag tag l \<Rightarrow> if tag = ''*'' \<or> tag = t then min max_level l else esp_level cs t
         | _ \<Rightarrow> esp_level cs t))"

text \<open>The entry of a request's \<open>tags\<close> that decides about a tag: the last one for it or for all.\<close>

definition tag_level :: "(string \<times> int) list \<Rightarrow> string \<Rightarrow> int option" where
  "tag_level tags t = map_option snd (List.find (\<lambda>(tag, l). tag = ''*'' \<or> tag = t) (rev tags))"

lemma esp_level_set:
  assumes "esp_log_ok max_level esp_level" and "\<And>u k. c \<noteq> EspLogTag u k"
  shows "esp_level (cs @ [c, EspLogTag tag l]) t = (if tag = ''*'' \<or> tag = t then min max_level l else esp_level cs t)"
proof -
  have "esp_level ((cs @ [c]) @ [EspLogTag tag l]) t =
      (if tag = ''*'' \<or> tag = t then min max_level l else esp_level (cs @ [c]) t)"
    using assms(1) unfolding esp_log_ok_def by (simp del: append_assoc)
  moreover have "esp_level (cs @ [c]) t = esp_level cs t"
  proof (cases c)
    case (EspLogTag u k)
    with assms(2) [of u k] show ?thesis by simp
  qed (use assms(1) in \<open>simp_all add: esp_log_ok_def\<close>)
  ultimately show ?thesis by simp
qed

lemma esp_level_tags:
  assumes "esp_log_ok max_level esp_level"
  shows "esp_level (cs @ tag_calls tags) t =
    (case tag_level tags t of Some l \<Rightarrow> min max_level l | None \<Rightarrow> esp_level cs t)"
proof (induction tags rule: rev_induct)
  case (snoc x tags)
  obtain tag l where x: "x = (tag, l)" by (cases x)
  have "esp_level (cs @ tag_calls (tags @ [x])) t =
      (if tag = ''*'' \<or> tag = t then min max_level l else esp_level (cs @ tag_calls tags) t)"
    using esp_level_set [OF assms, of "On9logTag tag l" "cs @ tag_calls tags" tag l t] by (simp add: tag_calls_def x)
  with snoc show ?case by (simp add: x tag_level_def)
qed (simp add: tag_calls_def tag_level_def)

lemma esp_level_level:
  assumes "esp_log_ok max_level esp_level"
  shows "esp_level (cs @ level_calls level) t =
    (case level of Some name \<Rightarrow> min max_level (level_from_name name) | None \<Rightarrow> esp_level cs t)"
  by (cases level) (simp_all add: level_calls_def esp_level_set [OF assms])

text \<open>The delay of \<open>reboot\<close> is converted to microseconds in 64 bits.\<close>

lemma reboot_delay_wraps:
  assumes "reboot_method cenv m p out w = (ret, msg, out', w')" and "node p 0 v"
    and "json_member v ''delayMs'' = Some (JInt d)" and "200 \<le> d" and "d \<le> LLONG_MAX"
  shows "\<exists>us. cw_calls w' = cw_calls w @ [StartTimer us] \<and> uint us = d * 1000 mod 2 ^ 64"
proof -
  have "get_int p 0 ''delayMs'' = Some d" using assms(3-5) by (simp add: get_int_node [OF assms(2)] json_int_def)
  moreover have "uint (word_of_int d * 1000 :: u64) = d * 1000 mod 2 ^ 64"
  proof -
    have "uint (word_of_int (d * 1000) :: u64) = d * 1000 mod 2 ^ 64"
      by (subst unsigned_of_int) (simp add: take_bit_eq_mod)
    moreover have "(word_of_int (d * 1000) :: u64) = word_of_int d * 1000" by (simp add: of_int_mult)
    ultimately show ?thesis by simp
  qed
  ultimately show ?thesis using assms(1,4) by (auto simp: reboot_method_def Let_def cw_call_def)
qed

subsection \<open>Accepted updates\<close>

definition params_checked :: "sc_ota_params \<Rightarrow> bool" where
  "params_checked q \<longleftrightarrow> ota_params_ok q \<and> 0 < op_size q \<and> length (cstr (op_sha256 q)) = 64 \<and>
     length (cstr (op_url q)) < 384 \<and> length (cstr (op_task_id q)) < 40 \<and> length (cstr (op_version q)) < 33"

lemma decode_checked: "decode_ota_params p i ota_params_init = (ESP_OK, q) \<Longrightarrow> params_checked q"
  using decode_ota_params_accepts [OF _ ota_params_init_ok, of p i q] decode_ota_params_sizes [OF ota_params_init_ok, of p i]
  by (simp add: params_checked_def)

lemma silent_value:
  assumes "on_values (silent_spec h) vs" and "node p 0 v" and "h m p out w = (ret, msg, out', w')"
    and "\<And>out. h m p out w = (case h m p (sc_json_writer None 0) w of (ret, msg, _, w') \<Rightarrow> (ret, msg, out, w'))"
  shows "vs v w = (ret, msg, [], w')"
proof -
  obtain r ms x u where h: "h m p (sc_json_writer None 0) w = (r, ms, x, u)" by (metis prod_cases4)
  have "vs v w = silent_spec h m p w" using assms(1,2) unfolding on_values_def by metis
  moreover have "h m p out w = (r, ms, out, u)" using assms(4) [of out] by (simp add: h)
  ultimately show ?thesis using assms(3) by (simp add: silent_spec_def h)
qed

subsection \<open>Properties\<close>

text \<open>
  C12: The built-in requests mean what their JSON says. A request whose parameters are the text of an object (of at
  most 32 tokens), to any of the six built-in methods, is answered by exactly one message on its reply topic: the
  answer that the method's function of that object gives, and its effect on log levels, switches, the update and
  the shell is that function's effect. No buffer, token or decoder is left in these functions, down to the
  parameters an update is started with and the order in which log levels are set.
\<close>

theorem builtin_request_served:
  fixes rp :: "('q, 'r client_world) sc_rpc"
  assumes "length (rp_resp_buf rp) = k_result_max cfg" and "690 \<le> k_result_max cfg"
    and "methods_are rp (builtin_spec cfg cenv table)" and "err_names_ok err_name"
    and "env_takes env" and "mq_connected mq" and "NUL \<notin> set (mq_up mq)" and "length (mq_up mq) < 93"
    and "\<not> sl_too_large (rp_slots rp ! idx)" and "json_size (JObj ms) \<le> 32"
    and "take (sl_payload_len (rp_slots rp ! idx)) (sl_payload (rp_slots rp ! idx)) = render (JObj ms)"
    and "builtin_value cfg cenv table (cstr (sl_method (rp_slots rp ! idx))) = Some vs"
    and "vs (JObj ms) w = (ret, msg, es, w')"
  shows "\<exists>rp' mq'. handle cfg env err_name idx (rp, mq, w) = (rp', mq', w') \<and>
    sent mq' = sent mq @ [(reply_topic (mq_up mq) (rp_slots rp ! idx), render (result_answer cfg err_name ret msg es), 1)]"
proof -
  obtain rp' mq' w1 where h: "handle cfg env err_name idx (rp, mq, w) = (rp', mq', w1)" by (metis prod_cases3)
  obtain spec where "builtin_spec cfg cenv table (cstr (sl_method (rp_slots rp ! idx))) = Some spec" "on_values spec vs"
    using builtin_on_values [OF assms(12)] by blast
  note answer = answer_on_values [where methods = "builtin_spec cfg cenv table" and slot = "rp_slots rp ! idx", OF this assms(9,11,10,13)]
  from answer handle_body [OF assms(1-4) h] obtain e where
    "w1 = w'" "respond env (rp_slots rp ! idx) (render (result_answer cfg err_name ret msg es)) mq = (e, mq')" by auto
  with h respond_takes [OF assms(5-8), of "rp_slots rp ! idx"] show ?thesis
    by (auto simp: sent_def List.map_filter_def)
qed

text \<open>
  C26: Log configuration is all or nothing, and a level given for all tags wins over the levels of single tags in the
  same request. Whatever the document, a refused request changes nothing. A request that is a JSON object is accepted
  exactly when its level (if any) and every entry of \<open>tags\<close> name a level. Then the switches are set as it says, nothing but
  logging is touched, and the calls made are, for every entry of \<open>tags\<close> in order, \<open>on9log_set_tag_level\<close> and
  \<open>esp_log_level_set\<close> with its tag and level, and after them, for a level, \<open>on9log_set_level\<close> and
  \<open>esp_log_level_set\<close> for the tag \<open>*\<close>. So afterwards ESP-IDF logs every tag at the level of the request if it gives one;
  otherwise at that of the last entry for this tag or for \<open>*\<close>, and without such an entry as before: each level
  cut at \<open>CONFIG_LOG_MAXIMUM_LEVEL\<close>, above which ESP-IDF cannot raise it.
\<close>

theorem log_config_request:
  assumes "log_config_method m p out w = (ret, msg, out', w')" and "esp_log_ok max_level esp_level"
  shows "(ret \<noteq> ESP_OK \<longrightarrow> w' = w) \<and> cw_ota w' = cw_ota w \<and> cw_shell_out w' = cw_shell_out w \<and>
    (\<forall>v. node p 0 v \<longrightarrow> (ret = ESP_OK \<longleftrightarrow> level_ok v \<and> tags_of v \<noteq> None) \<and>
      (\<forall>tags. ret = ESP_OK \<longrightarrow> tags_of v = Some tags \<longrightarrow>
        cw_logs w' = (cw_logs w)\<lparr>
          lu_text_enabled := switched (json_bool (json_member v ''text'')) (lu_text_enabled (cw_logs w)),
          lu_bin_enabled := switched (json_bool (json_member v ''bin'')) (lu_bin_enabled (cw_logs w))\<rparr> \<and>
        cw_calls w' = cw_calls w @ tag_calls tags @ level_calls (level_of v) \<and>
        (\<forall>t. esp_level (cw_calls w') t =
          (case level_of v of
             Some name \<Rightarrow> min max_level (level_from_name name)
           | None \<Rightarrow> (case tag_level tags t of
               Some l \<Rightarrow> min max_level l | None \<Rightarrow> esp_level (cw_calls w) t)))))"
proof (intro conjI allI impI)
  obtain dret cfg tags where d: "decode_log_config p log_config_init = (dret, cfg, tags)" by (metis prod_cases3)
  note eq = assms(1) [unfolded log_config_method_def d Let_def prod.case fold_apply_tags]
  show "ret \<noteq> ESP_OK \<Longrightarrow> w' = w" using eq decode_log_config_error [OF d] by (auto simp: tag_calls_def split: if_splits)
  show "cw_ota w' = cw_ota w" "cw_shell_out w' = cw_shell_out w"
    using eq by (auto simp: cw_call_def cw_logs_do_def split: if_splits)
next
  fix v assume n: "node p 0 v"
  have val: "log_config_value v w = (ret, msg, [], w')"
    by (rule silent_value [OF log_config_on_values n assms(1)]) (simp add: log_config_method_def Let_def case_prod_beta)
  show ok: "ret = ESP_OK \<longleftrightarrow> level_ok v \<and> tags_of v \<noteq> None"
    using val by (auto simp: log_config_value_def split: option.splits bool.splits)
  fix tags assume "ret = ESP_OK" and t: "tags_of v = Some tags"
  with ok have w': "w' = w\<lparr>cw_calls := cw_calls w @ tag_calls tags @ level_calls (level_of v),
             cw_logs := (cw_logs w)\<lparr>
               lu_text_enabled := switched (json_bool (json_member v ''text'')) (lu_text_enabled (cw_logs w)),
               lu_bin_enabled := switched (json_bool (json_member v ''bin'')) (lu_bin_enabled (cw_logs w))\<rparr>\<rparr>"
    using val by (simp add: log_config_value_def)
  show "cw_logs w' = (cw_logs w)\<lparr>
      lu_text_enabled := switched (json_bool (json_member v ''text'')) (lu_text_enabled (cw_logs w)),
      lu_bin_enabled := switched (json_bool (json_member v ''bin'')) (lu_bin_enabled (cw_logs w))\<rparr>"
    and calls: "cw_calls w' = cw_calls w @ tag_calls tags @ level_calls (level_of v)"
    by (simp_all add: w')
  fix t
  show "esp_level (cw_calls w') t = (case level_of v of Some name \<Rightarrow> min max_level (level_from_name name)
      | None \<Rightarrow> (case tag_level tags t of Some l \<Rightarrow> min max_level l | None \<Rightarrow> esp_level (cw_calls w) t))"
    using esp_level_level [OF assms(2), of "cw_calls w @ tag_calls tags"] esp_level_tags [OF assms(2)]
    by (cases "level_of v") (simp_all add: calls)
qed

text \<open>
  C18: Only a checked update is started, and a running one is never disturbed. Whatever the document, while an update
  runs \<open>ota.start\<close> changes nothing, and the update it starts has a size that is not zero, a hash of 64 characters and
  terminated strings. A request that is a JSON object is accepted exactly when its members are valid and no other
  update is running; then the update described by them is set up. It is answered \<open>ok\<close> even when its task cannot be
  created, and then does not run.
\<close>

theorem ota_start_request:
  assumes "ota_start_method cenv m p out w = (ret, msg, out', w')"
  shows "(ot_running (cw_ota w) \<longrightarrow> w' = w) \<and> (ot_running (cw_ota w') \<longrightarrow> w' = w \<or> params_checked (ot_params (cw_ota w'))) \<and>
    (\<forall>v. node p 0 v \<longrightarrow>
      (ret = ESP_OK \<longleftrightarrow> (\<exists>ps. update_of v = Some ps \<and>
         (ot_running (cw_ota w) \<longrightarrow> cstr (op_task_id ps) = cstr (op_task_id (ot_params (cw_ota w)))))) \<and>
      (ret = ESP_OK \<longrightarrow> \<not> ot_running (cw_ota w) \<longrightarrow> update_of v = Some (ot_params (cw_ota w')) \<and>
         (ot_running (cw_ota w') \<longleftrightarrow> cx_task_created cenv (cw_calls w)) \<and> \<not> ot_cancel_requested (cw_ota w')))"
proof (intro conjI allI impI)
  obtain dret ps where d: "decode_ota_params p 0 ota_params_init = (dret, ps)" by fastforce
  note eq = assms [unfolded ota_start_method_def d Let_def prod.case ota_start_def]
  show "ot_running (cw_ota w) \<Longrightarrow> w' = w" using eq by (auto split: if_splits)
  show "ot_running (cw_ota w') \<Longrightarrow> w' = w \<or> params_checked (ot_params (cw_ota w'))"
    using eq decode_checked [of p 0 ps] d by (auto split: if_splits)
next
  fix v assume n: "node p 0 v"
  have val: "ota_start_value cenv v w = (ret, msg, [], w')"
    by (rule silent_value [OF ota_start_on_values n assms]) (simp add: ota_start_method_def Let_def case_prod_beta)
  show "ret = ESP_OK \<longleftrightarrow> (\<exists>ps. update_of v = Some ps \<and>
         (ot_running (cw_ota w) \<longrightarrow> cstr (op_task_id ps) = cstr (op_task_id (ot_params (cw_ota w)))))"
    using val by (auto simp: ota_start_value_def split: option.splits if_splits)
  assume "ret = ESP_OK" "\<not> ot_running (cw_ota w)"
  with val show "update_of v = Some (ot_params (cw_ota w'))" "ot_running (cw_ota w') \<longleftrightarrow> cx_task_created cenv (cw_calls w)"
    "\<not> ot_cancel_requested (cw_ota w')"
    by (auto simp: ota_start_value_def split: option.splits if_splits)
qed

subsection \<open>Sample requests\<close>

definition idle_world :: "string list client_world" where
  "idle_world = \<lparr>cw_logs = snd (log_init kconfig_default True True True 7 [] [] []), cw_ota = ota_init,
     cw_shell_out = zeroed (SHELL_OUT_SIZE kconfig_default), cw_calls = []\<rparr>"

definition warn_params :: "(string \<times> json) list" where
  "warn_params = [(''level'', JStr ''warn''), (''tags'', JObj [(''wifi'', JStr ''debug'')])]"

definition config_slot :: sc_rpc_slot where
  "config_slot = (slot_init kconfig_default)\<lparr>sl_method := ''log.config'' @ replicate 38 NUL, sl_payload := render (JObj warn_params),
     sl_payload_len := length (render (JObj warn_params))\<rparr>"

text \<open>ESP-IDF built with \<open>CONFIG_LOG_MAXIMUM_LEVEL\<close> info, at its default level info.\<close>

definition sample_esp_level :: "client_call list \<Rightarrow> string \<Rightarrow> int" where
  "sample_esp_level cs =
     fold (\<lambda>c lev t. case c of EspLogTag tag l \<Rightarrow> if tag = ''*'' \<or> tag = t then min 3 l else lev t | _ \<Rightarrow> lev t)
     cs (\<lambda>_. 3)"

lemma sample_esp_log_ok: "esp_log_ok 3 sample_esp_level"
  by (auto simp: esp_log_ok_def sample_esp_level_def split: client_call.split)

text \<open>A request without a level that names a tag, then all tags.\<close>

definition star_params :: "(string \<times> json) list" where
  "star_params = [(''tags'', JObj [(''wifi'', JStr ''error''), (''*'', JStr ''debug'')])]"

lemma params_node:
  assumes "json_size (JObj ms) \<le> 32"
  shows "\<exists>p. node p 0 (JObj ms)"
  using reader_parse_render [of ms "sc_json_doc 32"] assms by (auto simp: sc_json_doc_def)

lemma warn_parts: "level_of (JObj warn_params) = Some ''warn''" "tags_of (JObj warn_params) = Some [(''wifi'', 4)]"
  "level_ok (JObj warn_params)" "level_from_name ''warn'' = 2"
  by code_simp+

lemma star_parts: "level_of (JObj star_params) = None" "tags_of (JObj star_params) = Some [(''wifi'', 1), (''*'', 4)]"
  "level_ok (JObj star_params)" "tag_level [(''wifi'', 1), (''*'', 4)] ''wifi'' = Some 4"
  by code_simp+

lemma warn_value: "\<exists>w'. log_config_value (JObj warn_params) w = (ESP_OK, [], [], w')"
  by (simp add: log_config_value_def warn_parts)

theorem builtin_request_served_witness:
  "\<exists>rp rp' mq' w'. handle kconfig_default env_ok (\<lambda>e. ''ERR'') 0 (rp :: (nat list, string list client_world) sc_rpc, online, idle_world) =
      (rp', mq', w') \<and> sent mq' = [(''d/1/up/res'', render (ok_answer []), 1)]"
proof -
  let ?k = "kconfig_default"
  let ?rp0 = "(snd (rpc_init ?k (list_queue 4) True [] [] (replicate 1536 NUL) []) :: (nat list, string list client_world) sc_rpc)
    \<lparr>rp_slots := [config_slot]\<rparr>"
  have fresh: "rp_methods ?rp0 = replicate MAX_METHODS None" by (simp add: rpc_init_def Let_def)
  have k: "8 \<le> k_shell_max_cmds ?k" by (simp add: kconfig_default_def)
  obtain ret rp shell where reg: "register_builtin_methods ?k sample_cenv []
      (?rp0, add_builtins (replicate (k_shell_max_cmds ?k) None)) = (ret, rp, shell)" by (metis prod_cases3)
  from builtins_added [OF fresh k reg] obtain ms where m: "methods_are rp (builtin_spec ?k sample_cenv [])"
    and rp: "rp = ?rp0\<lparr>rp_methods := ms\<rparr>" by blast
  have slot: "rp_slots rp ! 0 = config_slot" "length (rp_resp_buf rp) = k_result_max ?k"
    by (simp_all add: rp rpc_init_def Let_def kconfig_default_def)
  have s: "\<not> sl_too_large config_slot" "take (sl_payload_len config_slot) (sl_payload config_slot) = render (JObj warn_params)"
    "reply_topic ''d/1/up/'' config_slot = ''d/1/up/res''" "cstr (sl_method config_slot) = ''log.config''"
    by (simp_all add: config_slot_def slot_init_def reply_topic_def cstr_def del: render.simps)
  have size: "json_size (JObj warn_params) \<le> 32" by (simp add: warn_params_def)
  have val: "builtin_value ?k sample_cenv [] (cstr (sl_method config_slot)) = Some log_config_value"
    by (simp add: s(4) builtin_value_def)
  obtain w' where w': "log_config_value (JObj warn_params) idle_world = (ESP_OK, [], [], w')" using warn_value by blast
  have ans: "result_answer ?k (\<lambda>e. ''ERR'') ESP_OK [] [] = ok_answer []"
    by (simp add: result_answer_def cstr_def ok_answer_def kconfig_default_def) code_simp
  have "\<exists>rp' mq'. handle ?k env_ok (\<lambda>e. ''ERR'') 0 (rp, online, idle_world) = (rp', mq', w') \<and>
      sent mq' = sent online @ [(reply_topic (mq_up online) (rp_slots rp ! 0), render (result_answer ?k (\<lambda>e. ''ERR'') ESP_OK [] []), 1)]"
    by (rule builtin_request_served [where vs = log_config_value and ms = warn_params, OF slot(2) _ m err_names_sample env_ok_takes _ _ _ _ size _ _ w'])
      (simp_all only: slot(1) s(1,2) val, simp_all add: kconfig_default_def)
  then show ?thesis unfolding slot(1) ans by (auto simp: s(3) simp del: render.simps)
qed

theorem log_config_request_witness:
  "\<exists>p msg out' w' p2 msg2 out2 w2.
    log_config_method ''log.config'' p (sc_json_writer None 0) idle_world = (ESP_OK, msg, out', w') \<and>
    cw_calls w' = [On9logTag ''wifi'' 4, EspLogTag ''wifi'' 4, On9logLevel 2, EspLogTag ''*'' 2] \<and>
    sample_esp_level (cw_calls w') ''wifi'' = 2 \<and>
    log_config_method ''log.config'' p2 (sc_json_writer None 0) idle_world = (ESP_OK, msg2, out2, w2) \<and>
    cw_calls w2 = [On9logTag ''wifi'' 1, EspLogTag ''wifi'' 1, On9logTag ''*'' 4, EspLogTag ''*'' 4] \<and>
    sample_esp_level (cw_calls w2) ''wifi'' = 3"
proof -
  obtain p p2 where n: "node p 0 (JObj warn_params)" "node p2 0 (JObj star_params)"
    using params_node [of warn_params] params_node [of star_params] by (auto simp: warn_params_def star_params_def)
  obtain ret msg out' w' where r: "log_config_method ''log.config'' p (sc_json_writer None 0) idle_world = (ret, msg, out', w')"
    by (metis prod_cases4)
  obtain ret2 msg2 out2 w2 where r2: "log_config_method ''log.config'' p2 (sc_json_writer None 0) idle_world = (ret2, msg2, out2, w2)"
    by (metis prod_cases4)
  have idle: "cw_calls idle_world = []" by (simp add: idle_world_def)
  from log_config_request [OF r sample_esp_log_ok] n(1) have "ret = ESP_OK" "cw_calls w' = [On9logTag ''wifi'' 4, EspLogTag ''wifi'' 4, On9logLevel 2, EspLogTag ''*'' 2]"
    by (auto simp: warn_parts idle tag_calls_def level_calls_def)
  moreover from log_config_request [OF r2 sample_esp_log_ok] n(2) have "ret2 = ESP_OK" "cw_calls w2 = [On9logTag ''wifi'' 1, EspLogTag ''wifi'' 1, On9logTag ''*'' 4, EspLogTag ''*'' 4]"
    by (auto simp: star_parts idle tag_calls_def level_calls_def)
  moreover have "sample_esp_level [On9logTag ''wifi'' 4, EspLogTag ''wifi'' 4, On9logLevel 2, EspLogTag ''*'' 2] ''wifi'' = 2"
    "sample_esp_level [On9logTag ''wifi'' 1, EspLogTag ''wifi'' 1, On9logTag ''*'' 4, EspLogTag ''*'' 4] ''wifi'' = 3"
    by (simp_all add: sample_esp_level_def)
  ultimately show ?thesis using r r2 by (metis (no_types))
qed

theorem ota_start_request_witness:
  "\<exists>p msg out' w'. ota_start_method (sample_cenv\<lparr>cx_task_created := \<lambda>_. False\<rparr>) ''ota.start'' p (sc_json_writer None 0) idle_world =
      (ESP_OK, msg, out', w') \<and> \<not> ot_running (cw_ota w')"
proof -
  let ?cenv = "sample_cenv\<lparr>cx_task_created := \<lambda>_. False\<rparr>"
  obtain p where n: "node p 0 (JObj ota_sample)" using params_node [of ota_sample] by (auto simp: ota_sample_def)
  have idle: "\<not> ot_running (cw_ota idle_world)" by (simp add: idle_world_def ota_init_def)
  obtain ps where ps: "update_of (JObj ota_sample) = Some ps"
    using ota_params_values [OF n] ota_sample_accepted [OF n] by (cases "update_of (JObj ota_sample)") simp_all
  obtain ret msg out' w' where r: "ota_start_method ?cenv ''ota.start'' p (sc_json_writer None 0) idle_world = (ret, msg, out', w')"
    by (metis prod_cases4)
  from ota_start_request [OF r] n ps idle have "ret = ESP_OK" "\<not> ot_running (cw_ota w')" by auto
  with r show ?thesis by blast
qed

end
