(* ===== verification/Device_World.thy ===== *)
theory Device_World
  imports Builtin_Values Client_Invariant
begin

text \<open>
  The part of the device that requests act on: the log levels, the update and the shell's buffer. Requests,
  answers of the platform and the commands of the application change it, the update task and the upload task
  work on it. In every reachable state it is well typed: buffers have their sizes, levels are levels of ESP-IDF,
  and an update that runs has checked parameters.
\<close>

subsection \<open>Well-typed worlds\<close>

definition level_in_range :: "int \<Rightarrow> bool" where
  "level_in_range l \<longleftrightarrow> 0 \<le> l \<and> l < int (length level_names)"

fun call_ok :: "client_call \<Rightarrow> bool" where
  "call_ok (On9logTag tag l) \<longleftrightarrow> length tag < 32 \<and> level_in_range l"
| "call_ok (EspLogTag tag l) \<longleftrightarrow> length tag < 32 \<and> level_in_range l"
| "call_ok (On9logLevel l) \<longleftrightarrow> level_in_range l"
| "call_ok (SetTime s us) \<longleftrightarrow> \<bar>us\<bar> < 1000000"
| "call_ok _ \<longleftrightarrow> True"

definition ota_ok :: "sc_ota \<Rightarrow> bool" where
  "ota_ok ota \<longleftrightarrow> ota_params_ok (ot_params ota) \<and> (ot_running ota \<longrightarrow> params_checked (ot_params ota))"

definition world_ok :: "kconfig \<Rightarrow> 'r client_world \<Rightarrow> bool" where
  "world_ok cfg w \<longleftrightarrow>
     length (cw_shell_out w) = SHELL_OUT_SIZE cfg \<and> (\<forall>c \<in> set (cw_calls w). call_ok c) \<and> ota_ok (cw_ota w)"

lemma world_ok_simps [simp]:
  "world_ok cfg (w\<lparr>cw_logs := lu\<rparr>) = world_ok cfg w"
  "world_ok cfg (cw_logs_do f w) = world_ok cfg w"
  "world_ok cfg (cw_call c w) \<longleftrightarrow> world_ok cfg w \<and> call_ok c"
  "world_ok cfg (w\<lparr>cw_ota := ota\<rparr>) \<longleftrightarrow>
     length (cw_shell_out w) = SHELL_OUT_SIZE cfg \<and> (\<forall>c \<in> set (cw_calls w). call_ok c) \<and> ota_ok ota"
  by (auto simp: world_ok_def cw_logs_do_def cw_call_def)

text \<open>What a handler and a command of the application must keep.\<close>

definition keeps :: "kconfig \<Rightarrow> 'r client_world rpc_handler \<Rightarrow> bool" where
  "keeps cfg h \<longleftrightarrow> (\<forall>m p out w. world_ok cfg w \<longrightarrow> world_ok cfg (snd (snd (snd (h m p out w)))))"

text \<open>A command writes its output through \<open>write\<close> and \<open>printf\<close>.\<close>

definition wrote :: "sc_shell_out \<Rightarrow> sc_shell_out \<Rightarrow> bool" where
  "wrote out out' \<longleftrightarrow> (\<exists>cs. out' = fold so_do cs out)"

definition cmd_keeps :: "kconfig \<Rightarrow> 'r client_world app_handler \<Rightarrow> bool" where
  "cmd_keeps cfg f \<longleftrightarrow> (\<forall>argv out w. world_ok cfg w \<longrightarrow>
     (case f argv out w of (code, out', w') \<Rightarrow> wrote out out' \<and> world_ok cfg w'))"

definition table_ok :: "kconfig \<Rightarrow> 'r client_world sc_shell \<Rightarrow> bool" where
  "table_ok cfg table \<longleftrightarrow>
     (\<forall>name e f. Some (name, e) \<in> set table \<longrightarrow> sh_handler e = AppCmd f \<longrightarrow> cmd_keeps cfg f)"

subsection \<open>The shell keeps its buffer\<close>

lemma wrote_refl [simp, intro]: "wrote out out"
  unfolding wrote_def by (rule exI [of _ "[]"]) simp

lemma wrote_trans: "wrote a b \<Longrightarrow> wrote b c \<Longrightarrow> wrote a c"
  unfolding wrote_def by (metis fold_append comp_apply)

lemma wrote_printf [intro]: "wrote a b \<Longrightarrow> wrote a (so_printf t b)"
  by (erule wrote_trans) (simp add: wrote_def exI [of _ "[SoPrintf t]"])

lemmas wrote_one [simp, intro] = wrote_printf [OF wrote_refl]

lemma wrote_write [intro]: "wrote a b \<Longrightarrow> wrote a (so_write s b)"
  by (erule wrote_trans) (simp add: wrote_def exI [of _ "[SoWrite s]"])

lemma wrote_fold [intro]:
  assumes "wrote a b" and "\<And>x out. wrote out (f x out)"
  shows "wrote a (fold f xs b)"
  using assms(1)
proof (induction xs arbitrary: b)
  case (Cons x xs)
  from Cons.IH [OF wrote_trans [OF Cons.prems assms(2)]] show ?case by simp
qed simp

lemma wrote_heap [intro]: "wrote a b \<Longrightarrow> wrote a (print_heap l h b)"
  by (auto simp: print_heap_def)

lemma wrote_part [intro]: "wrote a b \<Longrightarrow> wrote a (print_part p b)"
  by (auto simp: print_part_def)

lemma builtin_wrote: "wrote out (snd (exec_builtin ev cmds b argv out))"
  by (cases b) (auto simp: Let_def intro!: wrote_fold split: option.split prod.split)

lemma run_wrote:
  assumes "table_ok cfg table" and "world_ok cfg w" and "run ev table line out w = (code, out', w')"
  shows "wrote out out' \<and> world_ok cfg w'"
proof -
  let ?argv = "take MAX_ARGS (strtok_words (cstr line))"
  show ?thesis
  proof (cases "?argv = [] \<or> best_cmd table ?argv = None")
    case True
    with assms(2,3) show ?thesis by (auto simp: run_def sh_run_def Let_def split: option.splits if_splits)
  next
    case False
    then obtain name e where b: "best_cmd table ?argv = Some (name, e)" by auto
    then have entry: "Some (name, e) \<in> set table" using best_cmd_ok [of table ?argv] by (simp add: best_ok_def)
    let ?rest = "drop (unat (sh_words e)) ?argv"
    have r: "sh_exec ev table (sh_handler e) ?rest out w = (code, out', w')"
      using assms(3) b False by (simp add: run_def sh_run_def Let_def)
    show ?thesis
    proof (cases "sh_handler e")
      case (Builtin c)
      with r builtin_wrote [of out ev table c ?rest] assms(2) show ?thesis
        by (cases "exec_builtin ev table c ?rest out") (simp add: sh_exec_def)
    next
      case (AppCmd f)
      with assms(1) entry have "cmd_keeps cfg f" unfolding table_ok_def by blast
      with r AppCmd assms(2) show ?thesis by (auto simp: sh_exec_def cmd_keeps_def split: prod.splits)
    qed
  qed
qed

lemma wrote_length:
  assumes "wrote (sc_shell_out buf cap) out" and "length buf = cap" and "0 < cap"
  shows "length (so_buf out) = cap"
proof -
  obtain cs where out: "out = fold so_do cs (sc_shell_out buf cap)" using assms(1) by (auto simp: wrote_def)
  have "so_shows out (fold so_text cs [])" unfolding out by (rule shell_text.run_rel [OF so_shows_init [OF assms(2,3)]])
  moreover have "so_cap (so_do c out) = so_cap out" for c out
    by (cases c) (simp_all add: so_write_def so_printf_def Let_def split: option.split)
  then have "so_cap (fold so_do cs out) = so_cap out" for cs out by (induction cs arbitrary: out) simp_all
  then have "so_cap out = cap" by (simp add: out sc_shell_out_def)
  ultimately show ?thesis by (simp add: so_shows_def)
qed

subsection \<open>The built-in requests keep it\<close>

lemma tags_pass_calls:
  "\<forall>c \<in> set calls. length (fst c) < 32 \<and> level_in_range (snd c) \<Longrightarrow>
    \<forall>c \<in> set (snd (tags_pass doc n b idx member calls)). length (fst c) < 32 \<and> level_in_range (snd c)"
proof (induction doc n b idx member calls rule: tags_pass.induct)
  case (1 doc n b idx member calls)
  let ?s1 = "str_at doc member 32" and ?s2 = "str_at doc (member + 1) 16"
  have "length (cstr (snd ?s1)) < 32"
    using str_at_bound [of doc member 32 "fst ?s1" "snd ?s1"] length_cstr_le [of "snd ?s1"] by simp
  moreover have "\<not> level_from_name s < 0 \<Longrightarrow> level_in_range (level_from_name s)" for s
    using level_from_name_range [of s] by (simp add: level_in_range_def)
  ultimately have more: "\<forall>c \<in> set (calls @ [(cstr (snd ?s1), level_from_name (cstr (snd ?s2)))]). length (fst c) < 32 \<and> level_in_range (snd c)"
    if "\<not> level_from_name (cstr (snd ?s2)) < 0" using 1(2) that by simp
  show ?case
  proof (cases "idx < n \<and> member \<ge> 0 \<and> fst ?s1 \<and> fst ?s2 \<and> \<not> level_from_name (cstr (snd ?s2)) < 0")
    case True
    then have step: "tags_pass doc n b idx member calls = tags_pass doc n b (idx + 1) (skip doc (member + 1))
        (if b then calls @ [(cstr (snd ?s1), level_from_name (cstr (snd ?s2)))] else calls)"
      by (subst tags_pass.simps) (simp add: Let_def)
    show ?thesis unfolding step by (rule 1(1)) (use True more 1(2) in \<open>simp_all add: Let_def\<close>)
  next
    case False
    then have "snd (tags_pass doc n b idx member calls) = calls"
      by (subst tags_pass.simps) (auto simp: Let_def)
    with 1(2) show ?thesis by simp
  qed
qed

lemma decode_log_calls:
  assumes "decode_log_config p log_config_init = (ret, out, calls)"
  shows "(\<forall>c \<in> set calls. length (fst c) < 32 \<and> level_in_range (snd c)) \<and>
    (ret = ESP_OK \<longrightarrow> 0 \<le> lc_level out \<longrightarrow> level_in_range (lc_level out))"
proof -
  have range: "0 \<le> level_from_name s \<Longrightarrow> level_in_range (level_from_name s)" for s
    using level_from_name_range [of s] by (simp add: level_in_range_def)
  have nil: "\<forall>c \<in> set (snd (tags_pass doc n b idx member [])). length (fst c) < 32 \<and> level_in_range (snd c)" for doc n b idx member
    by (rule tags_pass_calls) simp
  note pass = tags_pass_calls [OF nil]
  let ?p = "\<lambda>b cs. tags_pass p (child_count p (find p 0 ''tags'')) b 0 (find p 0 ''tags'' + 1) cs"
  obtain ok0 c0 ok1 c1 where q: "?p False [] = (ok0, c0)" "?p True c0 = (ok1, c1)" by (metis surj_pair)
  have "\<forall>c \<in> set c0. length (fst c) < 32 \<and> level_in_range (snd c)" "\<forall>c \<in> set c1. length (fst c) < 32 \<and> level_in_range (snd c)"
    using nil [of p "child_count p (find p 0 ''tags'')" False 0 "find p 0 ''tags'' + 1"]
      pass [of p "child_count p (find p 0 ''tags'')" True 0 "find p 0 ''tags'' + 1" p "child_count p (find p 0 ''tags'')" False 0 "find p 0 ''tags'' + 1"] q
    by simp_all
  with assms q range show ?thesis
    by (auto simp: decode_log_config_def Let_def log_config_init_def split: if_splits option.splits)
qed

lemma log_config_keeps: "keeps cfg log_config_method"
  unfolding keeps_def
proof (intro allI impI)
  fix m p out and w :: "'r client_world"
  assume ok: "world_ok cfg w"
  obtain ret lc tags where d: "decode_log_config p log_config_init = (ret, lc, tags)" by (metis prod_cases3)
  have "world_ok cfg (fold apply_tag_level tags w)"
    using ok decode_log_calls [OF d] by (auto simp: fold_apply_tags world_ok_def tag_calls_def)
  moreover have "level_in_range (lc_level lc)" if "ret = ESP_OK" "0 \<le> lc_level lc" using decode_log_calls [OF d] that by blast
  ultimately show "world_ok cfg (snd (snd (snd (log_config_method m p out w))))"
    by (auto simp: log_config_method_def d Let_def)
qed

lemma start_ok:
  assumes "ota_ok ota" and "params_checked ps"
  shows "ota_ok (snd (ota_start created ps ota))"
  using assms by (simp add: ota_start_def ota_ok_def params_checked_def Let_def)

lemma ota_start_keeps: "keeps cfg (ota_start_method cenv)"
  unfolding keeps_def
proof (intro allI impI)
  fix m p out and w :: "'r client_world"
  assume ok: "world_ok cfg w"
  obtain ret ps where d: "decode_ota_params p 0 ota_params_init = (ret, ps)" by fastforce
  obtain r ota where s: "ota_start (cx_task_created cenv (cw_calls w)) ps (cw_ota w) = (r, ota)" by fastforce
  have "ret = ESP_OK \<Longrightarrow> ota_ok ota"
    using start_ok [of "cw_ota w" ps "cx_task_created cenv (cw_calls w)"] s ok d decode_checked [of p 0 ps] by (simp add: world_ok_def)
  with ok show "world_ok cfg (snd (snd (snd (ota_start_method cenv m p out w))))"
    by (simp add: ota_start_method_def d s world_ok_def Let_def)
qed

lemma ota_cancel_keeps: "keeps cfg ota_cancel_method"
  by (auto simp: keeps_def ota_cancel_method_def ota_cancel_def Let_def world_ok_def ota_ok_def split: prod.split)

lemma shell_keeps:
  fixes table :: "'r client_world sc_shell"
  assumes "table_ok cfg table" and "0 < SHELL_OUT_SIZE cfg"
  shows "keeps cfg (shell_method cfg cenv table)"
  unfolding keeps_def
proof (intro allI impI)
  fix m p out and w :: "'r client_world"
  assume ok: "world_ok cfg w"
  let ?line = "write_out (zeroed 520) (get_str p 0 ''line'' 520)"
  obtain code sh w' where r: "run (cx_chip cenv (cw_calls w)) table ?line
      (sc_shell_out (cw_shell_out w) (SHELL_OUT_SIZE cfg)) w = (code, sh, w')" by (metis prod_cases3)
  from run_wrote [OF assms(1) ok r] wrote_length [of "cw_shell_out w" "SHELL_OUT_SIZE cfg" sh] ok assms(2)
  have "world_ok cfg (w'\<lparr>cw_shell_out := so_buf sh\<rparr>)" by (simp add: world_ok_def)
  with ok show "world_ok cfg (snd (snd (snd (shell_method cfg cenv table m p out w))))"
    by (simp add: shell_method_def r Let_def)
qed

lemma builtin_keeps:
  assumes "table_ok cfg table" and "0 < SHELL_OUT_SIZE cfg" and "(name, h) \<in> set (builtin_methods cfg cenv table)"
  shows "keeps cfg h"
proof -
  have "keeps cfg (reboot_method cenv)" "keeps cfg (info_method cenv)"
    by (simp_all add: keeps_def reboot_method_def info_method_def Let_def)
  with assms(3) shell_keeps [OF assms(1,2)] log_config_keeps ota_start_keeps ota_cancel_keeps show ?thesis
    by (auto simp: builtin_methods_def)
qed

subsection \<open>Registered handlers\<close>

definition methods_keep :: "kconfig \<Rightarrow> ('q, 'r client_world) sc_rpc \<Rightarrow> bool" where
  "methods_keep cfg rp \<longleftrightarrow> (\<forall>name h. Some (name, h) \<in> set (rp_methods rp) \<longrightarrow> keeps cfg h)"

lemma methods_keep_same: "rp_methods rp' = rp_methods rp \<Longrightarrow> methods_keep cfg rp' = methods_keep cfg rp"
  by (simp add: methods_keep_def)

lemma add_methods_keep:
  "methods_keep cfg rp \<Longrightarrow> \<forall>(n, h) \<in> set regs. keeps cfg h \<Longrightarrow> methods_keep cfg (snd (add_methods regs rp))"
proof (induction regs arbitrary: rp)
  case (Cons r regs)
  obtain n h where r: "r = (n, h)" by (cases r)
  have "methods_keep cfg (snd (add_method (Some n) (Some h) rp))"
  proof (cases "put_entry n h (rp_methods rp)")
    case (Some ms)
    with put_entry_set [OF Some] Cons.prems r show ?thesis by (auto simp: add_method_def methods_keep_def)
  qed (use Cons.prems in \<open>simp add: add_method_def\<close>)
  with Cons r show ?case by (simp add: case_prod_beta Let_def)
qed simp

lemma find_method_keeps: "methods_keep cfg rp \<Longrightarrow> find_method name rp = Some h \<Longrightarrow> keeps cfg h"
  unfolding methods_keep_def find_method_def by (blast dest: get_entry_set)

lemma handle_keeps:
  assumes "methods_keep cfg rp" and "world_ok cfg w" and "handle cfg' env err_name idx (rp, mq, w) = (rp', mq', w')"
  shows "world_ok cfg w' \<and> rp_methods rp' = rp_methods rp"
proof -
  let ?slot = "rp_slots rp ! idx"
  obtain error out w1 where run: "run_request cfg' err_name ?slot rp w = (error, out, w1)" by (metis prod_cases3)
  have "world_ok cfg w1"
  proof (cases "find_method (cstr (sl_method ?slot)) rp")
    case (Some h)
    have "world_ok cfg (snd (snd (snd (h m p o1 w))))" for m p o1
      using find_method_keeps [OF assms(1) Some] assms(2) by (simp add: keeps_def)
    with run Some assms(2) show ?thesis
      by (auto simp: run_request_def Let_def split: prod.splits if_splits) (metis snd_conv)+
  qed (use run assms(2) in \<open>auto simp: run_request_def Let_def split: if_splits\<close>)
  with run assms(3) show ?thesis by (auto simp: handle_def Let_def split: prod.splits)
qed

lemma handle_ready_keeps:
  assumes "handle_ready cfg' api env err_name s = Some r" and "methods_keep cfg (fst s)" and "world_ok cfg (snd (snd s))"
  shows "world_ok cfg (snd (snd r)) \<and> rp_methods (fst r) = rp_methods (fst s)"
proof -
  have "methods_keep cfg (fst s) \<and> world_ok cfg (snd (snd s)) \<longrightarrow>
      world_ok cfg (snd (snd r)) \<and> rp_methods (fst r) = rp_methods (fst s)"
  proof (rule handle_ready.raw_induct [OF _ assms(1)], intro impI, elim conjE, goal_cases)
    case (1 rec cfg' api env err_name s r)
    obtain rp mq w where s: "s = (rp, mq, w)" by (cases s)
    show ?case
    proof (cases "q_receive api (rp_ready rp)")
      case None
      with 1(2) s 1(4) show ?thesis by simp
    next
      case (Some iq)
      obtain i q where iq: "iq = (i, q)" by (cases iq)
      obtain rp1 mq1 w1 where h: "handle cfg' env err_name i (rp\<lparr>rp_ready := q\<rparr>, mq, w) = (rp1, mq1, w1)" by (metis prod_cases3)
      have "methods_keep cfg (rp\<lparr>rp_ready := q\<rparr>)" "world_ok cfg w" using 1(3,4) s by (simp_all add: methods_keep_def)
      from handle_keeps [OF this h] have k: "world_ok cfg w1" "rp_methods rp1 = rp_methods rp" by simp_all
      have next_call: "rec cfg' api env err_name (give_back api i rp1, mq1, w1) = Some r"
        using 1(2) Some iq h s by simp
      have "methods_keep cfg (give_back api i rp1)" using 1(3) k(2) s by (simp add: methods_keep_def give_back_def)
      with 1(1) [OF next_call] k s show ?thesis by (simp add: give_back_def)
    qed
  qed
  with assms(2,3) show ?thesis by blast
qed

subsection \<open>Turns of the request task\<close>

definition device_ok :: "kconfig \<Rightarrow> ('q, 'r) client \<Rightarrow> bool" where
  "device_ok cfg c \<longleftrightarrow> world_ok cfg (cl_world c) \<and> methods_keep cfg (cl_rpc c)"

lemma deliver_methods: "rp_methods (fold deliver ds rp) = rp_methods rp"
  by (induction ds arbitrary: rp) (simp_all add: deliver_def deliver_response_def Let_def)

lemma rpc_call_methods:
  assumes "rpc_call menv meth ps ds doc (rp, mq) = (ret, doc', tok, rp', mq')"
  shows "rp_methods rp' = rp_methods rp"
proof -
  obtain e rp1 mq1 where b: "call_begin menv meth ps rp mq = (e, rp1, mq1)" by (metis prod_cases3)
  have "rp_methods (if e = ESP_OK then fold deliver ds rp1 else rp1) = rp_methods rp"
    using call_begin_state [OF b] by (simp add: deliver_methods)
  with assms b show ?thesis
    by (auto simp: rpc_call_def call_end_def Let_def split: prod.splits if_splits)
qed

lemma device_report: "device_ok cfg (report_status cfg' menv cenv birth c) = device_ok cfg c"
  by (simp add: report_status_def device_ok_def split: prod.split)

lemma device_tell [simp]: "device_ok cfg (tell up c) = device_ok cfg c"
  by (simp add: tell_def device_ok_def)

lemma device_confirm: "device_ok cfg c \<Longrightarrow> device_ok cfg (confirm_running_image cfg' p c)"
  by (simp add: confirm_running_image_def device_ok_def)

lemma device_sync:
  assumes "device_ok cfg c"
  shows "device_ok cfg (sync_time menv now ds c)"
proof -
  obtain ret doc tok rp mq where r: "rpc_call menv ''time'' ''{}'' ds (sc_json_doc 16) (cl_rpc c, cl_mqtt c) = (ret, doc, tok, rp, mq)"
    by (metis prod_cases5)
  have "\<bar>ms smod 1000\<bar> < 1000" for ms :: int using smod_int_range [of 1000 ms] by auto
  then have "call_ok (SetTime s (ms smod 1000 * 1000))" for s ms by (simp add: abs_mult)
  with assms rpc_call_methods [OF r] show ?thesis
    by (simp add: sync_time_def r device_ok_def methods_keep_def Let_def split: option.split)
qed

lemma device_update:
  assumes "device_ok cfg c"
  shows "device_ok cfg (check_for_update menv cenv ds c)"
proof -
  obtain ret doc tok rp mq where r: "rpc_call menv ''ota.check'' ''{}'' ds (sc_json_doc 24) (cl_rpc c, cl_mqtt c) = (ret, doc, tok, rp, mq)"
    by (metis prod_cases5)
  let ?c = "c\<lparr>cl_rpc := rp, cl_mqtt := mq\<rparr>"
  have ok: "device_ok cfg ?c" using assms rpc_call_methods [OF r] by (simp add: device_ok_def methods_keep_def)
  obtain dret ps where d: "decode_ota_params doc (find doc (the tok) ''update'') ota_params_init = (dret, ps)" by fastforce
  obtain e ota where s: "ota_start (cx_task_created cenv (cw_calls (cl_world c))) ps (cw_ota (cl_world c)) = (e, ota)" by fastforce
  have "dret = ESP_OK \<Longrightarrow> ota_ok ota"
    using start_ok [of "cw_ota (cl_world c)" ps "cx_task_created cenv (cw_calls (cl_world c))"] s assms d decode_checked
    by (auto simp: device_ok_def world_ok_def)
  with ok show ?thesis
    by (auto simp: check_for_update_def r d s device_ok_def world_ok_def methods_keep_def Let_def)
qed

lemma device_connected:
  assumes "device_ok cfg c"
  shows "device_ok cfg (on_connected cfg' menv cenv inp c)"
proof -
  have first: "device_ok cfg (c\<lparr>cl_first := b\<rparr>) = device_ok cfg c" for b and c :: "('a, 'b) client" by (simp add: device_ok_def)
  show ?thesis
    using assms by (simp add: on_connected_def Let_def device_report first device_update device_sync device_confirm)
qed

lemma device_turn:
  assumes "device_ok cfg c" and "run_turn cfg' api menv cenv err_name beat inp c = Some c'"
  shows "device_ok cfg c'"
proof -
  define c0 where "c0 = c\<lparr>cl_events := cl_events c AND NOT WAIT_MASK\<rparr>"
  define c1 where "c1 = (if has_bit (cl_events c) BIT_CONNECTED
      then (on_connected cfg' menv cenv inp c0)\<lparr>cl_next_report := tn_connected inp + beat\<rparr> else c0)"
  define c2 where "c2 = (if has_bit (cl_events c) BIT_DISCONNECTED then tell False c1 else c1)"
  have time: "device_ok cfg (c\<lparr>cl_next_report := t\<rparr>) = device_ok cfg c" for t and c :: "('a, 'b) client" by (simp add: device_ok_def)
  have ok0: "device_ok cfg c0" using assms(1) by (simp add: c0_def device_ok_def)
  then have "device_ok cfg c1" using device_connected [OF ok0] by (simp add: c1_def time)
  then have ok2: "device_ok cfg c2" by (simp add: c2_def)
  obtain rp mq w where h: "handle_ready cfg' api menv err_name (cl_rpc c2, cl_mqtt c2, cl_world c2) = Some (rp, mq, w)"
    using assms(2) unfolding run_turn_def take_events_def Let_def prod.case c0_def [symmetric] c1_def [symmetric] c2_def [symmetric]
    by (cases "handle_ready cfg' api menv err_name (cl_rpc c2, cl_mqtt c2, cl_world c2)") auto
  let ?c3 = "c2\<lparr>cl_rpc := rp, cl_mqtt := mq, cl_world := w\<rparr>"
  have ok3: "device_ok cfg ?c3"
    using handle_ready_keeps [where cfg = cfg, OF h] ok2 methods_keep_same [of rp "cl_rpc c2" cfg] by (simp add: device_ok_def)
  have "c' = (if has_bit (cl_events c) BIT_REPORT_STATUS \<or> report_due (cl_next_report ?c3) (tn_checked inp)
      then (if mq_connected (cl_mqtt ?c3) then report_status cfg' menv cenv False ?c3 else ?c3)\<lparr>cl_next_report := tn_reported inp + beat\<rparr>
      else ?c3)"
    using assms(2) unfolding run_turn_def take_events_def Let_def prod.case c0_def [symmetric] c1_def [symmetric] c2_def [symmetric]
      h option.case by (simp only: option.inject)
  with ok3 device_report [of cfg cfg' menv cenv False ?c3] show ?thesis by (simp add: time)
qed

subsection \<open>The update task\<close>

lemma download_loop_params: "ot_params (fst (snd (download_loop cfg env menv offset n s))) = ot_params (fst s)"
proof (induction cfg env menv offset n s rule: download_loop.induct)
  case (1 cfg env menv offset n s)
  obtain ota w where s: "s = (ota, w)" by (cases s)
  let ?w = "ow_call CheckCancel w"
  obtain len s' where d: "download_from cfg env menv offset (ota, ?w) = (len, s')" by (cases "download_from cfg env menv offset (ota, ?w)")
  have "ot_params (fst s') = ot_params ota" using download_from_params [of cfg env menv offset "(ota, ?w)"] d by simp
  then show ?case
    using 1 [OF refl s [symmetric] _ refl refl _ refl d [symmetric]] s d by (subst download_loop.simps) (auto simp: Let_def)
qed

lemma ota_task_frame:
  assumes "ota_task_handler cfg env menv (ota, w) = (ota', w')"
  shows "ot_params ota' = ot_params ota \<and> \<not> ot_running ota'"
proof -
  have down: "ot_params (fst (snd (snd (download cfg env menv (ota, w))))) = ot_params ota" for w
    using download_loop_params [of cfg env menv 0 0 "(ota, (ow_call HashSetup (ow_call Malloc w))\<lparr>ow_hash := Some []\<rparr>)"]
    by (auto simp: download_def Let_def split: prod.split)
  have "ot_params (fst (snd (ota_run cfg env menv (ota, w)))) = ot_params ota"
  proof -
    let ?w = "(ow_call OtaBegin (ota_report menv ota ''downloading'' 0 None (ow_call NextPartition w)))\<lparr>ow_flash := []\<rparr>"
    obtain r h o1 w1 where d: "download cfg env menv (ota, ?w) = (r, h, o1, w1)" by (metis prod_cases4)
    with down [of ?w] show ?thesis by (simp add: ota_run_def d Let_def case_prod_beta)
  qed
  with assms show ?thesis by (auto simp: ota_task_handler_def split: prod.splits)
qed

subsection \<open>The steps of the device\<close>

text \<open>
  \<open>io\<close>: whatever is published, started and stopped. \<open>upload\<close>: the log uplink. \<open>update\<close>: the update task, which keeps
  the parameters and ends the update (\<open>ota_task_frame\<close>).
\<close>

inductive device_step ::
    "kconfig \<Rightarrow> 'q queue_api \<Rightarrow> mqtt_env \<Rightarrow> client_env \<Rightarrow> (esp_err \<Rightarrow> string) \<Rightarrow> u32 \<Rightarrow>
     ('q, 'r) client \<Rightarrow> ('q, 'r) client \<Rightarrow> bool"
  for cfg qapi menv cenv err_name beat where
  event: "device_step cfg qapi menv cenv err_name beat c (client_event cfg qapi menv evt c)"
| turn: "run_turn cfg qapi menv cenv err_name beat inp c = Some c' \<Longrightarrow> device_step cfg qapi menv cenv err_name beat c c'"
| io: "device_step cfg qapi menv cenv err_name beat c (c\<lparr>cl_mqtt := mq, cl_events := bits\<rparr>)"
| upload: "device_step cfg qapi menv cenv err_name beat c (c\<lparr>cl_world := cw_logs_do f (cl_world c)\<rparr>)"
| update: "ot_params ota = ot_params (cw_ota (cl_world c)) \<Longrightarrow> (ot_running ota \<longrightarrow> ot_running (cw_ota (cl_world c))) \<Longrightarrow>
    device_step cfg qapi menv cenv err_name beat c (c\<lparr>cl_world := (cl_world c)\<lparr>cw_ota := ota\<rparr>\<rparr>)"

lemma update_task_step:
  assumes "ota_task_handler cfg' oenv menv' (cw_ota (cl_world c), w) = (ota, w')"
  shows "device_step cfg qapi menv cenv err_name beat c (c\<lparr>cl_world := (cl_world c)\<lparr>cw_ota := ota\<rparr>\<rparr>)"
  using ota_task_frame [OF assms] by (intro device_step.update) simp_all

lemma device_event: "device_ok cfg (client_event cfg' qapi menv evt c) = device_ok cfg c"
  using event_methods [of cfg' qapi menv evt "(cl_rpc c, cl_mqtt c)"]
  by (cases "event_handler cfg' qapi menv evt (cl_rpc c, cl_mqtt c)")
    (simp add: client_event_def device_ok_def Let_def methods_keep_def)

lemma device_ok_step:
  assumes "device_step cfg' qapi menv cenv err_name beat c c'" and "device_ok cfg c"
  shows "device_ok cfg c'"
  using assms(1)
proof (cases rule: device_step.cases)
  case (event evt)
  with assms(2) show ?thesis by (simp add: device_event)
next
  case (turn inp)
  with device_turn [OF assms(2)] show ?thesis by blast
next
  case (update ota)
  with assms(2) show ?thesis by (auto simp: device_ok_def world_ok_def ota_ok_def)
qed (use assms(2) in \<open>simp_all add: device_ok_def\<close>)

lemma device_reachable:
  "(device_step cfg' qapi menv cenv err_name beat)\<^sup>*\<^sup>* c c' \<Longrightarrow> device_ok cfg c \<Longrightarrow> device_ok cfg c'"
  by (induction rule: rtranclp_induct) (auto intro: device_ok_step)

lemma init_device:
  fixes table :: "'r client_world sc_shell" and c :: "('q, 'r) client"
  assumes "client_init cfg qapi napi cenv ie table cf w = (ESP_OK, Some (c, shell), w')"
    and "length (ie_shell_out ie) = SHELL_OUT_SIZE cfg" and "0 < SHELL_OUT_SIZE cfg" and "table_ok cfg table"
  shows "device_ok cfg c"
proof -
  obtain e1 and rp :: "('q, 'r client_world) sc_rpc" where
    rp: "rpc_init cfg qapi (ie_rpc ie) (ie_free ie) (ie_ready ie) (ie_resp_buf ie) (ie_call_buf ie) = (e1, rp)" by fastforce
  obtain ret rp' shell' where reg: "register_builtin_methods cfg cenv table
      (rp, add_builtins (replicate (k_shell_max_cmds cfg) None)) = (ret, rp', shell')" by (metis prod_cases3)
  have c: "cl_rpc c = rp'" "cw_ota (cl_world c) = ota_init" "cw_shell_out (cl_world c) = ie_shell_out ie" "cw_calls (cl_world c) = []"
    using assms(1) rp reg by (auto simp: client_init_def Let_def split: prod.splits if_splits)
  have "rp' = snd (add_methods (builtin_methods cfg cenv table) rp)"
    using reg by (auto simp: register_builtin_methods_def Let_def split: prod.splits)
  moreover have "methods_keep cfg rp" using rp by (auto simp: rpc_init_def methods_keep_def Let_def split: if_splits)
  ultimately have "methods_keep cfg rp'"
    using add_methods_keep [of cfg rp "builtin_methods cfg cenv table"] builtin_keeps [OF assms(4,3)] by auto
  with c assms(2) show ?thesis by (simp add: device_ok_def world_ok_def ota_ok_def ota_init_def)
qed

subsection \<open>Properties\<close>

text \<open>
  C11: Whatever arrives, the device's state stays well typed. From a successful \<open>init\<close> on, after any registrations of
  the application (handlers and shell commands that keep these types) and in every state reached by network events,
  turns of the request task (requests with any document, answers of the platform), publishing, log uploads and the
  update task: the shell's buffer has its size, every level given to ESP-IDF or on9log is one of the six and every
  tag fits its buffer, and an update that runs has a size that is not zero, a hash of 64 characters and terminated
  strings.
\<close>

theorem device_world_typed:
  fixes c :: "('q, 'r) client" and table :: "'r client_world sc_shell"
  assumes "client_init cfg qapi napi cenv ie table cf w = (ESP_OK, Some (c0, shell), w')"
    and "length (ie_shell_out ie) = SHELL_OUT_SIZE cfg" and "0 < SHELL_OUT_SIZE cfg"
    and "table_ok cfg table" and "\<forall>(n, h) \<in> set regs. keeps cfg h" and "add_methods regs (cl_rpc c0) = (ret, rp)"
    and "(device_step cfg qapi menv cenv err_name beat)\<^sup>*\<^sup>* (c0\<lparr>cl_rpc := rp\<rparr>) c"
  shows "length (cw_shell_out (cl_world c)) = SHELL_OUT_SIZE cfg \<and>
    (\<forall>call \<in> set (cw_calls (cl_world c)). call_ok call) \<and>
    (ot_running (cw_ota (cl_world c)) \<longrightarrow> params_checked (ot_params (cw_ota (cl_world c))))"
proof -
  have ok: "device_ok cfg c0" by (rule init_device [OF assms(1-4)])
  then have "methods_keep cfg rp"
    using add_methods_keep [OF _ assms(5), of "cl_rpc c0"] assms(6) by (simp add: device_ok_def)
  with ok have "device_ok cfg (c0\<lparr>cl_rpc := rp\<rparr>)" by (simp add: device_ok_def)
  from device_reachable [OF assms(7) this] show ?thesis by (auto simp: device_ok_def world_ok_def ota_ok_def)
qed

theorem device_world_typed_witness:
  "\<exists>c shell w c'. sample_start = (ESP_OK, Some (c, shell), w) \<and>
    run_turn kconfig_default (list_queue 4) env_ok sample_cenv (\<lambda>e. ''ERR'') 60 sample_turn
      (client_event kconfig_default (list_queue 4) env_ok MqttConnected c) = Some c' \<and>
    length (cw_shell_out (cl_world c')) = 768"
proof -
  let ?k = "kconfig_default"
  obtain c shell w where s: "sample_start = (ESP_OK, Some (c, shell), w)" using sample_start_ok by blast
  have size: "SHELL_OUT_SIZE ?k = 768" by (simp add: SHELL_OUT_SIZE_def kconfig_default_def)
  have buf: "length (ie_shell_out sample_init) = SHELL_OUT_SIZE ?k" by (simp add: size sample_init_def zeroed_def)
  have k: "690 \<le> k_result_max ?k" "k_queue_len ?k = 4" by (simp_all add: kconfig_default_def)
  have fifo: "fifo_ok (list_queue 4) (k_queue_len ?k) (\<lambda>q. q)" using list_queue_ok [of 4] k by simp
  have ie: "ie_free sample_init = []" "ie_ready sample_init = []" "length (ie_resp_buf sample_init) = k_result_max ?k"
    "length (ie_call_buf sample_init) = CALL_BUF_SIZE"
    by (simp_all add: sample_init_def zeroed_def CALL_BUF_SIZE_def kconfig_default_def)
  obtain did where "client_inv ?k (list_queue 4) (\<lambda>q. q) (builtin_spec ?k sample_cenv []) did c"
    using client_init_inv [OF s fifo map_nvs_ok kconfig_default_ok ie] by blast
  from inv_turn [OF inv_event [OF this] k(1) err_names_sample] obtain c' where
    t: "run_turn ?k (list_queue 4) env_ok sample_cenv (\<lambda>e. ''ERR'') 60 sample_turn
      (client_event ?k (list_queue 4) env_ok MqttConnected c) = Some c'" by blast
  have "(device_step ?k (list_queue 4) env_ok sample_cenv (\<lambda>e. ''ERR'') 60)\<^sup>*\<^sup>* (c\<lparr>cl_rpc := cl_rpc c\<rparr>) c'"
    using device_step.event [of ?k "list_queue 4" env_ok sample_cenv "\<lambda>e. ''ERR''" 60 c MqttConnected] device_step.turn [OF t]
    by (simp add: converse_rtranclp_into_rtranclp)
  from device_world_typed [OF s buf _ _ _ _ this, of "[]"] t s size show ?thesis by (auto simp: table_ok_def)
qed

end
