(* ===== verification/Spec2Isabelle.thy ===== *)
theory Spec2Isabelle
  imports Ota_Safety Log_Batches Client_Reports Device_World
begin

text \<open>
  The SoulCloud device client (\<open>include/\<close>, \<open>src/\<close>, \<open>external/jsmn\<close>), a C++ library for the ESP32: it
  enrolls a device with the platform, connects it with MQTT 5, answers the platform's requests (a remote
  shell, restart, information, log levels, firmware updates, methods of the application), reports the
  status, uploads logs and updates the firmware.

  \<^bold>\<open>Parts and how they interact.\<close> The MQTT task handles the events of esp-mqtt (\<open>sc_mqtt\<close>): it
  reassembles requests in slots taken from a free queue, puts them on a ready queue and sets an event
  bit; fragments of answers to the device's own calls go into the call buffer. The request task
  (\<open>sc_client::run_task\<close>) waits for event bits, reports the status, answers all ready requests
  (\<open>sc_rpc::handle_ready\<close>: parse, look up the method, run its handler, publish the answer, give the slot
  back) and makes calls. The upload task drains two ring buffers of log packets and lines into batches.
  The update task downloads an image into the other partition, verifies it and switches to it. All of
  them publish through \<open>sc_mqtt::publish_topic\<close>, below the device's own prefix. Messages are JSON: \<open>sc_json\<close>
  writes it into fixed buffers and reads it over the tokens of jsmn.

  \<^bold>\<open>Theories and sources.\<close>
  \<^item> \<open>Sc_Base\<close>: error codes, C strings and buffers (\<open>cstr\<close>, \<open>memcpy\<close>, \<open>snprintf\<close>), shared lemmas.
    \<open>Kconfig\<close>: the options of \<open>Kconfig\<close>, an argument of all that depends on them.
  \<^item> \<open>Jsmn\<close> (\<open>external/jsmn/jsmn.h\<close>): the tokenizer as a step function over a token array.
    \<open>Json_Reader\<close>, \<open>Json_Writer\<close> (\<open>sc_json.hpp\<close>, \<open>sc_json.cpp\<close>): reader and writer. \<open>Json_Text\<close>: JSON values,
    their text, and the refinement of the writer to an unbounded text writer. \<open>Json_Roundtrip\<close>: the tokens
    of any text \<open>render v\<close>. \<open>Json_Lookup\<close>: what the reader finds in them.
  \<^item> \<open>Codec\<close> (\<open>sc_codec\<close>, \<open>sc_messages.hpp\<close>): the messages, as JSON values and with their buffers.
  \<^item> \<open>Registry\<close>: tables of named entries, the contract shared by \<open>sc_rpc::add_method\<close> and \<open>sc_shell::add\<close>.
    \<open>Shell\<close> (\<open>sc_shell\<close>): output buffer, command table, splitting, lookup, built-in commands.
  \<^item> \<open>Mqtt_Link\<close> (\<open>sc_mqtt\<close>, the sending half): topics and publishing. \<open>Mqtt_Rx\<close> (\<open>sc_mqtt\<close>, the receiving half):
    events and reassembly. \<open>Rpc\<close> (\<open>sc_rpc\<close>): slots, methods, handling, answers, calls. \<open>Rpc_Answer\<close>: the
    specification of answers on JSON values. \<open>Rpc_Call\<close>: calls to the platform, registration.
    \<open>Rx_Invariant\<close>: all interleavings of the two tasks. \<open>Rx_Request\<close>: the fragments of one request.
  \<^item> \<open>Ota\<close>, \<open>Ota_Safety\<close> (\<open>sc_ota\<close>): the update, and its theorems against an HTTP server that serves an image.
  \<^item> \<open>Log_Uplink\<close>, \<open>Log_Batches\<close> (\<open>sc_log_uplink\<close>): sink, text hook and upload task; the batches they make.
  \<^item> \<open>Credentials\<close> (\<open>sc_credentials\<close>): NVS storage and enrollment. \<open>Status\<close> (\<open>sc_status\<close>): reports.
  \<^item> \<open>Builtins\<close>, \<open>Builtin_Answers\<close> (\<open>sc_client::register_builtin_methods\<close>): the built-in requests and their
    specifications. \<open>Builtin_Values\<close>: the same requests as functions of JSON values. \<open>Client\<close> (\<open>soulcloud.hpp\<close>, \<open>sc_client.cpp\<close>): \<open>init\<close>, the application interface, the turns of the
    request task. \<open>Client_Turn\<close>: what a turn does. \<open>Client_Invariant\<close>: all reachable states of the client.
    \<open>Client_Reports\<close>: what platform and application see of a turn. \<open>Device_World\<close>: what requests, calls, the upload
    and the update task keep of the state they share.

  \<^bold>\<open>How code became definitions.\<close> Classes are records, operations are functions on them; buffers are strings
  of their size (a write beyond the end would make the string longer, so the size lemmas are bounds checks);
  widths are kept where they matter (\<open>u32\<close> ticks and counters, the writer's bit set of levels, 64-bit
  numbers). Errors are values of \<open>esp_err\<close>. What is not source of this repository is an argument: FreeRTOS
  queues and ring buffers, NVS and on9log are records of functions with contracts (\<open>fifo_ok\<close>, \<open>ring_ok\<close>,
  \<open>nvs_ok\<close>, \<open>on9log_ok\<close>); esp-mqtt, the HTTP client, the flash, the hash, the chip and the clock are
  environments whose answers may depend on all calls made so far. Calls with an effect outside are recorded in
  lists, which is what theorems about published messages speak of.

  \<^bold>\<open>What the theorems show.\<close>
  \<^item> Text: the writer refines an unbounded one and reports overflow exactly; the tokenizer stays inside its
    input and array; reading back what was written gives the same values; decoders accept exactly the messages
    they should and stay inside their buffers.
  \<^item> Requests: a message becomes one ready slot (\<open>Rx_Request\<close>); slots are never lost or shared and no write leaves its
    buffer in any interleaving (\<open>Rx_Invariant\<close>); every waiting request gets exactly the specified answer, in order
    (\<open>Rpc_Answer\<close>); end to end, a request that arrives wakes the request task and is answered in its next turn
    (\<open>Client_Turn\<close>); the built-in requests are served (\<open>Builtin_Answers\<close>) and, when their parameters are a JSON object,
    answer and act as a function of that object says: levels, switches, updates, shell output (\<open>Builtin_Values\<close>).
  \<^item> Calls: published once with fresh correlation data, answered by the matching message only (\<open>Rpc_Call\<close>).
  \<^item> Updates: only a complete image with the announced hash is booted, as long as no hash call fails (the code ignores their
    results; \<open>failed_hash_boots\<close>); exactly its bytes are written; the task ends; the outcome is reported, if its event fits
    256 bytes (\<open>Ota_Safety\<close>). Whatever arrives, only an update with checked parameters ever runs, and
    \<open>ota.start\<close> never disturbs a running one (\<open>Builtin_Values\<close>, \<open>Device_World\<close>).
  \<^item> Logs: packets and lines are stored whole while the ring has room and counted otherwise; they are uploaded in order, once
    each, in batches that fit (\<open>Log_Batches\<close>).
  \<^item> Identity: an enrolled device stays enrolled; a failed enrollment keeps the identity in use (\<open>Credentials\<close>).
  \<^item> The client: what \<open>init\<close> establishes is an invariant, every turn of the request task returns, and its clock is right
    across the wrap-around of the tick counter (\<open>Client_Invariant\<close>, \<open>Client_Turn\<close>); a connection is announced by the
    birth report, and a turn publishes the answers and then the report that is due, and nothing else (\<open>Client_Reports\<close>).

  \<^bold>\<open>Loops.\<close> Loops over data are recursive functions with a measure. The loops that end only if the environment
  lets them (\<open>handle_ready\<close>, the loops of the upload task) are partial functions into \<open>option\<close>, and are proved to
  return under the contracts. The download loop has a measure on the bytes missing and the failed attempts:
  at most five failures in a row.

  \<^bold>\<open>Interfaces.\<close> The locales \<open>simulation\<close> (a buffer refines a text), \<open>json_document\<close>, \<open>registry\<close>, \<open>publisher\<close>,
  \<open>slot_pool\<close>, \<open>draining\<close> and \<open>packer\<close> state what a component needs of another; each is interpreted on the model's
  definitions, and the properties use the facts of the interpretations.

  \<^bold>\<open>Not modelled.\<close> The infinite loops around \<open>run_turn\<close> and \<open>log_turn\<close> and the creation of tasks (the step relations
  stand for them); ESP-IDF, FreeRTOS, esp-mqtt, mbedTLS and on9log, which are arguments as said above; log output of the
  library itself; \<open>jsmn_parse\<close> with no token array (counting only), the non-strict mode and the parent links of jsmn,
  which the library does not use or compile; memory safety of the C++ objects beyond buffer bounds; preemption in the
  middle of an operation (critical sections and mutexes make the modelled steps atomic); the host test program.
\<close>

end
